(* ===== verification/Wt_Prelude.thy ===== *)
theory Wt_Prelude
  imports Main "HOL-Library.Word"
begin

text \<open>
  Shared material of the development: the names of the machine types, Rust's checked and
  saturating arithmetic, big-endian byte strings, and UTF-8 validation as the Rust standard library
  does it.

  Conventions used by every component theory.
  \<^item> A \<^verbatim>\<open>u8\<close> is an \<open>8 word\<close>; a \<^verbatim>\<open>u32\<close> or \<^verbatim>\<open>u64\<close> that is written to or read from the wire is a
    \<open>32 word\<close> or \<open>64 word\<close>.
  \<^item> A \<^verbatim>\<open>usize\<close>, and a counter that the code only compares and adds with checked or saturating
    operations, is a \<open>nat\<close>; the limit of its width is written out where the code can reach it.
  \<^item> A Rust \<^verbatim>\<open>String\<close> or \<^verbatim>\<open>&str\<close> is the list of its UTF-8 bytes.
\<close>

unbundle bit_operations_syntax

section \<open>Machine types\<close>

type_synonym byte = "8 word"
type_synonym bytes = "byte list"
type_synonym u16 = "16 word"
type_synonym u32 = "32 word"
type_synonym u64 = "64 word"
type_synonym u128 = "128 word"

named_theorems wire_simps \<open>unfolding of the append-style wire encoders\<close>
named_theorems inv_intros \<open>operations preserve their component's invariant\<close>

text \<open>
  The WebAssembly crate is compiled for \<^verbatim>\<open>wasm32\<close>, so its \<^verbatim>\<open>usize\<close> has 32 bits.
\<close>

definition usize_MAX :: nat where
  "usize_MAX = 2 ^ 32 - 1"

definition u64_MAX :: nat where
  "u64_MAX = 2 ^ 64 - 1"

definition usize_try_from :: "u64 \<Rightarrow> nat option" where
  "usize_try_from v = (if unat v \<le> usize_MAX then Some (unat v) else None)"

definition sat_add :: "nat \<Rightarrow> nat \<Rightarrow> nat \<Rightarrow> nat" where
  "sat_add limit a b = min (a + b) limit"

definition sat_mul :: "nat \<Rightarrow> nat \<Rightarrow> nat \<Rightarrow> nat" where
  "sat_mul limit a b = min (a * b) limit"

definition checked_add :: "nat \<Rightarrow> nat \<Rightarrow> nat \<Rightarrow> nat option" where
  "checked_add limit a b = (if a + b \<le> limit then Some (a + b) else None)"

definition checked_sub :: "nat \<Rightarrow> nat \<Rightarrow> nat option" where
  "checked_sub a b = (if b \<le> a then Some (a - b) else None)"

definition checked_add_word :: "'a::len word \<Rightarrow> 'a word \<Rightarrow> 'a word option" where
  "checked_add_word a b = (if unat a + unat b < 2 ^ LENGTH('a) then Some (a + b) else None)"

text \<open>An ASCII string literal of the source, as its bytes.\<close>

definition str_lit :: "string \<Rightarrow> bytes" where
  "str_lit s = map of_char s"

section \<open>Big-endian byte strings\<close>

text \<open>\<^verbatim>\<open>to_be_bytes\<close> of a word of \<open>n\<close> bytes.\<close>

fun be_bytes :: "nat \<Rightarrow> 'a::len word \<Rightarrow> bytes" where
  "be_bytes 0 w = []"
| "be_bytes (Suc n) w = ucast (drop_bit (8 * n) w) # be_bytes n w"

text \<open>The number a big-endian byte string denotes.\<close>

fun be_nat :: "bytes \<Rightarrow> nat" where
  "be_nat [] = 0"
| "be_nat (b # bs) = unat b * 256 ^ length bs + be_nat bs"

text \<open>\<^verbatim>\<open>from_be_bytes\<close> by shifting in one byte after the other.\<close>

definition shift_in :: "u64 \<Rightarrow> byte \<Rightarrow> u64" where
  "shift_in v b = push_bit 8 v OR ucast b"

section \<open>UTF-8 validation\<close>

definition utf8_cont :: "byte \<Rightarrow> bool" where
  "utf8_cont b \<longleftrightarrow> 0x80 \<le> b \<and> b \<le> 0xBF"

definition utf8_second3 :: "byte \<Rightarrow> byte \<Rightarrow> bool" where
  "utf8_second3 a b \<longleftrightarrow>
     (a = 0xE0 \<and> 0xA0 \<le> b \<and> b \<le> 0xBF) \<or> (0xE1 \<le> a \<and> a \<le> 0xEC \<and> utf8_cont b) \<or>
     (a = 0xED \<and> 0x80 \<le> b \<and> b \<le> 0x9F) \<or> (0xEE \<le> a \<and> a \<le> 0xEF \<and> utf8_cont b)"

definition utf8_second4 :: "byte \<Rightarrow> byte \<Rightarrow> bool" where
  "utf8_second4 a b \<longleftrightarrow>
     (a = 0xF0 \<and> 0x90 \<le> b \<and> b \<le> 0xBF) \<or> (0xF1 \<le> a \<and> a \<le> 0xF3 \<and> utf8_cont b) \<or>
     (a = 0xF4 \<and> 0x80 \<le> b \<and> b \<le> 0x8F)"

text \<open>The number of bytes of the well-formed character at the front, \<open>0\<close> if there is none.\<close>

definition utf8_char_len :: "bytes \<Rightarrow> nat" where
  "utf8_char_len bs =
     (case bs of
        [] \<Rightarrow> 0
      | a # as \<Rightarrow>
          if a < 0x80 then 1
          else case as of
            [] \<Rightarrow> 0
          | b # bs' \<Rightarrow>
              if 0xC2 \<le> a \<and> a \<le> 0xDF \<and> utf8_cont b then 2
              else case bs' of
                [] \<Rightarrow> 0
              | c # cs \<Rightarrow>
                  if utf8_second3 a b \<and> utf8_cont c then 3
                  else case cs of
                    [] \<Rightarrow> 0
                  | d # _ \<Rightarrow> if utf8_second4 a b \<and> utf8_cont c \<and> utf8_cont d then 4 else 0)"

lemma utf8_char_len_le: "utf8_char_len bs \<le> length bs"
  by (simp add: utf8_char_len_def split: list.splits)

function valid_utf8 :: "bytes \<Rightarrow> bool" where
  "valid_utf8 bs =
     (if bs = [] then True
      else if utf8_char_len bs = 0 then False
      else valid_utf8 (drop (utf8_char_len bs) bs))"
  by pat_completeness auto
termination
  by (relation "measure length") auto

declare valid_utf8.simps [simp del]

text \<open>\<^verbatim>\<open>std::str::from_utf8\<close>: the same bytes, if they are well formed.\<close>

definition from_utf8 :: "bytes \<Rightarrow> bytes option" where
  "from_utf8 bs = (if valid_utf8 bs then Some bs else None)"

section \<open>Lemmas on checked arithmetic\<close>

lemma checked_add_eq_Some [simp]: "checked_add l a b = Some c \<longleftrightarrow> c = a + b \<and> a + b \<le> l"
  by (auto simp: checked_add_def)

lemma checked_add_eq_None [simp]: "checked_add l a b = None \<longleftrightarrow> l < a + b"
  by (auto simp: checked_add_def)

lemma checked_sub_eq_Some [simp]: "checked_sub a b = Some c \<longleftrightarrow> c = a - b \<and> b \<le> a"
  by (auto simp: checked_sub_def)

lemma checked_sub_eq_None [simp]: "checked_sub a b = None \<longleftrightarrow> a < b"
  by (auto simp: checked_sub_def)

lemma usize_try_from_eq_Some [simp]:
  "usize_try_from v = Some n \<longleftrightarrow> n = unat v \<and> unat v \<le> usize_MAX"
  by (auto simp: usize_try_from_def)

lemma checked_add_word_eq_Some:
  "checked_add_word (a :: 'a::len word) b = Some c
     \<longleftrightarrow> unat c = unat a + unat b \<and> unat a + unat b < 2 ^ LENGTH('a)"
  by (auto simp: checked_add_word_def unat_word_ariths intro: word_unat_eq_iff [THEN iffD2])

text \<open>Word-level forms of the width checks, so that evaluation never counts to a limit.\<close>

lemma checked_add_word_code [code]:
  "checked_add_word a b = (let c = a + b in if a \<le> c then Some c else None)"
  by (simp add: checked_add_word_def Let_def no_olen_add_nat)

lemma usize_try_from_code [code]:
  "usize_try_from v = (if v \<le> 0xFFFFFFFF then Some (unat v) else None)"
  by (simp add: usize_try_from_def usize_MAX_def word_le_nat_alt)

lemma sat_add_le [simp]: "sat_add l a b \<le> l"
  by (simp add: sat_add_def)

lemma sat_add_exact: "a + b \<le> l \<Longrightarrow> sat_add l a b = a + b"
  by (simp add: sat_add_def)

section \<open>Lemmas on words and byte strings\<close>

lemma word_of_nat_unat: "word_of_nat (unat (w :: 'a::len word)) = w"
  by simp

lemma unat_or_disjoint:
  fixes v w :: "'a::len word"
  assumes "v AND w = 0"
  shows "unat (v OR w) = unat v + unat w"
proof -
  have "unat v AND unat w = unat (v AND w)"
    by (simp add: unsigned_and_eq)
  then have "unat v AND unat w = 0"
    using assms by simp
  then show ?thesis
    by (simp add: unsigned_or_eq disjunctive_add_eq_or)
qed

lemma and_push_bit_eq_0:
  fixes v w :: "'a::len word"
  assumes "unat v < 2 ^ n"
  shows "v AND push_bit n w = 0"
proof -
  have "v = take_bit n v"
    using assms by (simp add: word_unat_eq_iff unsigned_take_bit_eq take_bit_nat_eq_self)
  then have "v AND push_bit n w = take_bit n v AND push_bit n w"
    by simp
  also have "\<dots> = 0"
    by (rule bit_eqI) (auto simp: bit_simps)
  finally show ?thesis .
qed

lemma unat_or_push_bit:
  fixes v w :: "'a::len word"
  assumes "unat v < 2 ^ n"
  shows "unat (v OR push_bit n w) = unat v + unat (push_bit n w)"
  using assms by (intro unat_or_disjoint and_push_bit_eq_0)

lemma unat_push_bit: "unat (push_bit n w) = unat (w :: 'a::len word) * 2 ^ n mod 2 ^ LENGTH('a)"
  by (subst unsigned_push_bit_eq) (simp add: push_bit_eq_mult take_bit_eq_mod)

lemma unat_drop_bit: "unat (drop_bit n w) = unat (w :: 'a::len word) div 2 ^ n"
  by (subst unat_drop_bit_eq) (simp add: drop_bit_eq_div)

lemma unat_ucast: "unat (ucast w :: 'b::len word) = unat (w :: 'a::len word) mod 2 ^ LENGTH('b)"
  by (subst unsigned_ucast_eq) (simp add: take_bit_eq_mod)

lemma unat_push_bit_small:
  fixes v :: "'a::len word"
  assumes "unat v * 2 ^ n < 2 ^ LENGTH('a)"
  shows "unat (push_bit n v) = unat v * 2 ^ n"
  using assms by (simp add: unat_push_bit)

lemma unat_and_mask: "unat (w AND mask n) = unat (w :: 'a::len word) mod 2 ^ n"
proof -
  have "unat (take_bit n w) = unat w mod 2 ^ n"
    by (subst unsigned_take_bit_eq) (simp add: take_bit_eq_mod)
  then show ?thesis
    by (simp add: take_bit_eq_mask)
qed

lemma and_not_mask: "(w :: 'a::len word) AND NOT (mask n) = push_bit n (drop_bit n w)"
  by (rule bit_eqI) (auto simp: bit_simps)

lemma unat_byte_less: "unat (b :: byte) < 256"
  using unsigned_less [of b, where ?'a = nat] by simp

lemma unat_u32_less: "unat (c :: u32) < 4294967296"
  using unsigned_less [of c, where ?'a = nat] by simp

lemma unat_ucast_byte [simp]: "unat (ucast (b :: byte) :: u64) = unat b"
  using unat_byte_less [of b] by (simp add: unat_ucast)

lemma unat_shift_in:
  assumes "unat v < 2 ^ 56"
  shows "unat (shift_in v b) = unat v * 256 + unat b"
proof -
  have 1: "unat (ucast b :: u64) < 2 ^ 8"
    using unat_byte_less [of b] by simp
  have 2: "unat (push_bit 8 v) = unat v * 256"
    using assms by (subst unat_push_bit_small) auto
  have "unat (shift_in v b) = unat (ucast b OR push_bit 8 v :: u64)"
    by (simp add: shift_in_def or.commute)
  then show ?thesis
    using unat_or_push_bit [OF 1, of v] 2 by simp
qed

lemma be_nat_less: "be_nat bs < 256 ^ length bs"
proof (induction bs)
  case (Cons b bs)
  have "unat b * 256 ^ length bs + be_nat bs < unat b * 256 ^ length bs + 256 ^ length bs"
    using Cons by simp
  also have "\<dots> = (unat b + 1) * 256 ^ length bs"
    by simp
  also have "\<dots> \<le> 256 * 256 ^ length bs"
    using unat_byte_less [of b] by (intro mult_right_mono) linarith+
  finally show ?case by simp
qed simp

lemma length_be_bytes [simp]: "length (be_bytes n w) = n"
  by (induction n) auto

lemma be_nat_be_bytes: "be_nat (be_bytes n (w :: 'a::len word)) = unat w mod 256 ^ n"
proof (induction n)
  case (Suc n)
  have "unat (ucast (drop_bit (8 * n) w) :: byte) = unat w div 256 ^ n mod 256"
    by (simp add: unat_ucast unat_drop_bit power_mult)
  then have "be_nat (be_bytes (Suc n) w) = unat w div 256 ^ n mod 256 * 256 ^ n + unat w mod 256 ^ n"
    using Suc by simp
  also have "\<dots> = unat w mod (256 ^ n * 256)"
    by (simp add: mod_mult2_eq)
  finally show ?case
    by (simp add: mult.commute)
qed simp

lemma unat_foldl_shift_in:
  assumes "unat v < 2 ^ k" and "k + 8 * length bs \<le> 64"
  shows "unat (foldl shift_in v bs) = unat v * 256 ^ length bs + be_nat bs"
  using assms
proof (induction bs arbitrary: v k)
  case (Cons b bs)
  have k: "unat v < 2 ^ 56"
  proof -
    have "(2::nat) ^ k \<le> 2 ^ 56"
      using Cons.prems(2) by (intro power_increasing) auto
    with Cons.prems(1) show ?thesis by linarith
  qed
  have "unat v + 1 \<le> 2 ^ k"
    using Cons.prems(1) by simp
  then have "(unat v + 1) * 256 \<le> 2 ^ k * 256"
    by (rule mult_right_mono) simp
  then have "unat v * 256 + 256 \<le> 2 ^ (k + 8)"
    by (simp add: power_add)
  then have "unat (shift_in v b) < 2 ^ (k + 8)"
    using unat_byte_less [of b] unat_shift_in [OF k, of b] by linarith
  then have "unat (foldl shift_in (shift_in v b) bs)
      = unat (shift_in v b) * 256 ^ length bs + be_nat bs"
    using Cons.prems(2) by (intro Cons.IH [of _ "k + 8"]) auto
  then show ?case
    by (simp add: unat_shift_in [OF k] algebra_simps)
qed simp

section \<open>Lemmas on UTF-8\<close>

lemma valid_utf8_Nil [simp]: "valid_utf8 []"
  by (simp add: valid_utf8.simps)

lemma from_utf8_eq_Some [simp]: "from_utf8 bs = Some s \<longleftrightarrow> s = bs \<and> valid_utf8 bs"
  by (auto simp: from_utf8_def)

lemma utf8_cont_iff: "utf8_cont b \<longleftrightarrow> b AND 0xC0 = 0x80"
proof -
  have "NOT (mask 6) = (0xC0 :: byte)"
    by (simp add: mask_eq_exp_minus_1)
  then have "b AND 0xC0 = 0x80 \<longleftrightarrow> push_bit 6 (drop_bit 6 b) = 0x80"
    using and_not_mask [of b 6] by simp
  also have "\<dots> \<longleftrightarrow> unat b div 64 = 2"
    using unat_byte_less [of b] by (auto simp: word_unat_eq_iff unat_push_bit unat_drop_bit)
  also have "\<dots> \<longleftrightarrow> 128 \<le> unat b \<and> unat b \<le> 191"
    by auto
  finally show ?thesis
    by (simp add: utf8_cont_def word_le_nat_alt)
qed

text \<open>
  Character boundaries: a prefix of well-formed text is well formed exactly when the byte after it
  is not a continuation byte.
\<close>

lemma utf8_second3D: "utf8_second3 a b \<Longrightarrow> 0xE0 \<le> unat a \<and> unat a \<le> 0xEF \<and> utf8_cont b"
  by (auto simp: utf8_second3_def utf8_cont_def word_le_nat_alt)

lemma utf8_second4D: "utf8_second4 a b \<Longrightarrow> 0xF0 \<le> unat a \<and> unat a \<le> 0xF4 \<and> utf8_cont b"
  by (auto simp: utf8_second4_def utf8_cont_def word_le_nat_alt)

lemma utf8_char_len_1: "a < 0x80 \<Longrightarrow> utf8_char_len (a # r) = 1"
  by (simp add: utf8_char_len_def)

lemma utf8_char_len_2:
  "0xC2 \<le> a \<Longrightarrow> a \<le> 0xDF \<Longrightarrow>
     utf8_char_len [a] = 0 \<and> (utf8_cont b \<longrightarrow> utf8_char_len (a # b # r) = 2)"
  by (simp add: utf8_char_len_def word_le_nat_alt word_less_nat_alt)

lemma utf8_char_len_3:
  assumes "utf8_second3 a b"
  shows "utf8_char_len [a] = 0" "utf8_char_len [a, b] = 0"
    and "utf8_cont c \<Longrightarrow> utf8_char_len (a # b # c # r) = 3"
  using utf8_second3D [OF assms] assms
  by (simp_all add: utf8_char_len_def word_le_nat_alt word_less_nat_alt)

lemma utf8_char_len_4:
  assumes "utf8_second4 a b"
  shows "utf8_char_len [a] = 0" "utf8_char_len [a, b] = 0" "utf8_char_len [a, b, c] = 0"
    and "utf8_cont c \<Longrightarrow> utf8_cont d \<Longrightarrow> utf8_char_len (a # b # c # d # r) = 4"
proof -
  have "\<not> utf8_second3 a b"
    using utf8_second4D [OF assms] utf8_second3D [of a b] by auto
  then show "utf8_char_len [a] = 0" "utf8_char_len [a, b] = 0" "utf8_char_len [a, b, c] = 0"
    and "utf8_cont c \<Longrightarrow> utf8_cont d \<Longrightarrow> utf8_char_len (a # b # c # d # r) = 4"
    using utf8_second4D [OF assms] assms
    by (simp_all add: utf8_char_len_def word_le_nat_alt word_less_nat_alt)
qed

lemma utf8_char_cases:
  assumes "0 < utf8_char_len bs"
  obtains (one) a r where "bs = a # r" "a < 0x80"
  | (two) a b r where "bs = a # b # r" "0xC2 \<le> a" "a \<le> 0xDF" "utf8_cont b"
  | (three) a b c r where "bs = a # b # c # r" "utf8_second3 a b" "utf8_cont c"
  | (four) a b c d r where "bs = a # b # c # d # r" "utf8_second4 a b" "utf8_cont c" "utf8_cont d"
proof -
  from assms obtain a as where bs: "bs = a # as"
    by (cases bs) (auto simp: utf8_char_len_def)
  show thesis
  proof (cases "a < 0x80")
    case True
    with bs show thesis by (rule one)
  next
    case a: False
    with assms bs obtain b bs' where as: "as = b # bs'"
      by (cases as) (auto simp: utf8_char_len_def)
    show thesis
    proof (cases "0xC2 \<le> a \<and> a \<le> 0xDF \<and> utf8_cont b")
      case True
      with bs as show thesis by (intro two) auto
    next
      case b: False
      with assms bs as a obtain c cs where bs': "bs' = c # cs"
        by (cases bs') (auto simp: utf8_char_len_def)
      show thesis
      proof (cases "utf8_second3 a b \<and> utf8_cont c")
        case True
        with bs as bs' show thesis by (intro three) auto
      next
        case c: False
        with assms bs as bs' a b obtain d ds where "cs = d # ds"
          by (cases cs) (auto simp: utf8_char_len_def)
        with assms bs as bs' a b c show thesis
          by (intro four [of a b c d ds]) (auto simp: utf8_char_len_def split: if_splits)
      qed
    qed
  qed
qed

lemma utf8_char_len_take:
  assumes "0 < utf8_char_len bs"
  shows "utf8_char_len (take k bs) = (if utf8_char_len bs \<le> k then utf8_char_len bs else 0)"
proof -
  have Nil: "utf8_char_len [] = 0"
    by (simp add: utf8_char_len_def)
  from assms show ?thesis
    by (cases rule: utf8_char_cases)
      (auto simp: take_Cons' utf8_char_len_1 utf8_char_len_2 utf8_char_len_3 utf8_char_len_4 Nil)
qed

lemma utf8_char_len_cont:
  assumes "0 < k" and "k < utf8_char_len bs"
  shows "utf8_cont (bs ! k)"
proof -
  from assms have "0 < utf8_char_len bs" by simp
  then show ?thesis
    using assms
    by (cases rule: utf8_char_cases)
      (auto simp: nth_Cons' utf8_char_len_1 utf8_char_len_2 utf8_char_len_3 utf8_char_len_4
        dest: utf8_second3D utf8_second4D)
qed

lemma utf8_char_len_head:
  assumes "0 < utf8_char_len bs"
  shows "\<not> utf8_cont (bs ! 0)"
  using assms
  by (cases rule: utf8_char_cases)
    (auto simp: utf8_cont_def word_le_nat_alt word_less_nat_alt dest: utf8_second3D utf8_second4D)

lemma valid_utf8_take_iff:
  assumes "valid_utf8 bs" and "k < length bs"
  shows "valid_utf8 (take k bs) \<longleftrightarrow> \<not> utf8_cont (bs ! k)"
  using assms
proof (induction bs arbitrary: k rule: valid_utf8.induct)
  case (1 bs)
  let ?c = "utf8_char_len bs"
  from "1.prems" have bs: "bs \<noteq> []" by auto
  with "1.prems" have c: "0 < ?c" and rest: "valid_utf8 (drop ?c bs)"
    by (auto simp: valid_utf8.simps [of bs] split: if_splits)
  consider "k = 0" | "0 < k" "k < ?c" | "0 < k" "?c \<le> k"
    by linarith
  then show ?case
  proof cases
    case 1
    with c show ?thesis by (simp add: utf8_char_len_head)
  next
    case 2
    then have "utf8_char_len (take k bs) = 0" "take k bs \<noteq> []"
      using c bs by (auto simp: utf8_char_len_take)
    then have "\<not> valid_utf8 (take k bs)"
      by (simp add: valid_utf8.simps [of "take k bs"])
    with 2 show ?thesis by (simp add: utf8_char_len_cont)
  next
    case 3
    then have len: "utf8_char_len (take k bs) = ?c" and "take k bs \<noteq> []"
      using c bs by (auto simp: utf8_char_len_take)
    then have "valid_utf8 (take k bs) \<longleftrightarrow> valid_utf8 (take (k - ?c) (drop ?c bs))"
      using c by (simp add: valid_utf8.simps [of "take k bs"] drop_take)
    also have "\<dots> \<longleftrightarrow> \<not> utf8_cont (drop ?c bs ! (k - ?c))"
      using "1.IH" [OF bs] c rest "1.prems"(2) 3 by auto
    also have "drop ?c bs ! (k - ?c) = bs ! k"
      using 3 "1.prems"(2) by simp
    finally show ?thesis .
  qed
qed

end
