(* ===== verification/Wt_Error.thy ===== *)
theory Wt_Error
  imports Wt_Prelude
begin

text \<open>
  Application error codes, \<^verbatim>\<open>crates/wasm/src/wt_error.rs\<close>, and endpoint handles,
  \<^verbatim>\<open>crates/wasm/src/handle.rs\<close>. The remap of a 32-bit code into the QUIC error space and its
  inverse are computed in 64-bit words as in the source.
\<close>

unbundle bit_operations_syntax

section \<open>Definitions: application error codes\<close>

definition WT_APP_ERROR_FIRST :: u64 where
  "WT_APP_ERROR_FIRST = 0x52e4a40fa8db"

definition WT_APP_ERROR_LAST :: u64 where
  "WT_APP_ERROR_LAST = 0x52e5ac983162"

definition WT_SESSION_GONE :: u32 where
  "WT_SESSION_GONE = 0x170d7b68"

definition WT_BUFFERED_STREAM_REJECTED :: u32 where
  "WT_BUFFERED_STREAM_REJECTED = 0x3994bd84"

definition remap_application_error :: "u32 \<Rightarrow> u64" where
  "remap_application_error code =
     (let n = ucast code in WT_APP_ERROR_FIRST + n + n div 0x1e)"

definition u32_try_from :: "u64 \<Rightarrow> u32 option" where
  "u32_try_from n = (if unat n < 2 ^ 32 then Some (ucast n) else None)"

definition unmap_application_error :: "u64 \<Rightarrow> u32 option" where
  "unmap_application_error v =
     (if \<not> (WT_APP_ERROR_FIRST \<le> v \<and> v \<le> WT_APP_ERROR_LAST) then None
      else
        let d = v - WT_APP_ERROR_FIRST; q = d div 31; r = d mod 31 in
        if r = 30 then None else u32_try_from (q * 30 + r))"

text \<open>The reserved HTTP/3 codepoints: those of the form \<^verbatim>\<open>0x1f * N + 0x21\<close>.\<close>

definition is_reserved :: "nat \<Rightarrow> bool" where
  "is_reserved v \<longleftrightarrow> 0x21 \<le> v \<and> (v - 0x21) mod 0x1f = 0"

section \<open>Definitions: handles\<close>

record handle_allocator =
  next_handle :: u32

datatype handle_error = HANDLE_SPACE_EXHAUSTED

definition handle_allocator_new :: handle_allocator where
  "handle_allocator_new = \<lparr>next_handle = 1\<rparr>"

definition allocate :: "handle_allocator \<Rightarrow> handle_allocator \<times> (handle_error + u32)" where
  "allocate a =
     (if next_handle a = 0 then (a, Inl HANDLE_SPACE_EXHAUSTED)
      else
        let hid = next_handle a in
        (a\<lparr>next_handle := (case checked_add_word (next_handle a) 1 of Some n \<Rightarrow> n | None \<Rightarrow> 0)\<rparr>, Inr hid))"

text \<open>The handles that a sequence of \<open>k\<close> allocations returns.\<close>

fun allocations :: "nat \<Rightarrow> handle_allocator \<Rightarrow> u32 list" where
  "allocations 0 a = []"
| "allocations (Suc k) a =
     (case allocate a of
        (a', Inr hid) \<Rightarrow> hid # allocations k a'
      | (a', Inl _) \<Rightarrow> allocations k a')"

section \<open>Error codes\<close>

lemmas wt_app_error_bounds = WT_APP_ERROR_FIRST_def WT_APP_ERROR_LAST_def

lemma unat_remap:
  "unat (remap_application_error c) = 0x52e4a40fa8db + unat c + unat c div 30"
proof -
  have c: "unat c < 4294967296"
    by (rule unat_u32_less)
  have n: "unat (ucast c :: u64) = unat c"
    using c by (simp add: unat_ucast)
  have d: "unat (ucast c div 30 :: u64) = unat c div 30"
    by (simp add: unat_div_distrib n)
  have "unat c div 30 \<le> unat c"
    by simp
  with c n d show ?thesis
    by (simp add: remap_application_error_def Let_def WT_APP_ERROR_FIRST_def unat_word_ariths)
qed

lemma remap_range:
  "WT_APP_ERROR_FIRST \<le> remap_application_error c \<and> remap_application_error c \<le> WT_APP_ERROR_LAST"
proof -
  have "unat c div 30 \<le> 4294967295 div 30"
    using unat_u32_less [of c] by (intro div_le_mono) simp
  then show ?thesis
    using unat_u32_less [of c] by (simp add: word_le_nat_alt unat_remap wt_app_error_bounds)
qed

lemma remap_not_reserved: "\<not> is_reserved (unat (remap_application_error c))"
proof -
  define q r where "q = unat c div 30" and "r = unat c mod 30"
  have c: "unat c = 30 * q + r" and r: "r < 30"
    by (simp_all add: q_def r_def)
  then have "unat (remap_application_error c) - 33 = 31 * (q + 2940063177767) + (r + 1)"
    by (simp add: unat_remap q_def [symmetric])
  then have "(unat (remap_application_error c) - 33) mod 31 = (r + 1) mod 31"
    by (simp only: mod_mult_self4)
  also have "\<dots> = r + 1"
    using r by simp
  finally show ?thesis
    by (simp add: is_reserved_def)
qed

lemma remap_strict_mono: "a < b \<Longrightarrow> remap_application_error a < remap_application_error b"
proof -
  assume "a < b"
  then have "unat a < unat b"
    by (simp add: word_less_nat_alt)
  moreover from this have "unat a div 30 \<le> unat b div 30"
    by (intro div_le_mono) simp
  ultimately show ?thesis
    by (simp add: word_less_nat_alt unat_remap)
qed

lemma unmap_remap: "unmap_application_error (remap_application_error c) = Some c"
proof -
  define q r where "q = unat c div 30" and "r = unat c mod 30"
  have c: "unat c = 30 * q + r" and r: "r < 30"
    by (simp_all add: q_def r_def)
  let ?d = "remap_application_error c - WT_APP_ERROR_FIRST"
  have d: "unat ?d = 31 * q + r"
    using remap_range [of c] c r
    by (simp add: unat_sub unat_remap WT_APP_ERROR_FIRST_def q_def [symmetric])
  have qd: "unat (?d div 31) = q" and rd: "unat (?d mod 31) = r"
    using r by (simp_all add: unat_div_distrib unat_mod_distrib d)
  have q: "q < 143165577"
    using unat_u32_less [of c] c by simp
  have n: "unat (?d div 31 * 30 + ?d mod 31) = unat c"
    using q r c by (simp add: unat_word_ariths d)
  have "?d mod 31 \<noteq> 30"
    using rd r by (auto simp: word_unat_eq_iff)
  then show ?thesis
    using remap_range [of c] n unat_u32_less [of c]
    by (simp add: unmap_application_error_def Let_def u32_try_from_def unat_ucast word_unat_eq_iff)
qed

lemma unmap_SomeD:
  assumes "unmap_application_error v = Some c"
  shows "remap_application_error c = v"
proof -
  let ?d = "v - WT_APP_ERROR_FIRST"
  from assms have range: "WT_APP_ERROR_FIRST \<le> v" "v \<le> WT_APP_ERROR_LAST"
    and r: "?d mod 31 \<noteq> 30" and c: "u32_try_from (?d div 31 * 30 + ?d mod 31) = Some c"
    by (auto simp: unmap_application_error_def Let_def split: if_splits)
  have d: "unat ?d = unat v - 0x52e4a40fa8db" "unat ?d \<le> 4438135431"
    using range by (auto simp: unat_sub word_le_nat_alt wt_app_error_bounds)
  define q r where "q = unat ?d div 31" and "r = unat ?d mod 31"
  have "unat (?d mod 31) \<noteq> 30"
    using r by (simp add: word_unat_eq_iff)
  then have r30: "r < 30"
    by (simp add: r_def unat_mod_distrib)
  have q: "q \<le> 143165659"
    using d(2) by (simp add: q_def)
  have "unat (?d div 31 * 30 + ?d mod 31) = q * 30 + r"
    using q r30 by (simp add: unat_word_ariths unat_div_distrib unat_mod_distrib q_def r_def)
  with c have "unat c = q * 30 + r"
    by (auto simp: u32_try_from_def unat_ucast split: if_splits)
  then have "unat (remap_application_error c) = 0x52e4a40fa8db + (31 * q + r)"
    using r30 by (simp add: unat_remap)
  also have "31 * q + r = unat ?d"
    by (simp add: q_def r_def)
  finally show ?thesis
    using d(1) range(1) by (simp add: word_unat_eq_iff word_le_nat_alt WT_APP_ERROR_FIRST_def)
qed

section \<open>Handles\<close>

lemma unat_checked_Suc:
  fixes n :: u32
  assumes "n \<noteq> 0"
  shows "unat (case checked_add_word n 1 of Some m \<Rightarrow> m | None \<Rightarrow> 0)
    = (if unat n = 2 ^ 32 - 1 then 0 else unat n + 1)"
  using unat_u32_less [of n] by (simp add: checked_add_word_def unat_word_ariths)

lemma allocate_exhausted: "next_handle a = 0 \<Longrightarrow> allocations k a = []"
  by (induction k) (simp_all add: allocate_def)

text \<open>The allocator counts up from its next handle and then stops for good.\<close>

lemma allocations_eq:
  assumes "next_handle a \<noteq> 0"
  shows "map unat (allocations k a)
    = [unat (next_handle a)..<unat (next_handle a) + min k (2 ^ 32 - unat (next_handle a))]"
  using assms
proof (induction k arbitrary: a)
  case (Suc k)
  let ?n = "unat (next_handle a)"
  define a' where "a' = fst (allocate a)"
  have alloc: "allocate a = (a', Inr (next_handle a))"
    using Suc.prems by (simp add: a'_def allocate_def Let_def)
  have n': "unat (next_handle a') = (if ?n = 2 ^ 32 - 1 then 0 else ?n + 1)"
    using Suc.prems by (simp add: a'_def allocate_def Let_def unat_checked_Suc)
  have n: "?n < 2 ^ 32"
    using unat_u32_less [of "next_handle a"] by simp
  show ?case
  proof (cases "?n = 2 ^ 32 - 1")
    case True
    then have "next_handle a' = 0"
      using n' by (simp add: unat_eq_zero)
    then have "allocations k a' = []"
      by (rule allocate_exhausted)
    with True alloc show ?thesis
      by simp
  next
    case False
    with n' have ne: "next_handle a' \<noteq> 0"
      by auto
    define m where "m = ?n + min (Suc k) (2 ^ 32 - ?n)"
    have m: "unat (next_handle a') + min k (2 ^ 32 - unat (next_handle a')) = m" "?n < m"
      using n n' False by (auto simp: m_def)
    have "map unat (allocations k a') = [Suc ?n..<m]"
      using Suc.IH [OF ne] n' False unfolding m(1) by simp
    then have "map unat (allocations (Suc k) a) = [?n..<m]"
      using alloc m(2) by (simp add: upt_conv_Cons)
    then show ?thesis
      by (simp only: m_def)
  qed
qed simp

section \<open>Properties\<close>

text \<open>
  The application-error remap and its inverse are exact: a QUIC code unmaps to an application
  code if and only if it is that code's remapped value, so codes outside the range and codes on a
  reserved gap are passed over and nothing else is.
\<close>

theorem unmap_iff_remap:
  "unmap_application_error v = Some c \<longleftrightarrow> v = remap_application_error c"
  using unmap_remap unmap_SomeD by blast

text \<open>
  The remap stays in the WebTransport application-error range, is strictly increasing, never
  lands on a reserved HTTP/3 codepoint, and meets both ends of the range.
\<close>

theorem remap_application_error_image:
  "WT_APP_ERROR_FIRST \<le> remap_application_error c \<and> remap_application_error c \<le> WT_APP_ERROR_LAST
    \<and> \<not> is_reserved (unat (remap_application_error c))
    \<and> (remap_application_error a < remap_application_error b \<longleftrightarrow> a < b)
    \<and> remap_application_error 0 = WT_APP_ERROR_FIRST
    \<and> remap_application_error 0xffffffff = WT_APP_ERROR_LAST"
proof -
  have "remap_application_error a < remap_application_error b \<longleftrightarrow> a < b"
    using remap_strict_mono [of a b] remap_strict_mono [of b a] by (metis less_asym linorder_neqE)
  moreover have "remap_application_error 0 = WT_APP_ERROR_FIRST"
    "remap_application_error 0xffffffff = WT_APP_ERROR_LAST"
    by (simp_all add: remap_application_error_def wt_app_error_bounds Let_def)
  ultimately show ?thesis
    using remap_range remap_not_reserved by blast
qed

text \<open>
  The endpoint handles that a fresh allocator gives out are 1, 2, 3 and so on, each once: it
  never returns 0, never wraps round to a handle in use, and after $2^{32}-1$ handles it only reports
  exhaustion.
\<close>

theorem allocations_fresh:
  "map unat (allocations k handle_allocator_new) = [1..<1 + min k (2 ^ 32 - 1)]"
  using allocations_eq [of handle_allocator_new k] by (simp add: handle_allocator_new_def)

end
