(* ===== verification/Wire_Codec.thy ===== *)
theory Wire_Codec
  imports Wt_Prelude
begin

text \<open>
  The two interfaces that the wire components provide and rely on.

  \<^item> \<open>prefix_codec\<close>: an encoder and a decoder of one self-delimiting item at the front of a
    buffer. QUIC varints and QPACK integers and strings provide it.
  \<^item> \<open>incremental\<close>: one step of a parser over a byte stream that arrives in fragments. Session
    capsules and both QPACK instruction streams provide it. Its lemmas say that the result does
    not depend on how the network cut the stream.
\<close>

section \<open>Self-delimiting items\<close>

locale prefix_codec =
  fixes enc :: "'a \<Rightarrow> bytes"
    and dec :: "bytes \<Rightarrow> ('a \<times> nat) option"
    and ok :: "'a \<Rightarrow> bool"
  assumes dec_enc: "ok x \<Longrightarrow> dec (enc x @ rest) = Some (x, length (enc x))"
    and dec_bound: "dec buf = Some (x, n) \<Longrightarrow> 0 < n \<and> n \<le> length buf"
    and dec_extend: "dec buf = Some (x, n) \<Longrightarrow> dec (buf @ more) = Some (x, n)"
begin

lemma dec_enc_Nil: "ok x \<Longrightarrow> dec (enc x) = Some (x, length (enc x))"
  using dec_enc [of x "[]"] by simp

lemma enc_length_pos: "ok x \<Longrightarrow> 0 < length (enc x)"
  using dec_enc_Nil dec_bound by blast

lemma enc_prefix_free:
  assumes "ok x" and "ok y" and "enc x @ r = enc y @ s"
  shows "x = y \<and> r = s"
proof -
  have "Some (x, length (enc x)) = Some (y, length (enc y))"
    using dec_enc [OF assms(1), of r] dec_enc [OF assms(2), of s] assms(3) by simp
  then show ?thesis
    using assms(3) by simp
qed

lemma dec_proper_prefix:
  assumes "ok x" and "n < length (enc x)"
  shows "dec (take n (enc x)) = None"
proof (rule ccontr)
  assume "dec (take n (enc x)) \<noteq> None"
  then obtain y k where y: "dec (take n (enc x)) = Some (y, k)"
    by auto
  then have "dec (take n (enc x) @ drop n (enc x)) = Some (y, k)"
    by (rule dec_extend)
  then have "k = length (enc x)"
    using dec_enc_Nil [OF assms(1)] by auto
  with dec_bound [OF y] assms(2) show False
    by simp
qed

end

section \<open>Incremental stream parsers\<close>

datatype ('s, 'e) step = Advance 's nat | Wait | Fail 'e

locale incremental =
  fixes step :: "'s \<Rightarrow> bytes \<Rightarrow> ('s, 'e) step"
  assumes advance_bound: "step s buf = Advance s' n \<Longrightarrow> 0 < n \<and> n \<le> length buf"
    and advance_extend: "step s buf = Advance s' n \<Longrightarrow> step s (buf @ more) = Advance s' n"
    and fail_extend: "step s buf = Fail e \<Longrightarrow> step s (buf @ more) = Fail e"
begin

function run :: "'s \<Rightarrow> bytes \<Rightarrow> 's \<times> bytes \<times> 'e option" where
  "run s buf =
     (case step s buf of
        Advance s' n \<Rightarrow> run s' (drop n buf)
      | Wait \<Rightarrow> (s, buf, None)
      | Fail e \<Rightarrow> (s, buf, Some e))"
  by pat_completeness auto
termination
  by (relation "measure (length \<circ> snd)") (use advance_bound in fastforce)+

declare run.simps [simp del]

lemma run_Advance: "step s buf = Advance s' n \<Longrightarrow> run s buf = run s' (drop n buf)"
  by (simp add: run.simps)

lemma run_Wait: "step s buf = Wait \<Longrightarrow> run s buf = (s, buf, None)"
  by (simp add: run.simps)

lemma run_Fail: "step s buf = Fail e \<Longrightarrow> run s buf = (s, buf, Some e)"
  by (simp add: run.simps)

lemma run_append:
  "run s a = (s', r, None) \<Longrightarrow> run s (a @ b) = run s' (r @ b)"
proof (induction s a rule: run.induct)
  case (1 s a)
  show ?case
  proof (cases "step s a")
    case (Advance t n)
    with "1.prems" have "run t (drop n a) = (s', r, None)"
      by (simp add: run_Advance)
    then have "run t (drop n a @ b) = run s' (r @ b)"
      by (rule "1.IH" [OF Advance])
    with advance_bound [OF Advance] show ?thesis
      by (simp add: run_Advance [OF advance_extend [OF Advance, of b]])
  next
    case Wait
    with "1.prems" show ?thesis
      by (simp add: run_Wait)
  next
    case (Fail e)
    with "1.prems" show ?thesis
      by (simp add: run_Fail)
  qed
qed

lemma run_append_fail:
  "run s a = (s', r, Some e) \<Longrightarrow> run s (a @ b) = (s', r @ b, Some e)"
proof (induction s a rule: run.induct)
  case (1 s a)
  show ?case
  proof (cases "step s a")
    case (Advance t n)
    with "1.prems" have "run t (drop n a) = (s', r, Some e)"
      by (simp add: run_Advance)
    then have "run t (drop n a @ b) = (s', r @ b, Some e)"
      by (rule "1.IH" [OF Advance])
    with advance_bound [OF Advance] show ?thesis
      by (simp add: run_Advance [OF advance_extend [OF Advance, of b]])
  next
    case Wait
    with "1.prems" show ?thesis
      by (simp add: run_Wait)
  next
    case (Fail e')
    with "1.prems" show ?thesis
      using run_Fail [OF fail_extend [OF Fail, of b]] run_Fail [OF Fail] by simp
  qed
qed

text \<open>The state and the unread bytes are a suffix: nothing is dropped or read twice.\<close>

lemma run_suffix: "run s a = (s', r, e) \<Longrightarrow> \<exists>n\<le>length a. r = drop n a"
proof (induction s a rule: run.induct)
  case (1 s a)
  show ?case
  proof (cases "step s a")
    case (Advance t n)
    with "1.prems" have "run t (drop n a) = (s', r, e)"
      by (simp add: run_Advance)
    then obtain m where "m \<le> length (drop n a)" "r = drop m (drop n a)"
      using "1.IH" [OF Advance] by blast
    with advance_bound [OF Advance] show ?thesis
      by (intro exI [of _ "m + n"]) auto
  next
    case Wait
    with "1.prems" show ?thesis
      by (intro exI [of _ 0]) (simp add: run_Wait)
  next
    case (Fail e')
    with "1.prems" show ?thesis
      by (intro exI [of _ 0]) (simp add: run_Fail)
  qed
qed

text \<open>A stream delivered as a list of fragments, the unread tail kept between them.\<close>

fun feed :: "'s \<Rightarrow> bytes \<Rightarrow> bytes list \<Rightarrow> 's \<times> bytes \<times> 'e option" where
  "feed s r [] = (s, r, None)"
| "feed s r (c # cs) =
     (case run s (r @ c) of
        (s', r', None) \<Rightarrow> feed s' r' cs
      | (s', r', Some e) \<Rightarrow> (s', r' @ concat cs, Some e))"

lemma run_quiescent: "run s a = (s', r, None) \<Longrightarrow> run s' r = (s', r, None)"
  using run_append [of s a s' r "[]"] by simp

lemma run_stops_waiting: "run s a = (s', r, None) \<Longrightarrow> step s' r = Wait"
proof (induction s a rule: run.induct)
  case (1 s a)
  then show ?case
    by (cases "step s a") (simp_all add: run_Advance run_Wait run_Fail)
qed

theorem feed_eq_run:
  assumes "run s r = (s, r, None)"
  shows "feed s r cs = run s (r @ concat cs)"
  using assms
proof (induction cs arbitrary: s r)
  case (Cons c cs)
  obtain s' r' e where r': "run s (r @ c) = (s', r', e)"
    by (cases "run s (r @ c)") auto
  show ?case
  proof (cases e)
    case None
    with r' have run': "run s (r @ c) = (s', r', None)"
      by simp
    from run_quiescent [OF this] have "feed s' r' cs = run s' (r' @ concat cs)"
      by (rule Cons.IH)
    then show ?thesis
      using run_append [OF run', of "concat cs"] run' by simp
  next
    case (Some e')
    with r' run_append_fail [of s "r @ c" s' r' e' "concat cs"] show ?thesis
      by simp
  qed
qed simp

end

end
