(* ===== verification/Varint.thy ===== *)
theory Varint
  imports Wire_Codec
begin

text \<open>
  QUIC variable-length integers, \<^verbatim>\<open>crates/wasm/src/varint.rs\<close>. Encoding, encoded width and
  decoding of a \<^verbatim>\<open>u64\<close>, at its width. The codec is an instance of \<open>prefix_codec\<close> for the values
  below $2^{62}$; larger values do not fit and \<^verbatim>\<open>encode\<close> silently drops their two top bits.
\<close>

unbundle bit_operations_syntax

section \<open>Definitions\<close>

definition varint_encode :: "u64 \<Rightarrow> bytes \<Rightarrow> bytes" where
  "varint_encode value out =
     (if value < 0x40 then out @ [ucast value]
      else if value < 0x4000 then out @ be_bytes 2 ((ucast value :: u16) OR 0x4000)
      else if value < 0x40000000 then out @ be_bytes 4 ((ucast value :: u32) OR 0x80000000)
      else out @ be_bytes 8 (value OR 0xC000000000000000))"

definition varint_width :: "u64 \<Rightarrow> nat" where
  "varint_width value =
     (if value < 0x40 then 1
      else if value < 0x4000 then 2
      else if value < 0x40000000 then 4
      else 8)"

definition varint_decode :: "bytes \<Rightarrow> (u64 \<times> nat) option" where
  "varint_decode buf =
     (case buf of
        [] \<Rightarrow> None
      | first # _ \<Rightarrow>
          let len = 2 ^ unat (drop_bit 6 first) in
          if length buf < len then None
          else Some (foldl shift_in (ucast (first AND 0x3f)) (drop 1 (take len buf)), len))"

text \<open>The bytes that \<open>varint_encode\<close> appends, and the values that have an encoding.\<close>

definition varint_bytes :: "u64 \<Rightarrow> bytes" where
  "varint_bytes value = varint_encode value []"

definition varint_ok :: "u64 \<Rightarrow> bool" where
  "varint_ok v \<longleftrightarrow> unat v < 2 ^ 62"

section \<open>Encoding\<close>

lemma varint_encode_eq [wire_simps]: "varint_encode v out = out @ varint_bytes v"
  by (simp add: varint_encode_def varint_bytes_def)

lemma length_varint_bytes: "length (varint_bytes v) = varint_width v"
  by (simp add: varint_bytes_def varint_encode_def varint_width_def)

lemma varint_width_range: "varint_width v \<in> {1, 2, 4, 8}"
  by (simp add: varint_width_def)

lemma varint_width_bounds [simp]: "0 < varint_width v" "varint_width v \<le> 8"
  by (simp_all add: varint_width_def)

lemma varint_bytes_not_Nil [simp]: "varint_bytes v \<noteq> []"
  using varint_width_bounds(1) [of v] by (fastforce simp flip: length_varint_bytes)

section \<open>Decoding what was encoded\<close>

lemma varint_decode_be:
  fixes w :: "'a::len word"
  assumes w: "unat w = c * (64 * 256 ^ n) + x" and x: "x < 64 * 256 ^ n"
    and c: "c < 4" "2 ^ c = Suc n"
  shows "varint_decode (be_bytes (Suc n) w @ rest) = Some (word_of_nat x, Suc n)"
proof -
  let ?first = "ucast (drop_bit (8 * n) w) :: byte"
  have n: "n \<le> 7"
    using c by (simp add: less_Suc_eq numeral_eq_Suc) auto
  have div: "unat w div 256 ^ n = c * 64 + x div 256 ^ n"
    by (simp add: w mult.assoc [symmetric])
  have lt: "x div 256 ^ n < 64"
    using x by (simp add: div_less_iff_less_mult mult.commute)
  have first: "unat ?first = c * 64 + x div 256 ^ n"
    using c lt by (simp add: unat_ucast unat_drop_bit power_mult div)
  have len: "2 ^ unat (drop_bit 6 ?first) = Suc n"
    using c lt by (simp add: unat_drop_bit first)
  have top: "unat (ucast (?first AND 0x3f) :: u64) = x div 256 ^ n"
    using lt unat_and_mask [of ?first 6] first by (simp add: mask_eq_exp_minus_1)
  have tail: "drop 1 (take (Suc n) (be_bytes (Suc n) w @ rest)) = be_bytes n w"
    by simp
  have "unat (foldl shift_in (ucast (?first AND 0x3f)) (be_bytes n w))
      = x div 256 ^ n * 256 ^ n + unat w mod 256 ^ n"
    by (subst unat_foldl_shift_in [where k = 6]) (use top lt n in \<open>simp_all add: be_nat_be_bytes\<close>)
  also have "unat w mod 256 ^ n = x mod 256 ^ n"
    by (simp add: w mult.assoc [symmetric])
  also have "x div 256 ^ n * 256 ^ n + x mod 256 ^ n = x"
    by (rule div_mult_mod_eq)
  finally have "foldl shift_in (ucast (?first AND 0x3f)) (be_bytes n w) = word_of_nat x"
    by (metis word_of_nat_unat)
  with len tail show ?thesis
    by (simp add: varint_decode_def Let_def)
qed

lemma unat_or_tag:
  fixes v :: "'a::len word"
  assumes "unat v < 2 ^ n" and "c * 2 ^ n < 2 ^ LENGTH('a)" and "m = word_of_nat (c * 2 ^ n)"
  shows "unat (v OR m) = c * 2 ^ n + unat v"
proof -
  have "m = push_bit n (word_of_nat c)"
    using assms(3) by (simp add: push_bit_eq_mult)
  moreover have "unat m = c * 2 ^ n"
    unfolding assms(3) using assms(2) by (subst unsigned_of_nat) (simp add: take_bit_nat_eq_self)
  ultimately show ?thesis
    using unat_or_push_bit [OF assms(1)] by simp
qed

lemma varint_bytes_cases:
  "v < 0x40 \<Longrightarrow> varint_bytes v = be_bytes (Suc 0) (ucast v :: byte)"
  "0x40 \<le> v \<Longrightarrow> v < 0x4000 \<Longrightarrow> varint_bytes v = be_bytes (Suc 1) ((ucast v :: u16) OR 0x4000)"
  "0x4000 \<le> v \<Longrightarrow> v < 0x40000000 \<Longrightarrow>
     varint_bytes v = be_bytes (Suc 3) ((ucast v :: u32) OR 0x80000000)"
  "0x40000000 \<le> v \<Longrightarrow> varint_bytes v = be_bytes (Suc 7) (v OR 0xC000000000000000)"
proof -
  have 2: "(2::nat) = Suc 1" and 4: "(4::nat) = Suc 3" and 8: "(8::nat) = Suc 7"
    by simp_all
  have order: "(0x40 :: u64) \<le> 0x4000" "(0x4000 :: u64) \<le> 0x40000000"
    by simp_all
  show "v < 0x40 \<Longrightarrow> varint_bytes v = be_bytes (Suc 0) (ucast v :: byte)"
    by (simp add: varint_bytes_def varint_encode_def)
  show "0x40 \<le> v \<Longrightarrow> v < 0x4000 \<Longrightarrow> varint_bytes v = be_bytes (Suc 1) ((ucast v :: u16) OR 0x4000)"
    unfolding varint_bytes_def varint_encode_def 2 by (simp add: not_less [symmetric] del: be_bytes.simps)
  show "varint_bytes v = be_bytes (Suc 3) ((ucast v :: u32) OR 0x80000000)"
    if "0x4000 \<le> v" "v < 0x40000000"
    using that order(1) order.trans [OF order(1) that(1)]
    unfolding varint_bytes_def varint_encode_def 4
    by (simp add: not_less [symmetric] del: be_bytes.simps)
  show "varint_bytes v = be_bytes (Suc 7) (v OR 0xC000000000000000)" if "0x40000000 \<le> v"
    using that order.trans [OF order(2) that] order.trans [OF order(1) order.trans [OF order(2) that]]
    unfolding varint_bytes_def varint_encode_def 8
    by (simp add: not_less [symmetric] del: be_bytes.simps)
qed

lemma varint_decode_encode:
  assumes "varint_ok v"
  shows "varint_decode (varint_bytes v @ rest) = Some (v, length (varint_bytes v))"
proof -
  consider "v < 0x40" | "0x40 \<le> v" "v < 0x4000" | "0x4000 \<le> v" "v < 0x40000000" | "0x40000000 \<le> v"
    by fastforce
  then show ?thesis
  proof cases
    case 1
    then have "unat v < 64"
      by (simp add: word_less_nat_alt)
    then have "varint_decode (be_bytes (Suc 0) (ucast v :: byte) @ rest) = Some (word_of_nat (unat v), Suc 0)"
      by (intro varint_decode_be [where c = 0]) (auto simp: unat_ucast)
    with 1 show ?thesis
      by (simp only: varint_bytes_cases length_be_bytes word_of_nat_unat)
  next
    case 2
    then have v: "unat v < 2 ^ 14"
      by (simp add: word_less_nat_alt)
    then have "unat ((ucast v :: u16) OR 0x4000) = 1 * 2 ^ 14 + unat v"
      by (subst unat_or_tag [where n = 14 and c = 1]) (auto simp: unat_ucast)
    then have "varint_decode (be_bytes (Suc 1) ((ucast v :: u16) OR 0x4000) @ rest)
        = Some (word_of_nat (unat v), Suc 1)"
      using v by (intro varint_decode_be [where c = 1]) auto
    with 2 show ?thesis
      by (simp only: varint_bytes_cases length_be_bytes word_of_nat_unat)
  next
    case 3
    then have v: "unat v < 2 ^ 30"
      by (simp add: word_less_nat_alt)
    then have "unat ((ucast v :: u32) OR 0x80000000) = 2 * 2 ^ 30 + unat v"
      by (subst unat_or_tag [where n = 30 and c = 2]) (auto simp: unat_ucast)
    then have "varint_decode (be_bytes (Suc 3) ((ucast v :: u32) OR 0x80000000) @ rest)
        = Some (word_of_nat (unat v), Suc 3)"
      using v by (intro varint_decode_be [where c = 2]) auto
    with 3 show ?thesis
      by (simp only: varint_bytes_cases length_be_bytes word_of_nat_unat)
  next
    case 4
    from assms have v: "unat v < 2 ^ 62"
      by (simp add: varint_ok_def)
    then have "unat (v OR 0xC000000000000000) = 3 * 2 ^ 62 + unat v"
      by (subst unat_or_tag [where n = 62 and c = 3]) auto
    then have "varint_decode (be_bytes (Suc 7) (v OR 0xC000000000000000) @ rest)
        = Some (word_of_nat (unat v), Suc 7)"
      using v by (intro varint_decode_be [where c = 3]) auto
    with 4 show ?thesis
      by (simp only: varint_bytes_cases length_be_bytes word_of_nat_unat)
  qed
qed

section \<open>Decoding any buffer\<close>

lemma varint_decode_SomeD:
  assumes "varint_decode buf = Some (v, n)"
  shows "\<exists>b. n = 2 ^ b \<and> b < 4 \<and> n \<le> 8 \<and> n \<le> length buf \<and> unat v < 64 * 256 ^ (n - 1)"
proof -
  from assms obtain first rest where buf: "buf = first # rest"
    by (auto simp: varint_decode_def split: list.splits)
  define b where "b = unat (drop_bit 6 first)"
  have b: "b < 4"
    using unat_byte_less [of first] by (simp add: b_def unat_drop_bit)
  then have "(2::nat) ^ b \<le> 2 ^ 3"
    by (intro power_increasing) auto
  then have n8: "(2::nat) ^ b \<le> 8"
    by simp
  have n: "n = 2 ^ b" "n \<le> length buf"
    and v: "v = foldl shift_in (ucast (first AND 0x3f)) (drop 1 (take n buf))"
    using assms by (auto simp: varint_decode_def buf b_def Let_def split: if_splits)
  have top: "unat (ucast (first AND 0x3f) :: u64) < 2 ^ 6"
    using unat_and_mask [of first 6] by (simp add: mask_eq_exp_minus_1)
  have len: "length (drop 1 (take n buf)) = n - 1"
    using n(2) by simp
  have "unat v = unat (ucast (first AND 0x3f) :: u64) * 256 ^ (n - 1) + be_nat (drop 1 (take n buf))"
    using top n8 n(1) len unfolding v
    by (subst unat_foldl_shift_in [where k = 6]) auto
  also have "\<dots> < unat (ucast (first AND 0x3f) :: u64) * 256 ^ (n - 1) + 256 ^ (n - 1)"
    using be_nat_less [of "drop 1 (take n buf)"] len by simp
  also have "\<dots> = (unat (ucast (first AND 0x3f) :: u64) + 1) * 256 ^ (n - 1)"
    by simp
  also have "\<dots> \<le> 64 * 256 ^ (n - 1)"
    using top by (intro mult_right_mono) auto
  finally show ?thesis
    using b n n8 by blast
qed

lemma varint_decode_bound:
  assumes "varint_decode buf = Some (v, n)"
  shows "0 < n \<and> n \<le> length buf"
  using varint_decode_SomeD [OF assms] by auto

lemma varint_decode_None_short: "varint_decode buf = None \<Longrightarrow> length buf < 8"
proof (cases buf)
  case (Cons first rest)
  assume "varint_decode buf = None"
  moreover have "unat (drop_bit 6 first) \<le> 3"
    using unat_byte_less [of first] by (simp add: unat_drop_bit)
  then have "(2::nat) ^ unat (drop_bit 6 first) \<le> 2 ^ 3"
    by (intro power_increasing) auto
  ultimately show ?thesis
    using Cons by (simp add: varint_decode_def Let_def split: if_splits)
qed simp

lemma unat_length_u64:
  assumes "length xs < 2 ^ 64"
  shows "unat (of_nat (length xs) :: u64) = length xs"
  using assms by (subst unsigned_of_nat) (simp add: take_bit_nat_eq_self)

lemma varint_decode_le_8:
  assumes "varint_decode buf = Some (v, n)"
  shows "n \<le> 8"
  using varint_decode_SomeD [OF assms] by blast

lemma varint_decode_ok:
  assumes "varint_decode buf = Some (v, n)"
  shows "varint_ok v"
proof -
  have "(256::nat) ^ (n - 1) \<le> 256 ^ 7"
    using varint_decode_le_8 [OF assms] by (intro power_increasing) auto
  then show ?thesis
    using varint_decode_SomeD [OF assms] by (auto simp: varint_ok_def)
qed

lemma varint_decode_extend:
  assumes "varint_decode buf = Some (v, n)"
  shows "varint_decode (buf @ more) = Some (v, n)"
proof (cases buf)
  case Nil
  with assms show ?thesis
    by (simp add: varint_decode_def)
next
  case (Cons first rest)
  define len :: nat where "len = 2 ^ unat (drop_bit 6 first)"
  with assms Cons have "len \<le> length buf"
    by (auto simp: varint_decode_def Let_def split: if_splits)
  then have "take len (buf @ more) = take len buf"
    by simp
  with assms Cons show ?thesis
    by (auto simp: varint_decode_def Let_def len_def split: if_splits)
qed

interpretation varint: prefix_codec varint_bytes varint_decode varint_ok
proof
  show "varint_decode (varint_bytes x @ rest) = Some (x, length (varint_bytes x))"
    if "varint_ok x" for x rest
    using that by (rule varint_decode_encode)
qed (use varint_decode_bound varint_decode_extend in blast)+

text \<open>The encoder chooses the shortest of the forms that the decoder accepts for a value.\<close>

lemma varint_width_minimal:
  assumes "varint_decode buf = Some (v, n)"
  shows "varint_width v \<le> n"
proof -
  obtain b where b: "n = 2 ^ b" "b < 4" "unat v < 64 * 256 ^ (n - 1)"
    using varint_decode_SomeD [OF assms] by blast
  then have "b = 0 \<or> b = 1 \<or> b = 2 \<or> b = 3"
    by arith
  then consider "n = 1" "unat v < 64" | "n = 2" "unat v < 16384" | "n = 4" "unat v < 1073741824" | "n = 8"
    using b by fastforce
  then show ?thesis
    by cases (auto simp: varint_width_def word_less_nat_alt)
qed

section \<open>Properties\<close>

text \<open>
  C18. Round trip of QUIC varints. What \<^verbatim>\<open>varint::encode\<close> appends for a value below $2^{62}$ decodes,
  in front of any further bytes, to that value and to the number of bytes that \<^verbatim>\<open>varint::width\<close>
  predicts; the bytes already in the output are kept, and no proper prefix of what was appended decodes.
\<close>

theorem varint_roundtrip:
  assumes "unat v < 2 ^ 62"
  shows "take (length out) (varint_encode v out) = out
    \<and> varint_decode (drop (length out) (varint_encode v out) @ rest) = Some (v, varint_width v)
    \<and> length (varint_encode v out) = length out + varint_width v
    \<and> (\<forall>k<varint_width v. varint_decode (take k (drop (length out) (varint_encode v out))) = None)"
  using varint_decode_encode [of v rest] varint.dec_proper_prefix [of v] assms
  by (simp add: varint_encode_eq varint_ok_def length_varint_bytes)

theorem varint_roundtrip_witness:
  "varint_decode (drop 1 (varint_encode 0x4000 [7]) @ [9]) = Some (0x4000, varint_width 0x4000)
    \<and> varint_decode (take 3 (drop 1 (varint_encode 0x4000 [7]))) = None
    \<and> varint_encode 0x4000 [7] = [7, 0x80, 0, 0x40, 0]"
proof (intro conjI)
  show "varint_decode (drop 1 (varint_encode 0x4000 [7]) @ [9]) = Some (0x4000, varint_width 0x4000)"
    using varint_roundtrip [of "0x4000" "[7]" "[9]"] by simp
  have "3 < varint_width 0x4000"
    by code_simp
  then show "varint_decode (take 3 (drop 1 (varint_encode 0x4000 [7]))) = None"
    using varint_roundtrip [of "0x4000" "[7]" "[9]"] by simp
  show "varint_encode 0x4000 [7] = [7, 0x80, 0, 0x40, 0]"
    by code_simp
qed

text \<open>
  Whatever bytes arrive, a successful \<^verbatim>\<open>varint::decode\<close> consumes 1, 2, 4 or 8 bytes that are
  in the buffer, yields a value below $2^{62}$, gives the same result when more bytes follow, and
  no accepted encoding of the value is shorter than what \<^verbatim>\<open>encode\<close> produces.
\<close>

theorem varint_decode_sound:
  assumes "varint_decode buf = Some (v, n)"
  shows "n \<in> {1, 2, 4, 8} \<and> n \<le> length buf \<and> unat v < 2 ^ 62
    \<and> varint_decode (buf @ more) = Some (v, n) \<and> length (varint_encode v []) \<le> n"
proof -
  obtain b where b: "n = 2 ^ b" "b < 4" "n \<le> length buf"
    using varint_decode_SomeD [OF assms] by blast
  then have "b = 0 \<or> b = 1 \<or> b = 2 \<or> b = 3"
    by arith
  with b have "n \<in> {1, 2, 4, 8}"
    by auto
  with b varint_decode_ok [OF assms] varint_decode_extend [OF assms] varint_width_minimal [OF assms]
  show ?thesis
    by (simp add: varint_ok_def varint_encode_eq length_varint_bytes)
qed

theorem varint_decode_sound_witness:
  "varint_decode [0x40, 5] = Some (5, 2) \<and> varint_decode ([0x40, 5] @ [1]) = Some (5, 2)
    \<and> length (varint_encode 5 []) \<le> 2"
proof -
  have "varint_decode [0x40, 5] = Some (5, 2)"
    by code_simp
  with varint_decode_sound [OF this, of "[1]"] show ?thesis
    by simp
qed

end
