(* ===== verification/Capsule.thy ===== *)
theory Capsule
  imports Varint
begin

text \<open>
  Session capsules, \<^verbatim>\<open>crates/wasm/src/capsule.rs\<close>: encoding and parsing of \<^verbatim>\<open>WT_CLOSE_SESSION\<close> and
  \<^verbatim>\<open>WT_DRAIN_SESSION\<close>, the assembler that reassembles capsules cut across DATA frames, and the loop
  of \<^verbatim>\<open>feed_session_capsules\<close> (\<^verbatim>\<open>endpoint.rs\<close>) that acts on them. A reason is the list of its bytes.
\<close>

unbundle bit_operations_syntax

section \<open>Definitions\<close>

definition CAPSULE_CLOSE_WT_SESSION :: u64 where
  "CAPSULE_CLOSE_WT_SESSION = 0x2843"

definition CAPSULE_DRAIN_WT_SESSION :: u64 where
  "CAPSULE_DRAIN_WT_SESSION = 0x78ae"

definition MAX_REASON_LEN :: nat where
  "MAX_REASON_LEN = 1024"

definition H3_DATA_FRAME :: u64 where
  "H3_DATA_FRAME = 0x00"

definition MAX_CAPSULE_VALUE_LEN :: u64 where
  "MAX_CAPSULE_VALUE_LEN = of_nat (4 + MAX_REASON_LEN)"

datatype capsule = Close u32 bytes | Drain

datatype capsule_error = CloseLength | CloseUtf8 | TooLarge

fun reason_boundary :: "bytes \<Rightarrow> nat \<Rightarrow> nat" where
  "reason_boundary reason 0 = 0"
| "reason_boundary reason (Suc e) =
     (if reason ! Suc e AND 0xC0 = 0x80 then reason_boundary reason e else Suc e)"

definition truncate_reason :: "bytes \<Rightarrow> bytes" where
  "truncate_reason reason =
     (if length reason \<le> MAX_REASON_LEN then reason
      else take (reason_boundary reason MAX_REASON_LEN) reason)"

definition encode_capsule :: "u64 \<Rightarrow> bytes \<Rightarrow> bytes" where
  "encode_capsule kind value =
     varint_encode (of_nat (length value)) (varint_encode kind []) @ value"

definition encode_close :: "u32 \<Rightarrow> bytes \<Rightarrow> bytes" where
  "encode_close code reason =
     encode_capsule CAPSULE_CLOSE_WT_SESSION (be_bytes 4 code @ truncate_reason reason)"

definition encode_drain :: bytes where
  "encode_drain = encode_capsule CAPSULE_DRAIN_WT_SESSION []"

definition into_data_frame :: "bytes \<Rightarrow> bytes" where
  "into_data_frame capsule =
     varint_encode (of_nat (length capsule)) (varint_encode H3_DATA_FRAME []) @ capsule"

definition close_data_frame :: "u32 \<Rightarrow> bytes \<Rightarrow> bytes" where
  "close_data_frame code reason = into_data_frame (encode_close code reason)"

definition drain_data_frame :: bytes where
  "drain_data_frame = into_data_frame encode_drain"

datatype capsule_parse =
  Parsed capsule nat
| Skipped nat
| Incomplete
| Error capsule_error

definition parse_close_value :: "bytes \<Rightarrow> capsule_error + capsule" where
  "parse_close_value value =
     (if length value < 4 \<or> length value > 4 + MAX_REASON_LEN then Inl CloseLength
      else
        let code = word_of_nat (be_nat (take 4 value)) in
        case from_utf8 (drop 4 value) of
          None \<Rightarrow> Inl CloseUtf8
        | Some reason \<Rightarrow> Inr (Close code reason))"

definition capsule_of_value :: "u64 \<Rightarrow> bytes \<Rightarrow> nat \<Rightarrow> capsule_parse" where
  "capsule_of_value kind value tot =
     (if kind = CAPSULE_CLOSE_WT_SESSION then
        (case parse_close_value value of
           Inr capsule \<Rightarrow> Parsed capsule tot
         | Inl e \<Rightarrow> Error e)
      else if kind = CAPSULE_DRAIN_WT_SESSION then Parsed Drain tot
      else Skipped tot)"

definition parse_capsule :: "bytes \<Rightarrow> capsule_parse" where
  "parse_capsule buf =
     (case varint_decode buf of
        None \<Rightarrow> Incomplete
      | Some (kind, n1) \<Rightarrow>
          case varint_decode (drop n1 buf) of
            None \<Rightarrow> Incomplete
          | Some (len, n2) \<Rightarrow>
              if len > MAX_CAPSULE_VALUE_LEN then Error TooLarge
              else
                let header = n1 + n2; tot = header + unat len in
                if length buf < tot then Incomplete
                else capsule_of_value kind (drop header (take tot buf)) tot)"

record capsule_assembler =
  cap_buf :: bytes

definition assembler_new :: capsule_assembler where
  "assembler_new = \<lparr>cap_buf = []\<rparr>"

definition assembler_push :: "capsule_assembler \<Rightarrow> bytes \<Rightarrow> capsule_assembler" where
  "assembler_push a data = a\<lparr>cap_buf := cap_buf a @ data\<rparr>"

lemma parse_capsule_bound:
  assumes "parse_capsule buf = Parsed c n \<or> parse_capsule buf = Skipped n"
  shows "0 < n \<and> n \<le> length buf"
  using assms varint_decode_bound [of buf]
  by (auto simp: parse_capsule_def capsule_of_value_def Let_def
      split: option.splits if_splits sum.splits)

function assembler_next :: "capsule_assembler \<Rightarrow> capsule_assembler \<times> (capsule_error + capsule option)" where
  "assembler_next a =
     (case parse_capsule (cap_buf a) of
        Parsed capsule consumed \<Rightarrow> (a\<lparr>cap_buf := drop consumed (cap_buf a)\<rparr>, Inr (Some capsule))
      | Skipped consumed \<Rightarrow> assembler_next (a\<lparr>cap_buf := drop consumed (cap_buf a)\<rparr>)
      | Incomplete \<Rightarrow> (a, Inr None)
      | Error e \<Rightarrow> (a, Inl e))"
  by pat_completeness auto
termination
  by (relation "measure (length \<circ> cap_buf)") (use parse_capsule_bound in fastforce)+

declare assembler_next.simps [simp del]

lemma assembler_next_shorter:
  "assembler_next a = (a', Inr (Some c)) \<Longrightarrow> length (cap_buf a') < length (cap_buf a)"
proof (induction a rule: assembler_next.induct)
  case (1 a)
  show ?case
  proof (cases "parse_capsule (cap_buf a)")
    case (Skipped n)
    with "1.prems" have "length (cap_buf a') < length (drop n (cap_buf a))"
      using "1.IH" [OF Skipped] by (simp add: assembler_next.simps [of a])
    then show ?thesis by simp
  qed (use "1.prems" parse_capsule_bound in \<open>fastforce simp: assembler_next.simps [of a]\<close>)+
qed

text \<open>
  What the endpoint does with a session's capsules: it reports draining, or ends the session with
  the peer's code and reason, or ends it with \<^verbatim>\<open>H3_MESSAGE_ERROR\<close> after a malformed capsule. Ending
  the session removes its assembler; a later payload starts a new one.
\<close>

datatype capsule_action = Session_Draining | Session_Ended u32 bytes | Session_Malformed

function capsule_loop :: "capsule_assembler \<Rightarrow> capsule_action list \<times> capsule_assembler option" where
  "capsule_loop a =
     (case assembler_next a of
        (a', Inr (Some (Close code reason))) \<Rightarrow> ([Session_Ended code reason], None)
      | (a', Inr (Some Drain)) \<Rightarrow> (let (acts, s) = capsule_loop a' in (Session_Draining # acts, s))
      | (a', Inr None) \<Rightarrow> ([], Some a')
      | (a', Inl _) \<Rightarrow> ([Session_Malformed], None))"
  by pat_completeness auto
termination
  by (relation "measure (length \<circ> cap_buf)") (auto dest: assembler_next_shorter [OF sym])

declare capsule_loop.simps [simp del]

definition feed_session_capsules ::
    "capsule_assembler option \<Rightarrow> bytes \<Rightarrow> capsule_action list \<times> capsule_assembler option" where
  "feed_session_capsules slot payload =
     capsule_loop (assembler_push (case slot of Some a \<Rightarrow> a | None \<Rightarrow> assembler_new) payload)"

section \<open>Parsing\<close>

lemmas capsule_consts = CAPSULE_CLOSE_WT_SESSION_def CAPSULE_DRAIN_WT_SESSION_def
  MAX_CAPSULE_VALUE_LEN_def MAX_REASON_LEN_def H3_DATA_FRAME_def

lemma capsule_of_value_complete: "capsule_of_value kind value tot \<noteq> Incomplete"
  by (simp add: capsule_of_value_def split: sum.splits)

lemma parse_capsule_eq:
  assumes "varint_decode buf = Some (kind, n1)" and "varint_decode (drop n1 buf) = Some (len, n2)"
  shows "parse_capsule buf =
    (if len > MAX_CAPSULE_VALUE_LEN then Error TooLarge
     else if length buf < n1 + n2 + unat len then Incomplete
     else capsule_of_value kind (drop (n1 + n2) (take (n1 + n2 + unat len) buf)) (n1 + n2 + unat len))"
  by (simp add: parse_capsule_def assms Let_def)

lemma parse_capsule_extend:
  assumes "parse_capsule buf \<noteq> Incomplete"
  shows "parse_capsule (buf @ suf) = parse_capsule buf"
proof -
  from assms obtain kind n1 where d1: "varint_decode buf = Some (kind, n1)"
    by (auto simp: parse_capsule_def split: option.splits)
  with assms obtain len n2 where d2: "varint_decode (drop n1 buf) = Some (len, n2)"
    by (auto simp: parse_capsule_def split: option.splits)
  have e1: "varint_decode (buf @ suf) = Some (kind, n1)"
    using d1 by (rule varint_decode_extend)
  have "drop n1 (buf @ suf) = drop n1 buf @ suf"
    using varint_decode_bound [OF d1] by simp
  then have e2: "varint_decode (drop n1 (buf @ suf)) = Some (len, n2)"
    using varint_decode_extend [OF d2] by simp
  show ?thesis
    using assms unfolding parse_capsule_eq [OF d1 d2] parse_capsule_eq [OF e1 e2]
    by (auto simp: not_less split: if_splits)
qed

lemma parse_encode_capsule:
  assumes "varint_ok kind" and "length value \<le> 4 + MAX_REASON_LEN"
  shows "parse_capsule (encode_capsule kind value @ rest)
    = capsule_of_value kind value (length (encode_capsule kind value))"
proof -
  let ?len = "of_nat (length value) :: u64"
  have len: "unat ?len = length value"
    using assms(2) by (intro unat_length_u64) (simp add: MAX_REASON_LEN_def)
  then have ok: "varint_ok ?len" and small: "\<not> ?len > MAX_CAPSULE_VALUE_LEN"
    using assms(2) by (auto simp: varint_ok_def word_less_nat_alt capsule_consts)
  have enc: "encode_capsule kind value @ rest = varint_bytes kind @ varint_bytes ?len @ value @ rest"
    and tot: "length (encode_capsule kind value)
      = length (varint_bytes kind) + length (varint_bytes ?len) + length value"
    by (simp_all add: encode_capsule_def wire_simps)
  have 1: "varint_decode (encode_capsule kind value @ rest) = Some (kind, length (varint_bytes kind))"
    unfolding enc by (rule varint.dec_enc [OF assms(1)])
  have "drop (length (varint_bytes kind)) (encode_capsule kind value @ rest)
      = varint_bytes ?len @ value @ rest"
    by (simp add: enc)
  then have 2: "varint_decode (drop (length (varint_bytes kind)) (encode_capsule kind value @ rest))
      = Some (?len, length (varint_bytes ?len))"
    by (simp only: varint.dec_enc [OF ok])
  show ?thesis
    unfolding parse_capsule_eq [OF 1 2] tot using small len by (simp add: enc)
qed

lemma truncate_reason_length: "length (truncate_reason reason) \<le> MAX_REASON_LEN"
proof -
  have "reason_boundary reason e \<le> e" for e
    by (induction e) auto
  then show ?thesis
    by (simp add: truncate_reason_def min.coboundedI2)
qed

lemma reason_boundary_max:
  assumes "reason_boundary reason e < k" and "k \<le> e"
  shows "utf8_cont (reason ! k)"
  using assms by (induction e) (auto simp: utf8_cont_iff le_Suc_eq split: if_splits)

lemma reason_boundary_start:
  "reason_boundary reason e = 0 \<or> \<not> utf8_cont (reason ! reason_boundary reason e)"
  by (induction e) (auto simp: utf8_cont_iff)

lemma valid_truncate_reason:
  assumes "valid_utf8 reason"
  shows "valid_utf8 (truncate_reason reason)"
proof (cases "length reason \<le> MAX_REASON_LEN")
  case False
  let ?e = "reason_boundary reason MAX_REASON_LEN"
  from False have "?e < length reason"
    using truncate_reason_length [of reason] by (simp add: truncate_reason_def min_def split: if_splits)
  then have "valid_utf8 (take ?e reason)"
    using valid_utf8_take_iff [OF assms, of ?e] reason_boundary_start [of reason MAX_REASON_LEN] by auto
  with False show ?thesis
    by (simp add: truncate_reason_def)
qed (use assms in \<open>simp add: truncate_reason_def\<close>)

lemma truncate_reason_longest:
  assumes "valid_utf8 reason" and "valid_utf8 (take k reason)" and "k \<le> MAX_REASON_LEN" and "k \<le> length reason"
  shows "k \<le> length (truncate_reason reason)"
proof (cases "length reason \<le> MAX_REASON_LEN")
  case False
  then have k: "k < length reason"
    using assms(3) by simp
  then have "\<not> utf8_cont (reason ! k)"
    using valid_utf8_take_iff [OF assms(1), of k] assms(2) by simp
  then have "k \<le> reason_boundary reason MAX_REASON_LEN"
    using reason_boundary_max [of reason MAX_REASON_LEN k] assms(3) by force
  with False k show ?thesis
    by (simp add: truncate_reason_def)
qed (use assms in \<open>simp add: truncate_reason_def\<close>)

lemma from_be_bytes_4: "word_of_nat (be_nat (be_bytes 4 (code :: u32))) = code"
proof -
  have "unat code < 256 ^ 4"
    using unsigned_less [of code, where ?'a = nat] by simp
  then show ?thesis
    by (simp add: be_nat_be_bytes)
qed

lemma parse_close_value_encode:
  assumes "valid_utf8 reason" and "length reason \<le> MAX_REASON_LEN"
  shows "parse_close_value (be_bytes 4 code @ reason) = Inr (Close code reason)"
  using assms by (simp add: parse_close_value_def from_be_bytes_4 from_utf8_def)

lemma parse_encode_close:
  assumes "valid_utf8 reason"
  shows "parse_capsule (encode_close code reason @ rest)
    = Parsed (Close code (truncate_reason reason)) (length (encode_close code reason))"
proof -
  have "varint_ok CAPSULE_CLOSE_WT_SESSION"
    by (simp add: varint_ok_def capsule_consts)
  moreover have "length (be_bytes 4 code @ truncate_reason reason) \<le> 4 + MAX_REASON_LEN"
    using truncate_reason_length by simp
  ultimately show ?thesis
    unfolding encode_close_def
    by (simp add: parse_encode_capsule capsule_of_value_def parse_close_value_encode valid_truncate_reason
        truncate_reason_length assms)
qed

lemma parse_encode_drain:
  "parse_capsule (encode_drain @ rest) = Parsed Drain (length encode_drain)"
  unfolding encode_drain_def
  by (subst parse_encode_capsule) (simp_all add: varint_ok_def capsule_of_value_def capsule_consts)

section \<open>The capsule stream as an incremental parser\<close>

text \<open>
  The state is the list of actions taken so far; a capsule that ends the session, and a malformed
  one, stop the parser with their action.
\<close>

definition capsule_step :: "capsule_action list \<Rightarrow> bytes \<Rightarrow> (capsule_action list, capsule_action) step" where
  "capsule_step acts buf =
     (case parse_capsule buf of
        Parsed Drain n \<Rightarrow> Advance (acts @ [Session_Draining]) n
      | Parsed (Close code reason) _ \<Rightarrow> Fail (Session_Ended code reason)
      | Skipped n \<Rightarrow> Advance acts n
      | Incomplete \<Rightarrow> Wait
      | Error _ \<Rightarrow> Fail Session_Malformed)"

interpretation capsules: incremental capsule_step
proof
  fix acts :: "capsule_action list" and buf suf :: bytes and acts' n
  assume adv: "capsule_step acts buf = Advance acts' n"
  then show "0 < n \<and> n \<le> length buf"
    using parse_capsule_bound [of buf]
    by (auto simp: capsule_step_def split: capsule_parse.splits capsule.splits)
  from adv have "parse_capsule buf \<noteq> Incomplete"
    by (auto simp: capsule_step_def)
  with adv show "capsule_step acts (buf @ suf) = Advance acts' n"
    by (simp add: capsule_step_def parse_capsule_extend)
next
  fix acts :: "capsule_action list" and buf suf :: bytes and e
  assume fail: "capsule_step acts buf = Fail e"
  then have "parse_capsule buf \<noteq> Incomplete"
    by (auto simp: capsule_step_def)
  with fail show "capsule_step acts (buf @ suf) = Fail e"
    by (simp add: capsule_step_def parse_capsule_extend)
qed

text \<open>The endpoint's loop over the assembler computes the run of that parser.\<close>

fun loop_result ::
    "capsule_action list \<times> bytes \<times> capsule_action option \<Rightarrow> capsule_action list \<times> capsule_assembler option" where
  "loop_result (acts, rest, None) = (acts, Some \<lparr>cap_buf = rest\<rparr>)"
| "loop_result (acts, rest, Some t) = (acts @ [t], None)"

lemma capsule_loop_Skipped:
  "parse_capsule buf = Skipped n \<Longrightarrow>
     capsule_loop \<lparr>cap_buf = buf\<rparr> = capsule_loop \<lparr>cap_buf = drop n buf\<rparr>"
  by (simp add: capsule_loop.simps [of "\<lparr>cap_buf = buf\<rparr>"]
      capsule_loop.simps [of "\<lparr>cap_buf = drop n buf\<rparr>"] assembler_next.simps [of "\<lparr>cap_buf = buf\<rparr>"])

lemma capsule_loop_Close:
  "assembler_next a = (a', Inr (Some (Close code reason))) \<Longrightarrow>
     capsule_loop a = ([Session_Ended code reason], None)"
  by (subst capsule_loop.simps) simp

lemma capsule_loop_Drain:
  "assembler_next a = (a', Inr (Some Drain)) \<Longrightarrow>
     capsule_loop a = (Session_Draining # fst (capsule_loop a'), snd (capsule_loop a'))"
  by (subst capsule_loop.simps) (simp add: split_beta)

lemma capsule_loop_None: "assembler_next a = (a', Inr None) \<Longrightarrow> capsule_loop a = ([], Some a')"
  by (subst capsule_loop.simps) simp

lemma capsule_loop_Inl: "assembler_next a = (a', Inl e) \<Longrightarrow> capsule_loop a = ([Session_Malformed], None)"
  by (subst capsule_loop.simps) simp

lemma capsule_loop_run:
  "loop_result (capsules.run acts buf) =
    (acts @ fst (capsule_loop \<lparr>cap_buf = buf\<rparr>), snd (capsule_loop \<lparr>cap_buf = buf\<rparr>))"
proof (induction acts buf rule: capsules.run.induct)
  case (1 acts buf)
  let ?a = "\<lparr>cap_buf = buf\<rparr>"
  show ?case
  proof (cases "parse_capsule buf")
    case (Parsed c n)
    then have nxt: "assembler_next ?a = (\<lparr>cap_buf = drop n buf\<rparr>, Inr (Some c))"
      by (simp add: assembler_next.simps [of ?a])
    show ?thesis
    proof (cases c)
      case (Close code reason)
      with Parsed have "capsule_step acts buf = Fail (Session_Ended code reason)"
        by (simp add: capsule_step_def)
      with nxt Close show ?thesis
        by (simp add: capsules.run_Fail capsule_loop_Close)
    next
      case Drain
      with Parsed have step: "capsule_step acts buf = Advance (acts @ [Session_Draining]) n"
        by (simp add: capsule_step_def)
      from "1.IH" [OF step] nxt Drain show ?thesis
        by (simp add: capsules.run_Advance [OF step] capsule_loop_Drain)
    qed
  next
    case (Skipped n)
    then have step: "capsule_step acts buf = Advance acts n"
      by (simp add: capsule_step_def)
    from "1.IH" [OF step] show ?thesis
      by (simp add: capsules.run_Advance [OF step] capsule_loop_Skipped [OF Skipped])
  next
    case Incomplete
    then have "capsule_step acts buf = Wait" and "assembler_next ?a = (?a, Inr None)"
      by (simp_all add: capsule_step_def assembler_next.simps [of ?a])
    then show ?thesis
      by (simp add: capsules.run_Wait capsule_loop_None)
  next
    case (Error e)
    then have "capsule_step acts buf = Fail Session_Malformed" and "assembler_next ?a = (?a, Inl e)"
      by (simp_all add: capsule_step_def assembler_next.simps [of ?a])
    then show ?thesis
      by (simp add: capsules.run_Fail capsule_loop_Inl)
  qed
qed

lemma capsule_loop_eq: "capsule_loop \<lparr>cap_buf = buf\<rparr> = loop_result (capsules.run [] buf)"
  using capsule_loop_run [of "[]" buf] by simp

lemma capsule_loop_append:
  "capsule_loop \<lparr>cap_buf = p @ q\<rparr> =
    (case capsule_loop \<lparr>cap_buf = p\<rparr> of
       (acts, Some a) \<Rightarrow> (let (acts', s) = capsule_loop (assembler_push a q) in (acts @ acts', s))
     | (acts, None) \<Rightarrow> (acts, None))"
proof -
  obtain acts rest e where run: "capsules.run [] p = (acts, rest, e)"
    by (cases "capsules.run [] p") auto
  show ?thesis
  proof (cases e)
    case None
    with run have "capsules.run [] (p @ q) = capsules.run acts (rest @ q)"
      by (intro capsules.run_append) simp
    with None run capsule_loop_run [of acts "rest @ q"] show ?thesis
      by (simp add: capsule_loop_eq [of p] capsule_loop_eq [of "p @ q"] assembler_push_def split_beta)
  next
    case (Some t)
    with run have "capsules.run [] (p @ q) = (acts, rest @ q, Some t)"
      by (intro capsules.run_append_fail) simp
    with Some run show ?thesis
      by (simp add: capsule_loop_eq)
  qed
qed

lemma feed_session_capsules_append:
  "feed_session_capsules slot (p @ q) =
    (case feed_session_capsules slot p of
       (acts, Some a) \<Rightarrow> (let (acts', s) = feed_session_capsules (Some a) q in (acts @ acts', s))
     | (acts, None) \<Rightarrow> (acts, None))"
proof -
  define buf where "buf = (case slot of Some a \<Rightarrow> cap_buf a | None \<Rightarrow> [])"
  have "feed_session_capsules slot d = capsule_loop \<lparr>cap_buf = buf @ d\<rparr>" for d
    by (cases slot) (auto simp: feed_session_capsules_def assembler_push_def assembler_new_def buf_def
        intro!: arg_cong [where f = capsule_loop] capsule_assembler.equality)
  then show ?thesis
    using capsule_loop_append [of "buf @ p" q]
    by (simp add: feed_session_capsules_def [of "Some _"] split: prod.split option.split)
qed

text \<open>While the session goes on, draining is all that is reported.\<close>

lemma capsule_loop_draining: "capsule_loop a = (acts, Some a') \<Longrightarrow> set acts \<subseteq> {Session_Draining}"
proof (induction a arbitrary: acts rule: capsule_loop.induct)
  case (1 a)
  from "1.prems" consider "acts = []"
    | a1 acts' where "assembler_next a = (a1, Inr (Some Drain))" "capsule_loop a1 = (acts', Some a')"
        "acts = Session_Draining # acts'"
    by (auto simp: capsule_loop.simps [of a] split: prod.splits sum.splits option.splits capsule.splits)
  then show ?case
    using "1.IH" by cases auto
qed

lemma feed_draining: "feed_session_capsules slot payload = (acts, Some a) \<Longrightarrow> set acts \<subseteq> {Session_Draining}"
  unfolding feed_session_capsules_def by (rule capsule_loop_draining)

lemma feed_again:
  assumes "feed_session_capsules slot p = (acts, Some a)"
  shows "feed_session_capsules (Some a) [] = ([], Some a)"
  using feed_session_capsules_append [of slot p "[]"] assms by (auto split: prod.splits)

text \<open>What is kept between payloads is an incomplete capsule, and those are short.\<close>

lemma capsule_loop_waits:
  assumes "capsule_loop \<lparr>cap_buf = buf\<rparr> = (acts, Some a)"
  shows "parse_capsule (cap_buf a) = Incomplete"
proof -
  obtain acts' rest e where run: "capsules.run [] buf = (acts', rest, e)"
    by (cases "capsules.run [] buf") auto
  with assms have e: "e = None" and a: "a = \<lparr>cap_buf = rest\<rparr>"
    by (cases e; simp add: capsule_loop_eq)+
  have "capsule_step acts' rest = Wait"
    using capsules.run_stops_waiting run e by blast
  with a show ?thesis
    by (auto simp: capsule_step_def split: capsule_parse.splits capsule.splits)
qed

lemma incomplete_capsule_short:
  assumes "parse_capsule buf = Incomplete"
  shows "length buf < 16 + 4 + MAX_REASON_LEN"
proof (cases "varint_decode buf")
  case None
  then show ?thesis
    using varint_decode_None_short [of buf] by simp
next
  case (Some kn)
  then obtain kind n1 where d1: "varint_decode buf = Some (kind, n1)"
    by (cases kn) auto
  have n1: "n1 \<le> 8"
    using varint_decode_le_8 [OF d1] .
  show ?thesis
  proof (cases "varint_decode (drop n1 buf)")
    case None
    with varint_decode_None_short [of "drop n1 buf"] n1 show ?thesis
      by simp
  next
    case (Some ln)
    then obtain len n2 where d2: "varint_decode (drop n1 buf) = Some (len, n2)"
      by (cases ln) auto
    have n2: "n2 \<le> 8"
      using varint_decode_le_8 [OF d2] .
    have "\<not> MAX_CAPSULE_VALUE_LEN < len" and "length buf < n1 + n2 + unat len"
      using assms capsule_of_value_complete unfolding parse_capsule_eq [OF d1 d2] by (auto split: if_splits)
    with n1 n2 show ?thesis
      by (simp add: word_less_nat_alt capsule_consts)
  qed
qed

section \<open>Properties\<close>

text \<open>
  C19. Session close and drain survive the wire: for a well-formed reason the peer's endpoint, after
  any bytes of whole drain capsules, ends the session with the sender's code and the truncated
  reason, and reports one draining event per drain capsule before it.
\<close>

theorem capsule_close_delivered:
  assumes "valid_utf8 reason"
  shows "feed_session_capsules None (concat (replicate k encode_drain) @ encode_close code reason @ rest)
    = (replicate k Session_Draining @ [Session_Ended code (truncate_reason reason)], None)"
proof -
  have close: "capsule_loop \<lparr>cap_buf = encode_close code reason @ rest\<rparr>
      = ([Session_Ended code (truncate_reason reason)], None)"
    using parse_encode_close [OF assms]
    by (intro capsule_loop_Close) (simp add: assembler_next.simps [of "\<lparr>cap_buf = encode_close code reason @ rest\<rparr>"])
  have "capsule_loop \<lparr>cap_buf = concat (replicate k encode_drain) @ encode_close code reason @ rest\<rparr>
      = (replicate k Session_Draining @ [Session_Ended code (truncate_reason reason)], None)"
  proof (induction k)
    case (Suc k)
    let ?b = "concat (replicate k encode_drain) @ encode_close code reason @ rest"
    have "assembler_next \<lparr>cap_buf = encode_drain @ ?b\<rparr> = (\<lparr>cap_buf = ?b\<rparr>, Inr (Some Drain))"
      using parse_encode_drain [of ?b]
      by (simp add: assembler_next.simps [of "\<lparr>cap_buf = encode_drain @ ?b\<rparr>"])
    then show ?case
      using Suc.IH by (simp add: capsule_loop_Drain)
  qed (simp add: close)
  then show ?thesis
    by (simp add: feed_session_capsules_def assembler_push_def assembler_new_def)
qed

theorem capsule_close_delivered_witness:
  "valid_utf8 [0xC3, 0xA9] \<and>
   feed_session_capsules None (concat (replicate 2 encode_drain) @ encode_close 7 [0xC3, 0xA9] @ [1])
    = (replicate 2 Session_Draining @ [Session_Ended 7 (truncate_reason [0xC3, 0xA9])], None)"
proof -
  have "valid_utf8 [0xC3, 0xA9]"
    by code_simp
  then show ?thesis
    using capsule_close_delivered [of "[0xC3, 0xA9]" 2 7 "[1]"] by blast
qed

text \<open>
  \<^verbatim>\<open>truncate_reason\<close> returns the longest prefix of a well-formed reason that has at most 1024
  bytes and is itself well-formed UTF-8, so it never splits a character.
\<close>

theorem truncate_reason_correct:
  assumes "valid_utf8 reason"
  shows "(\<exists>k. truncate_reason reason = take k reason)
    \<and> length (truncate_reason reason) \<le> 1024
    \<and> valid_utf8 (truncate_reason reason)
    \<and> (\<forall>k. k \<le> 1024 \<longrightarrow> k \<le> length reason \<longrightarrow> valid_utf8 (take k reason) \<longrightarrow>
          k \<le> length (truncate_reason reason))"
proof (intro conjI)
  show "\<exists>k. truncate_reason reason = take k reason"
    by (auto simp: truncate_reason_def intro: exI [of _ "length reason"])
qed (use truncate_reason_length valid_truncate_reason truncate_reason_longest assms in
      \<open>auto simp: MAX_REASON_LEN_def\<close>)

theorem truncate_reason_correct_witness:
  "valid_utf8 (replicate 1023 0x61 @ [0xC3, 0xA9]) \<and>
   valid_utf8 (truncate_reason (replicate 1023 0x61 @ [0xC3, 0xA9]))"
proof -
  have ascii: "valid_utf8 bs \<Longrightarrow> valid_utf8 (replicate n 0x61 @ bs)" for n bs
    by (induction n) (simp_all add: valid_utf8.simps [of "0x61 # _"] utf8_char_len_1)
  have "valid_utf8 [0xC3, 0xA9]"
    by code_simp
  then have "valid_utf8 (replicate 1023 0x61 @ [0xC3, 0xA9])"
    by (rule ascii)
  with truncate_reason_correct [OF this] show ?thesis
    by blast
qed

text \<open>
  Buffering is bounded: an assembler that waits for more bytes after a payload holds fewer than
  16 header bytes and 1028 value bytes, whatever the peer sent.
\<close>

theorem assembler_bounded:
  assumes "feed_session_capsules slot payload = (acts, Some a)"
  shows "length (cap_buf a) < 16 + 4 + 1024"
proof -
  obtain buf where "feed_session_capsules slot payload = capsule_loop \<lparr>cap_buf = buf\<rparr>"
    by (metis capsule_assembler.surjective old.unit.exhaust feed_session_capsules_def)
  with assms have "parse_capsule (cap_buf a) = Incomplete"
    using capsule_loop_waits by metis
  then show ?thesis
    using incomplete_capsule_short by (simp add: MAX_REASON_LEN_def)
qed

theorem assembler_bounded_witness:
  "feed_session_capsules None [0x68] = ([], Some \<lparr>cap_buf = [0x68]\<rparr>) \<and>
   length (cap_buf \<lparr>cap_buf = [0x68 :: byte]\<rparr>) < 16 + 4 + 1024"
proof -
  have "parse_capsule [0x68] = Incomplete"
    by code_simp
  then have "assembler_next \<lparr>cap_buf = [0x68]\<rparr> = (\<lparr>cap_buf = [0x68]\<rparr>, Inr None)"
    by (subst assembler_next.simps) simp
  then have "feed_session_capsules None [0x68] = ([], Some \<lparr>cap_buf = [0x68]\<rparr>)"
    by (simp add: feed_session_capsules_def assembler_push_def assembler_new_def capsule_loop_None)
  then show ?thesis
    using assembler_bounded [of None "[0x68]" "[]" "\<lparr>cap_buf = [0x68]\<rparr>"] by blast
qed

end
