(* ===== verification/Qpack_Int.thy ===== *)
theory Qpack_Int
  imports Wire_Codec
begin

text \<open>
  QPACK primitives, \<^verbatim>\<open>crates/wasm/src/h3.rs\<close>: integers with an N-bit prefix and string literals. The
  HPACK Huffman decoder is a third-party crate and enters as the parameter \<open>huff\<close>, a function from
  coded bytes to decoded bytes or an error.
\<close>

unbundle bit_operations_syntax

section \<open>Definitions\<close>

definition prefix_max :: "nat \<Rightarrow> u64" where
  "prefix_max n = push_bit n 1 - 1"

function qpack_int_tail :: "u64 \<Rightarrow> bytes" where
  "qpack_int_tail v =
     (if v \<ge> 128 then ((ucast v AND 0x7f) OR 0x80) # qpack_int_tail (drop_bit 7 v)
      else [ucast v])"
  by pat_completeness auto
termination
  by (relation "measure unat") (auto simp: unat_drop_bit word_le_nat_alt)

declare qpack_int_tail.simps [simp del]

definition qpack_int :: "byte \<Rightarrow> nat \<Rightarrow> u64 \<Rightarrow> bytes \<Rightarrow> bytes" where
  "qpack_int prefix n value out =
     (let max = prefix_max n in
      if value < max then out @ [prefix OR ucast value]
      else out @ [prefix OR ucast max] @ qpack_int_tail (value - max))"

definition checked_shl :: "u64 \<Rightarrow> nat \<Rightarrow> u64 option" where
  "checked_shl v m = (if m < 64 then Some (push_bit m v) else None)"

fun qpack_int_loop :: "bytes \<Rightarrow> u64 \<Rightarrow> nat \<Rightarrow> nat \<Rightarrow> (u64 \<times> nat) option" where
  "qpack_int_loop [] value m i = None"
| "qpack_int_loop (byte # rest) value m i =
     (let b = ucast byte :: u64 in
      case checked_shl (b AND 0x7f) m of
        None \<Rightarrow> None
      | Some shifted \<Rightarrow>
          case checked_add_word value shifted of
            None \<Rightarrow> None
          | Some value' \<Rightarrow>
              if b AND 0x80 = 0 then Some (value', i + 1)
              else if m + 7 \<ge> 64 then None
              else qpack_int_loop rest value' (m + 7) (i + 1))"

definition qpack_int_decode :: "bytes \<Rightarrow> nat \<Rightarrow> (u64 \<times> nat) option" where
  "qpack_int_decode buf n =
     (case buf of
        [] \<Rightarrow> None
      | b # rest \<Rightarrow>
          let max = prefix_max n; first = ucast b AND max in
          if first < max then Some (first, 1)
          else qpack_int_loop rest max 0 1)"

definition decode_qpack_bytes :: "(bytes \<Rightarrow> bytes option) \<Rightarrow> bytes \<Rightarrow> bool \<Rightarrow> bytes option" where
  "decode_qpack_bytes huff raw huffman =
     (if huffman then
        (case huff raw of None \<Rightarrow> None | Some out \<Rightarrow> from_utf8 out)
      else from_utf8 raw)"

text \<open>The string and the rest of the buffer.\<close>

definition read_qpack_string :: "(bytes \<Rightarrow> bytes option) \<Rightarrow> bytes \<Rightarrow> (bytes \<times> bytes) option" where
  "read_qpack_string huff buf =
     (case buf of
        [] \<Rightarrow> None
      | b # _ \<Rightarrow>
          let huffman = (b AND 0x80 \<noteq> 0) in
          case qpack_int_decode buf 7 of
            None \<Rightarrow> None
          | Some (len, n) \<Rightarrow>
              case usize_try_from len of
                None \<Rightarrow> None
              | Some len_us \<Rightarrow>
                  let buf' = drop n buf in
                  if length buf' < len_us then None
                  else map_option (\<lambda>s. (s, drop len_us buf')) (decode_qpack_bytes huff (take len_us buf') huffman))"

definition qpack_literal :: "bytes \<Rightarrow> bytes \<Rightarrow> bytes \<Rightarrow> bytes" where
  "qpack_literal name value out =
     (let out = qpack_int 0x20 3 (of_nat (length name)) out;
          out = out @ name;
          out = qpack_int 0x00 7 (of_nat (length value)) out
      in out @ value)"

text \<open>
  The bytes an encoder appends, and the number a prefix integer denotes in full: the tail bytes hold
  seven bits each, least significant first.
\<close>

definition qint_bytes :: "byte \<Rightarrow> nat \<Rightarrow> u64 \<Rightarrow> bytes" where
  "qint_bytes prefix n value = qpack_int prefix n value []"

fun tail_value :: "bytes \<Rightarrow> nat" where
  "tail_value [] = 0"
| "tail_value (b # bs) = unat b mod 128 + 128 * tail_value bs"

section \<open>Bits of a byte\<close>

lemma qpack_int_eq [wire_simps]: "qpack_int prefix n value out = out @ qint_bytes prefix n value"
  by (simp add: qpack_int_def qint_bytes_def Let_def)

lemma and_0x7f: "unat (ucast (b :: byte) AND 0x7f :: u64) = unat b mod 128"
  using unat_and_mask [of "ucast b :: u64" 7] by (simp add: mask_eq_exp_minus_1)

lemma and_0x80_byte: "(b :: byte) AND 0x80 = 0 \<longleftrightarrow> unat b < 128"
proof -
  have "NOT (mask 7) = (0x80 :: byte)"
    by (simp add: mask_eq_exp_minus_1)
  then have "b AND 0x80 = push_bit 7 (drop_bit 7 b)"
    using and_not_mask [of b 7] by simp
  then show ?thesis
    using unat_byte_less [of b] by (auto simp: word_unat_eq_iff unat_push_bit unat_drop_bit)
qed

lemma and_0x80: "(ucast (b :: byte) :: u64) AND 0x80 = 0 \<longleftrightarrow> unat b < 128"
proof -
  have "(ucast b :: u64) AND ucast (0x80 :: byte) = ucast (b AND 0x80)"
    by (simp add: unsigned_and_eq)
  moreover have "(ucast x :: u64) = 0 \<longleftrightarrow> x = 0" for x :: byte
    by (simp add: word_unat_eq_iff)
  ultimately show ?thesis
    using and_0x80_byte [of b] by simp
qed

lemma tail_byte: "unat ((ucast (v :: u64) AND 0x7f) OR 0x80 :: byte) = unat v mod 128 + 128"
proof -
  have v: "unat (ucast v AND 0x7f :: byte) = unat v mod 128"
    using unat_and_mask [of "ucast v :: byte" 7]
    by (simp add: mask_eq_exp_minus_1 unat_ucast mod_mod_cancel)
  then have "unat (ucast v AND 0x7f :: byte) < 2 ^ 7"
    by simp
  from unat_or_push_bit [OF this, of 1] v show ?thesis
    by simp
qed

lemma unat_prefix_max: "n \<le> 8 \<Longrightarrow> unat (prefix_max n) = 2 ^ n - 1"
proof -
  assume "n \<le> 8"
  then have "n \<in> {0, 1, 2, 3, 4, 5, 6, 7, 8}"
    by auto
  then show ?thesis
    by (auto simp: prefix_max_def)
qed

section \<open>Round trip\<close>

definition low7 :: "byte \<Rightarrow> u64" where
  "low7 b = ucast b AND 0x7f"

lemma unat_low7: "unat (low7 b) = unat b mod 128"
  by (simp add: low7_def and_0x7f)

lemma low7_eqI: "unat b mod 128 = unat v \<Longrightarrow> low7 b = v"
  by (simp add: word_unat_eq_iff unat_low7)

lemma qpack_int_loop_Cons:
  "qpack_int_loop (b # bs) acc m i =
    (if m < 64 then
       (case checked_add_word acc (push_bit m (low7 b)) of
          None \<Rightarrow> None
        | Some acc' \<Rightarrow>
            if unat b < 128 then Some (acc', i + 1)
            else if m + 7 \<ge> 64 then None
            else qpack_int_loop bs acc' (m + 7) (i + 1))
     else None)"
  unfolding qpack_int_loop.simps Let_def checked_shl_def and_0x80 low7_def
  by simp

declare qpack_int_loop.simps(2) [simp del]

lemma qpack_int_loop_tail:
  assumes "unat acc + unat v * 2 ^ m < 2 ^ 64" and "m < 64"
  shows "qpack_int_loop (qpack_int_tail v @ rest) acc m i
    = Some (acc + push_bit m v, i + length (qpack_int_tail v))"
  using assms
proof (induction v arbitrary: acc m i rule: qpack_int_tail.induct)
  case (1 v)
  have exact: "unat (push_bit m w) = unat w * 2 ^ m" if "unat w \<le> unat v" for w :: u64
  proof -
    have "unat w * 2 ^ m \<le> unat v * 2 ^ m"
      using that by simp
    then have "unat w * 2 ^ m < 2 ^ 64"
      using "1.prems"(1) by linarith
    then show ?thesis
      by (intro unat_push_bit_small) simp
  qed
  show ?case
  proof (cases "v \<ge> 128")
    case False
    then have v: "unat v < 128"
      by (simp add: word_le_nat_alt)
    then have b: "unat (ucast v :: byte) = unat v"
      by (simp add: unat_ucast)
    have "low7 (ucast v) = v"
      using v by (intro low7_eqI) (simp add: b)
    moreover have "checked_add_word acc (push_bit m v) = Some (acc + push_bit m v)"
      using "1.prems"(1) by (simp add: checked_add_word_def exact)
    ultimately show ?thesis
      using False v "1.prems"(2)
      by (simp add: qpack_int_tail.simps [of v] qpack_int_loop_Cons b)
  next
    case True
    then have v: "128 \<le> unat v"
      by (simp add: word_le_nat_alt)
    let ?b = "(ucast v AND 0x7f) OR 0x80 :: byte" and ?lo = "word_of_nat (unat v mod 128) :: u64"
    have lo: "unat ?lo = unat v mod 128"
      by (simp add: unsigned_of_nat take_bit_nat_eq_self)
    have split: "unat v = unat v mod 128 + 128 * (unat v div 128)"
      by simp
    have prod: "unat v * 2 ^ m = unat v mod 128 * 2 ^ m + unat v div 128 * 2 ^ (m + 7)"
      using arg_cong [OF split, of "\<lambda>x. x * 2 ^ m"] by (simp only: add_mult_distrib power_add) simp
    have "(2::nat) ^ (m + 7) \<le> unat v div 128 * 2 ^ (m + 7)"
      using v by (simp add: div_greater_zero_iff)
    then have "(2::nat) ^ (m + 7) < 2 ^ 64"
      using "1.prems"(1) prod by linarith
    then have m: "m + 7 < 64"
      by (rule power_less_imp_less_exp [rotated]) simp
    have bits: "low7 ?b = ?lo"
      by (intro low7_eqI) (simp only: tail_byte lo, simp)
    have lo_m: "unat (push_bit m ?lo) = unat v mod 128 * 2 ^ m"
      using exact [of ?lo] lo by simp
    then have sum: "checked_add_word acc (push_bit m ?lo) = Some (acc + push_bit m ?lo)"
      and val: "unat (acc + push_bit m ?lo) = unat acc + unat v mod 128 * 2 ^ m"
      using "1.prems"(1) prod by (simp_all add: checked_add_word_def unat_word_ariths)
    have "qpack_int_loop (qpack_int_tail (drop_bit 7 v) @ rest) (acc + push_bit m ?lo) (m + 7) (i + 1)
        = Some (acc + push_bit m ?lo + push_bit (m + 7) (drop_bit 7 v),
            i + 1 + length (qpack_int_tail (drop_bit 7 v)))"
      using "1.prems"(1) prod m val
      by (intro "1.IH" [OF True]) (simp_all add: unat_drop_bit)
    moreover have "push_bit m ?lo + push_bit (m + 7) (drop_bit 7 v) = push_bit m v"
    proof -
      have "unat (push_bit (m + 7) (drop_bit 7 v)) = unat v div 128 * 2 ^ (m + 7)"
        using "1.prems"(1) prod by (subst unat_push_bit_small) (simp_all add: unat_drop_bit)
      then show ?thesis
        using "1.prems"(1) prod lo_m exact [of v] by (simp add: word_unat_eq_iff unat_word_ariths)
    qed
    ultimately show ?thesis
      using True "1.prems"(2) m
      by (simp add: qpack_int_tail.simps [of v] qpack_int_loop_Cons bits sum tail_byte add.assoc)
  qed
qed

lemma prefix_or_byte:
  assumes "n \<le> 8" and "prefix AND mask n = 0" and "unat w < 2 ^ n"
  shows "unat (ucast (prefix OR ucast (w :: u64) :: byte) AND prefix_max n :: u64) = unat w"
proof -
  have max: "prefix_max n = mask n"
    by (simp add: prefix_max_def mask_eq_exp_minus_1 push_bit_eq_mult)
  have "unat w < 256"
    using assms(1,3) power_increasing [of n 8 "2::nat"] by simp
  then have w: "unat (ucast w :: byte) = unat w"
    by (simp add: unat_ucast)
  have "(prefix OR ucast w) AND mask n = ucast w AND mask n"
    using assms(2) by (simp add: bit.conj_disj_distrib2)
  then have "unat ((prefix OR ucast w :: byte) AND mask n) = unat w"
    using unat_and_mask [of "ucast w :: byte" n] w assms(3) by simp
  then show ?thesis
    using unat_and_mask [of "ucast (prefix OR ucast w :: byte) :: u64" n]
      unat_and_mask [of "prefix OR ucast w :: byte" n] by (simp add: max)
qed

lemma qpack_int_decode_encode:
  assumes "n \<le> 8" and "prefix AND mask n = 0"
  shows "qpack_int_decode (qint_bytes prefix n v @ rest) n = Some (v, length (qint_bytes prefix n v))"
proof (cases "v < prefix_max n")
  case True
  then have v: "unat v < 2 ^ n"
    using unat_prefix_max [OF assms(1)] by (simp add: word_less_nat_alt)
  have "ucast (prefix OR ucast v) AND prefix_max n = v"
    using prefix_or_byte [OF assms v] by (simp add: word_unat_eq_iff)
  with True show ?thesis
    by (simp add: qint_bytes_def qpack_int_def qpack_int_decode_def Let_def)
next
  case False
  let ?max = "prefix_max n"
  have max: "unat ?max < 2 ^ n"
    using unat_prefix_max [OF assms(1)] by simp
  have first: "ucast (prefix OR ucast ?max) AND ?max = ?max"
    using prefix_or_byte [OF assms max] by (simp add: word_unat_eq_iff)
  have "unat ?max + unat (v - ?max) = unat v"
    using False by (simp add: not_less unat_sub word_le_nat_alt)
  then have "unat ?max + unat (v - ?max) * 2 ^ 0 < 2 ^ 64"
    using unsigned_less [of v, where ?'a = nat] by simp
  from qpack_int_loop_tail [OF this, of rest 1] False first show ?thesis
    by (simp add: qint_bytes_def qpack_int_def qpack_int_decode_def Let_def)
qed

section \<open>What the decoder accepts\<close>

lemma qpack_int_loop_ConsE:
  assumes "qpack_int_loop (b # bs) acc m i = Some (v, j)"
  obtains (last) "m < 64" "unat b < 128" "j = i + 1"
      "unat acc + unat (push_bit m (low7 b)) < 2 ^ 64" "v = acc + push_bit m (low7 b)"
    | (cont) "m + 7 < 64" "128 \<le> unat b"
      "unat acc + unat (push_bit m (low7 b)) < 2 ^ 64"
      "qpack_int_loop bs (acc + push_bit m (low7 b)) (m + 7) (i + 1) = Some (v, j)"
  using assms
  by (auto simp: qpack_int_loop_Cons checked_add_word_def split: if_splits)

lemma qpack_int_loop_bound:
  assumes "qpack_int_loop bs acc m i = Some (v, j)"
  shows "i < j \<and> j \<le> i + length bs \<and> m + 7 * (j - i) < 71"
  using assms
proof (induction bs arbitrary: acc m i)
  case (Cons b bs)
  from Cons.prems show ?case
  proof (cases rule: qpack_int_loop_ConsE)
    case cont
    from Cons.IH [OF cont(4)] cont(1) show ?thesis
      by auto
  qed auto
qed simp

lemma qpack_int_loop_extend:
  assumes "qpack_int_loop bs acc m i = Some (v, j)"
  shows "qpack_int_loop (bs @ suf) acc m i = Some (v, j)"
  using assms
  by (induction bs arbitrary: acc m i) (auto simp: qpack_int_loop_Cons split: option.splits if_splits)

lemma qpack_int_loop_exact:
  assumes "qpack_int_loop bs acc m i = Some (v, j)" and "m + 7 * (j - i) < 64"
  shows "unat v = unat acc + 2 ^ m * tail_value (take (j - i) bs)"
  using assms
proof (induction bs arbitrary: acc m i)
  case (Cons b bs)
  have ij: "i < j"
    using qpack_int_loop_bound [OF Cons.prems(1)] by simp
  have "unat (low7 b) * 2 ^ m < 128 * 2 ^ m"
    by (simp add: unat_low7)
  also have "(128::nat) * 2 ^ m = 2 ^ (m + 7)"
    by (simp add: power_add)
  also have "\<dots> \<le> (2::nat) ^ 64"
    using Cons.prems(2) ij by (intro power_increasing) auto
  finally have lo: "unat (push_bit m (low7 b)) = unat b mod 128 * 2 ^ m"
    by (subst unat_push_bit_small) (simp_all add: unat_low7)
  from Cons.prems(1) show ?case
  proof (cases rule: qpack_int_loop_ConsE)
    case last
    then show ?thesis
      using lo by (simp add: unat_word_ariths)
  next
    case cont
    have "i + 1 < j"
      using qpack_int_loop_bound [OF cont(4)] by simp
    then obtain d where d: "j - i = Suc d" "j - (i + 1) = d"
      by (metis Suc_diff_Suc Suc_eq_plus1 ij)
    have "unat v = unat (acc + push_bit m (low7 b)) + 2 ^ (m + 7) * tail_value (take d bs)"
      using Cons.IH [OF cont(4)] Cons.prems(2) d by simp
    moreover have "unat (acc + push_bit m (low7 b)) = unat acc + unat b mod 128 * 2 ^ m"
      using cont(3) lo by (simp add: unat_word_ariths)
    ultimately show ?thesis
      unfolding d(1) by (simp add: algebra_simps power_add)
  qed
qed simp

lemma qpack_int_decode_bound:
  assumes "qpack_int_decode buf n = Some (v, k)"
  shows "0 < k \<and> k \<le> length buf \<and> k \<le> 11"
  using assms
  by (auto simp: qpack_int_decode_def Let_def split: list.splits if_splits dest!: qpack_int_loop_bound)

lemma qpack_int_decode_extend:
  assumes "qpack_int_decode buf n = Some (v, k)"
  shows "qpack_int_decode (buf @ suf) n = Some (v, k)"
  using assms
  by (auto simp: qpack_int_decode_def Let_def split: list.splits if_splits dest: qpack_int_loop_extend)

text \<open>Every prefix in use gives a self-delimiting codec of all 64-bit values.\<close>

lemma qint_prefix_codec:
  assumes "n \<le> 8" and "prefix AND mask n = 0"
  shows "prefix_codec (qint_bytes prefix n) (\<lambda>buf. qpack_int_decode buf n) (\<lambda>_. True)"
  using assms qpack_int_decode_encode qpack_int_decode_bound qpack_int_decode_extend
  by unfold_locales auto

interpretation qint7: prefix_codec "qint_bytes 0x00 7" "\<lambda>buf. qpack_int_decode buf 7" "\<lambda>_. True"
  by (rule qint_prefix_codec) simp_all

interpretation qint_name: prefix_codec "qint_bytes 0x20 3" "\<lambda>buf. qpack_int_decode buf 3" "\<lambda>_. True"
  by (rule qint_prefix_codec) (simp_all add: mask_eq_exp_minus_1)

section \<open>Strings\<close>

definition qstr_bytes :: "bytes \<Rightarrow> bytes" where
  "qstr_bytes s = qint_bytes 0x00 7 (of_nat (length s)) @ s"

definition qstr_ok :: "bytes \<Rightarrow> bool" where
  "qstr_ok s \<longleftrightarrow> valid_utf8 s \<and> length s \<le> usize_MAX"

definition qstr_decode :: "(bytes \<Rightarrow> bytes option) \<Rightarrow> bytes \<Rightarrow> (bytes \<times> nat) option" where
  "qstr_decode huff buf = map_option (\<lambda>(s, rest). (s, length buf - length rest)) (read_qpack_string huff buf)"

lemma qpack_literal_eq [wire_simps]:
  "qpack_literal name value out =
    out @ qint_bytes 0x20 3 (of_nat (length name)) @ name @ qstr_bytes value"
  by (simp add: qpack_literal_def qstr_bytes_def wire_simps)

lemma unat_of_nat_usize: "n \<le> usize_MAX \<Longrightarrow> unat (of_nat n :: u64) = n"
  by (subst unsigned_of_nat) (simp add: usize_MAX_def take_bit_nat_eq_self)

lemma qint_bytes_not_Nil [simp]: "qint_bytes prefix n v \<noteq> []"
  by (simp add: qint_bytes_def qpack_int_def Let_def)

lemma qint_bytes_flag:
  assumes "n \<le> 8" and "flag AND mask n = 0"
  shows "hd (qint_bytes prefix n v) AND flag = prefix AND flag"
proof -
  have "(prefix OR ucast w) AND flag = prefix AND flag" if "unat w < 2 ^ n" for w :: u64
  proof -
    have "unat w < 256"
      using that assms(1) power_increasing [of n 8 "2::nat"] by simp
    then have "(ucast w :: byte) = ucast w AND mask n"
      using that unat_and_mask [of "ucast w :: byte" n] by (simp add: word_unat_eq_iff unat_ucast)
    then have "(ucast w :: byte) AND flag = (ucast w AND mask n) AND flag"
      by simp
    also have "\<dots> = ucast w AND (flag AND mask n)"
      by (simp only: ac_simps)
    finally have "(ucast w :: byte) AND flag = ucast w AND (flag AND mask n)" .
    then show ?thesis
      using assms(2) by (simp add: bit.conj_disj_distrib2)
  qed
  moreover have "unat (prefix_max n) < 2 ^ n"
    using unat_prefix_max [OF assms(1)] by simp
  ultimately show ?thesis
    by (simp add: qint_bytes_def qpack_int_def Let_def word_less_nat_alt)
qed

lemma qint_hd_append [simp]: "hd (qint_bytes prefix n v @ rest) = hd (qint_bytes prefix n v)"
  by simp

lemma read_qpack_string_encode:
  assumes "qstr_ok s"
  shows "read_qpack_string huff (qstr_bytes s @ rest) = Some (s, rest)"
proof -
  obtain b bs where first: "qint_bytes 0x00 7 (of_nat (length s)) = b # bs"
    by (cases "qint_bytes 0x00 7 (of_nat (length s))") simp_all
  then have "b AND 0x80 = 0"
    using qint_bytes_flag [of 7 "0x80" "0x00" "of_nat (length s)"] by (simp add: mask_eq_exp_minus_1)
  note first = first this
  have dec: "qpack_int_decode (qstr_bytes s @ rest) 7
      = Some (of_nat (length s), length (qint_bytes 0x00 7 (of_nat (length s))))"
    unfolding qstr_bytes_def append_assoc by (rule qint7.dec_enc) simp
  have len: "unat (of_nat (length s) :: u64) = length s"
    using assms unat_of_nat_usize by (simp add: qstr_ok_def)
  show ?thesis
    unfolding read_qpack_string_def dec
    using assms first len
    by (simp add: qstr_bytes_def qstr_ok_def usize_try_from_def decode_qpack_bytes_def from_utf8_def)
qed

lemma read_qpack_string_eq:
  assumes "buf \<noteq> []" and "qpack_int_decode buf 7 = Some (len, n)"
    and "unat len \<le> usize_MAX" and "n + unat len \<le> length buf"
  shows "read_qpack_string huff buf = map_option (\<lambda>s. (s, drop (n + unat len) buf))
    (decode_qpack_bytes huff (take (unat len) (drop n buf)) (hd buf AND 0x80 \<noteq> 0))"
proof -
  obtain b bs where buf: "buf = b # bs"
    using assms(1) by (cases buf) auto
  show ?thesis
    unfolding read_qpack_string_def assms(2) using assms(3,4)
    by (auto simp: buf usize_try_from_def add.commute Let_def)
qed

lemma read_qpack_string_SomeD:
  assumes "read_qpack_string huff buf = Some (s, rest)"
  obtains len n where "qpack_int_decode buf 7 = Some (len, n)" "unat len \<le> usize_MAX"
    "n + unat len \<le> length buf" "rest = drop (n + unat len) buf"
    "decode_qpack_bytes huff (take (unat len) (drop n buf)) (hd buf AND 0x80 \<noteq> 0) = Some s" "buf \<noteq> []"
proof -
  obtain len n where dec: "qpack_int_decode buf 7 = Some (len, n)"
    using assms by (auto simp: read_qpack_string_def Let_def split: list.splits option.splits)
  then have "n \<le> length buf"
    using qpack_int_decode_bound by blast
  with assms dec show ?thesis
    by (intro that [OF dec])
      (auto simp: read_qpack_string_def Let_def add.commute split: list.splits option.splits if_splits)
qed

lemma read_qpack_string_suffix:
  assumes "read_qpack_string huff buf = Some (s, rest)"
  shows "\<exists>k. 0 < k \<and> k \<le> length buf \<and> rest = drop k buf"
  using assms
proof (rule read_qpack_string_SomeD)
  fix len n
  assume "qpack_int_decode buf 7 = Some (len, n)" "n + unat len \<le> length buf" "rest = drop (n + unat len) buf"
  then show ?thesis
    using qpack_int_decode_bound by (intro exI [of _ "n + unat len"]) fastforce
qed

lemma read_qpack_string_extend:
  assumes "read_qpack_string huff buf = Some (s, rest)"
  shows "read_qpack_string huff (buf @ suf) = Some (s, rest @ suf)"
  using assms
proof (rule read_qpack_string_SomeD)
  fix len n
  assume a: "qpack_int_decode buf 7 = Some (len, n)" "unat len \<le> usize_MAX"
    "n + unat len \<le> length buf" "rest = drop (n + unat len) buf"
    "decode_qpack_bytes huff (take (unat len) (drop n buf)) (hd buf AND 0x80 \<noteq> 0) = Some s" "buf \<noteq> []"
  show ?thesis
    using a by (subst read_qpack_string_eq [OF _ qpack_int_decode_extend [OF a(1), of suf]]) simp_all
qed

interpretation qstr: prefix_codec qstr_bytes "qstr_decode huff" qstr_ok for huff
proof
  fix s rest buf suf :: bytes and n
  show "qstr_decode huff (qstr_bytes s @ rest) = Some (s, length (qstr_bytes s))" if "qstr_ok s"
    by (simp add: qstr_decode_def read_qpack_string_encode [OF that])
  assume dec: "qstr_decode huff buf = Some (s, n)"
  then obtain r where r: "read_qpack_string huff buf = Some (s, r)" "n = length buf - length r"
    by (auto simp: qstr_decode_def)
  show "0 < n \<and> n \<le> length buf"
    using read_qpack_string_suffix [OF r(1)] r(2) by auto
  show "qstr_decode huff (buf @ suf) = Some (s, n)"
    using read_qpack_string_extend [OF r(1), of suf] r(2) by (simp add: qstr_decode_def)
qed

section \<open>Properties\<close>

text \<open>
  QPACK integers round-trip over the whole 64-bit range: for every prefix width and every
  flag pattern that leaves the prefix bits clear, the decoder returns the encoded value and exactly
  the bytes written, whatever follows, and it waits on every proper prefix of them.
\<close>

theorem qpack_int_roundtrip:
  assumes "n \<le> 8" and "prefix AND mask n = 0"
  shows "qpack_int_decode (qpack_int prefix n v [] @ rest) n = Some (v, length (qpack_int prefix n v []))
    \<and> (\<forall>k < length (qpack_int prefix n v []). qpack_int_decode (take k (qpack_int prefix n v [])) n = None)"
  using qpack_int_decode_encode [OF assms]
    prefix_codec.dec_proper_prefix [OF qint_prefix_codec [OF assms]]
  by (simp add: qint_bytes_def)

theorem qpack_int_roundtrip_witness:
  "(3 :: nat) \<le> 8 \<and> (0x20 :: byte) AND mask 3 = 0
   \<and> qpack_int_decode (qpack_int 0x20 3 (2 ^ 64 - 1) [] @ [9]) 3
       = Some (2 ^ 64 - 1, length (qpack_int 0x20 3 (2 ^ 64 - 1) []))"
proof -
  have "(3 :: nat) \<le> 8" and "(0x20 :: byte) AND mask 3 = 0"
    by (simp_all add: mask_eq_exp_minus_1)
  then show ?thesis
    using qpack_int_roundtrip [of 3 "0x20" "2 ^ 64 - 1" "[9]"] by blast
qed

text \<open>
  The decoder is sound on integers of at most ten bytes: what it returns is the number that the
  bytes denote, with no bit lost, and no accepted integer takes more than eleven bytes.
\<close>

theorem qpack_int_decode_sound:
  assumes "qpack_int_decode buf n = Some (v, k)" and "n \<le> 8"
  shows "k \<le> 11 \<and> k \<le> length buf
    \<and> (k \<le> 10 \<longrightarrow> unat v = (let first = unat (hd buf) mod 2 ^ n in
         if first < 2 ^ n - 1 then first else 2 ^ n - 1 + tail_value (take (k - 1) (tl buf))))"
proof -
  obtain b bs where buf: "buf = b # bs"
    using assms(1) by (cases buf) (auto simp: qpack_int_decode_def)
  have max: "unat (prefix_max n) = 2 ^ n - 1" "prefix_max n = mask n"
    using unat_prefix_max [OF assms(2)] by (simp_all add: prefix_max_def mask_eq_exp_minus_1 push_bit_eq_mult)
  have first: "unat (ucast b AND prefix_max n :: u64) = unat b mod 2 ^ n"
    using unat_and_mask [of "ucast b :: u64" n] by (simp add: max(2))
  have less: "(ucast b AND prefix_max n :: u64) < prefix_max n \<longleftrightarrow> unat b mod 2 ^ n < 2 ^ n - 1"
    by (simp add: word_less_nat_alt first max(1))
  show ?thesis
  proof (cases "unat b mod 2 ^ n < 2 ^ n - 1")
    case True
    then show ?thesis
      using assms(1) less first by (auto simp: buf qpack_int_decode_def Let_def)
  next
    case False
    then have loop: "qpack_int_loop bs (prefix_max n) 0 1 = Some (v, k)"
      using assms(1) less by (simp add: buf qpack_int_decode_def Let_def)
    have "unat v = 2 ^ n - 1 + tail_value (take (k - 1) bs)" if "k \<le> 10"
      using qpack_int_loop_exact [OF loop] that max(1) by simp
    then show ?thesis
      using qpack_int_decode_bound [OF assms(1)] False by (simp add: buf)
  qed
qed

theorem qpack_int_decode_sound_witness:
  "qpack_int_decode [0x1f, 0x9a, 0x0a, 0x00] 5 = Some (1337, 3) \<and> unat (1337 :: u64) = 31 + tail_value [0x9a, 0x0a]"
proof -
  have dec: "qpack_int_decode [0x1f, 0x9a, 0x0a, 0x00] 5 = Some (1337, 3)"
    by code_simp
  show ?thesis
    using dec qpack_int_decode_sound [OF dec] by simp
qed

text \<open>
  The eleventh byte can lose bits: \<^verbatim>\<open>checked_shl\<close> only checks the shift distance, so eleven bytes
  that denote a number of more than 64 bits are accepted with the wrong value instead of being rejected.
\<close>

theorem qpack_int_decode_lossy:
  "qpack_int_decode (0xff # [0x80, 0x80, 0x80, 0x80, 0x80, 0x80, 0x80, 0x80, 0x80, 0x02]) 8 = Some (255, 11)
   \<and> 255 + tail_value [0x80, 0x80, 0x80, 0x80, 0x80, 0x80, 0x80, 0x80, 0x80, 0x02] = 255 + 2 ^ 64"
proof
  show "qpack_int_decode (0xff # [0x80, 0x80, 0x80, 0x80, 0x80, 0x80, 0x80, 0x80, 0x80, 0x02]) 8 = Some (255, 11)"
    by code_simp
qed simp

text \<open>
  String literals round-trip: a well-formed string is read back with exactly the bytes after
  it left, whatever the Huffman decoder does, and a proper prefix of its encoding is never read.
\<close>

theorem qpack_string_roundtrip:
  assumes "valid_utf8 s" and "length s \<le> usize_MAX"
  shows "read_qpack_string huff (qpack_int 0x00 7 (of_nat (length s)) [] @ s @ rest) = Some (s, rest)
    \<and> (\<forall>k < length (qpack_int 0x00 7 (of_nat (length s)) [] @ s).
          read_qpack_string huff (take k (qpack_int 0x00 7 (of_nat (length s)) [] @ s)) = None)"
proof -
  have ok: "qstr_ok s"
    using assms by (simp add: qstr_ok_def)
  have enc: "qpack_int 0x00 7 (of_nat (length s)) [] @ s = qstr_bytes s"
    by (simp add: qstr_bytes_def qint_bytes_def)
  show ?thesis
    using read_qpack_string_encode [OF ok, of huff rest] qstr.dec_proper_prefix [OF ok, where huff = huff]
    by (simp add: enc qstr_decode_def append_assoc [symmetric] del: append_assoc)
qed

theorem qpack_string_roundtrip_witness:
  "valid_utf8 [0xC3, 0xA9] \<and> length [0xC3, 0xA9 :: byte] \<le> usize_MAX
   \<and> read_qpack_string (\<lambda>_. None) (qpack_int 0x00 7 (of_nat (length [0xC3, 0xA9 :: byte])) [] @ [0xC3, 0xA9] @ [1])
       = Some ([0xC3, 0xA9], [1])"
proof -
  have "valid_utf8 [0xC3, 0xA9]" and "length [0xC3, 0xA9 :: byte] \<le> usize_MAX"
    by (code_simp, simp add: usize_MAX_def)
  then show ?thesis
    using qpack_string_roundtrip [of "[0xC3, 0xA9]" "\<lambda>_. None" "[1]"] by blast
qed

end
