(* ===== verification/Qpack_Table.thy ===== *)
theory Qpack_Table
  imports Wt_Prelude
begin

text \<open>
  The bounded QPACK dynamic table, \<^verbatim>\<open>DynamicTable\<close> in \<^verbatim>\<open>crates/wasm/src/h3.rs\<close>. An operation that
  fails returns the table as the code leaves it: some entries may already be evicted and, for a
  capacity change, the new capacity is already set.
\<close>

section \<open>Definitions\<close>

datatype qpack_error = Blocked | Invalid

record dyn_entry =
  de_name :: bytes
  de_value :: bytes

record dynamic_table =
  dt_entries :: "dyn_entry list"
  dt_capacity :: nat
  dt_max_capacity :: nat
  dt_size :: nat
  dt_insert_count :: nat

definition dynamic_table_new :: "nat \<Rightarrow> dynamic_table" where
  "dynamic_table_new max_capacity =
     \<lparr>dt_entries = [], dt_capacity = 0, dt_max_capacity = max_capacity, dt_size = 0,
      dt_insert_count = 0\<rparr>"

definition entry_size :: "bytes \<Rightarrow> bytes \<Rightarrow> nat" where
  "entry_size name value = sat_add usize_MAX (sat_add usize_MAX (length name) (length value)) 32"

definition oldest_absolute :: "dynamic_table \<Rightarrow> nat option" where
  "oldest_absolute t =
     (if dt_entries t = [] then None
      else Some (dt_insert_count t - length (dt_entries t) + 1))"

definition above_floor :: "dynamic_table \<Rightarrow> nat option \<Rightarrow> bool" where
  "above_floor t ack_floor =
     (case oldest_absolute t of
        None \<Rightarrow> False
      | Some oldest \<Rightarrow> (case ack_floor of None \<Rightarrow> False | Some floor \<Rightarrow> oldest > floor))"

definition pop_front :: "dynamic_table \<Rightarrow> dynamic_table" where
  "pop_front t =
     (case dt_entries t of
        [] \<Rightarrow> t
      | e # es \<Rightarrow> t\<lparr>dt_entries := es, dt_size := dt_size t - entry_size (de_name e) (de_value e)\<rparr>)"

function evict_loop :: "nat \<Rightarrow> nat option \<Rightarrow> dynamic_table \<Rightarrow> dynamic_table \<times> (qpack_error + unit)" where
  "evict_loop additional ack_floor t =
     (if dt_entries t = [] then (t, Inr ())
      else if additional = usize_MAX \<or> sat_add usize_MAX (dt_size t) additional > dt_capacity t then
        if above_floor t ack_floor then (t, Inl Invalid)
        else if additional = usize_MAX \<and> dt_entries (pop_front t) = [] then (pop_front t, Inr ())
        else evict_loop additional ack_floor (pop_front t)
      else (t, Inr ()))"
  by pat_completeness auto
termination
  by (relation "measure (\<lambda>(_, _, t). length (dt_entries t))")
    (auto simp: pop_front_def split: list.splits)

declare evict_loop.simps [simp del]

definition evict_to_fit :: "nat \<Rightarrow> nat option \<Rightarrow> dynamic_table \<Rightarrow> dynamic_table \<times> (qpack_error + unit)" where
  "evict_to_fit additional ack_floor t =
     (case evict_loop additional ack_floor t of
        (t', Inl e) \<Rightarrow> (t', Inl e)
      | (t', Inr _) \<Rightarrow>
          if additional \<noteq> usize_MAX \<and> sat_add usize_MAX (dt_size t') additional > dt_capacity t'
          then (t', Inl Invalid) else (t', Inr ()))"

definition set_capacity_with_ack_floor ::
    "nat \<Rightarrow> nat option \<Rightarrow> dynamic_table \<Rightarrow> dynamic_table \<times> (qpack_error + unit)" where
  "set_capacity_with_ack_floor capacity ack_floor t =
     (if capacity > dt_max_capacity t then (t, Inl Invalid)
      else evict_to_fit 0 ack_floor (t\<lparr>dt_capacity := capacity\<rparr>))"

definition set_capacity :: "nat \<Rightarrow> dynamic_table \<Rightarrow> dynamic_table \<times> (qpack_error + unit)" where
  "set_capacity capacity t = set_capacity_with_ack_floor capacity None t"

definition push_entry :: "bytes \<Rightarrow> bytes \<Rightarrow> dynamic_table \<Rightarrow> dynamic_table" where
  "push_entry name value t =
     t\<lparr>dt_entries := dt_entries t @ [\<lparr>de_name = name, de_value = value\<rparr>],
       dt_size := sat_add usize_MAX (dt_size t) (entry_size name value),
       dt_insert_count := sat_add u64_MAX (dt_insert_count t) 1\<rparr>"

definition insert_with_ack_floor ::
    "bytes \<Rightarrow> bytes \<Rightarrow> nat option \<Rightarrow> dynamic_table \<Rightarrow> dynamic_table \<times> (qpack_error + unit)" where
  "insert_with_ack_floor name value ack_floor t =
     (let sz = entry_size name value in
      if sz > dt_capacity t then (t, Inl Invalid)
      else case evict_to_fit sz ack_floor t of
        (t', Inl e) \<Rightarrow> (t', Inl e)
      | (t', Inr _) \<Rightarrow> (push_entry name value t', Inr ()))"

definition table_insert :: "bytes \<Rightarrow> bytes \<Rightarrow> dynamic_table \<Rightarrow> dynamic_table \<times> (qpack_error + unit)" where
  "table_insert name value t = insert_with_ack_floor name value None t"

definition get_absolute :: "dynamic_table \<Rightarrow> nat \<Rightarrow> (bytes \<times> bytes) option" where
  "get_absolute t ab =
     (if ab = 0 then None
      else case oldest_absolute t of
        None \<Rightarrow> None
      | Some oldest \<Rightarrow>
          if ab < oldest \<or> ab > dt_insert_count t then None
          else
            let idx = ab - oldest in
            if idx < length (dt_entries t) then
              let e = dt_entries t ! idx in Some (de_name e, de_value e)
            else None)"

definition get_relative :: "dynamic_table \<Rightarrow> nat \<Rightarrow> nat \<Rightarrow> (bytes \<times> bytes) option" where
  "get_relative t relative base =
     (case checked_sub base relative of
        None \<Rightarrow> None
      | Some ab \<Rightarrow> get_absolute t ab)"

definition get_post_base :: "dynamic_table \<Rightarrow> nat \<Rightarrow> nat \<Rightarrow> (bytes \<times> bytes) option" where
  "get_post_base t post base =
     (case checked_add u64_MAX base post of
        None \<Rightarrow> None
      | Some b \<Rightarrow> (case checked_add u64_MAX b 1 of None \<Rightarrow> None | Some ab \<Rightarrow> get_absolute t ab))"

section \<open>Invariant\<close>

definition total_size :: "dyn_entry list \<Rightarrow> nat" where
  "total_size es = sum_list (map (\<lambda>e. entry_size (de_name e) (de_value e)) es)"

definition evicted :: "dynamic_table \<Rightarrow> nat" where
  "evicted t = dt_insert_count t - length (dt_entries t)"

definition wf_table :: "dynamic_table \<Rightarrow> bool" where
  "wf_table t \<longleftrightarrow>
     dt_max_capacity t < usize_MAX \<and> dt_capacity t \<le> dt_max_capacity t
   \<and> dt_size t = total_size (dt_entries t) \<and> dt_size t \<le> dt_max_capacity t
   \<and> length (dt_entries t) \<le> dt_insert_count t \<and> dt_insert_count t \<le> u64_MAX"

text \<open>
  The reference eviction: the longest suffix of the entries that leaves room for \<open>add\<close> bytes.
\<close>

fun keep :: "nat \<Rightarrow> nat \<Rightarrow> dyn_entry list \<Rightarrow> dyn_entry list" where
  "keep add cap [] = []"
| "keep add cap (e # es) =
     (if total_size (e # es) + add \<le> cap then e # es else keep add cap es)"

definition with_entries :: "dynamic_table \<Rightarrow> dyn_entry list \<Rightarrow> dynamic_table" where
  "with_entries t es = t\<lparr>dt_entries := es, dt_size := total_size es\<rparr>"

lemma total_size_simps [simp]:
  "total_size [] = 0"
  "total_size (e # es) = entry_size (de_name e) (de_value e) + total_size es"
  "total_size (es @ fs) = total_size es + total_size fs"
  by (simp_all add: total_size_def)

lemma keep_suffix: "\<exists>k \<le> length es. keep add cap es = drop k es"
proof (induction es)
  case (Cons e es)
  then obtain k where k: "k \<le> length es" "keep add cap es = drop k es"
    by blast
  show ?case
  proof (cases "total_size (e # es) + add \<le> cap")
    case True
    then show ?thesis
      by (intro exI [of _ 0]) simp
  next
    case False
    then show ?thesis
      using k by (intro exI [of _ "Suc k"]) simp
  qed
qed simp

lemma keep_fits: "add \<le> cap \<Longrightarrow> total_size (keep add cap es) + add \<le> cap"
  by (induction es) auto

lemma keep_id: "total_size es + add \<le> cap \<Longrightarrow> keep add cap es = es"
  by (cases es) auto

lemma keep_longest:
  assumes "total_size (drop j es) + add \<le> cap"
  shows "\<exists>m \<le> length (keep add cap es). drop j es = drop m (keep add cap es)"
  using assms
proof (induction es arbitrary: j)
  case (Cons e es)
  show ?case
  proof (cases "total_size (e # es) + add \<le> cap")
    case True
    then show ?thesis
      by (intro exI [of _ "min j (length (e # es))"]) (auto simp: min_def)
  next
    case False
    then obtain i where "j = Suc i"
      using Cons.prems by (cases j) auto
    then show ?thesis
      using Cons.IH [of i] Cons.prems False by simp
  qed
qed simp

lemma total_size_drop: "total_size (drop k es) \<le> total_size es"
  by (metis append_take_drop_id le_add2 total_size_simps(3))

lemma with_entries_simps [simp]:
  "dt_entries (with_entries t es) = es" "dt_size (with_entries t es) = total_size es"
  "dt_capacity (with_entries t es) = dt_capacity t"
  "dt_max_capacity (with_entries t es) = dt_max_capacity t"
  "dt_insert_count (with_entries t es) = dt_insert_count t"
  by (simp_all add: with_entries_def)

lemma with_entries_id: "wf_table t \<Longrightarrow> with_entries t (dt_entries t) = t"
  by (simp add: with_entries_def wf_table_def)

lemma with_entries_again [simp]: "with_entries (with_entries t es) fs = with_entries t fs"
  by (simp add: with_entries_def)

lemma wf_with_entries_drop: "wf_table t \<Longrightarrow> wf_table (with_entries t (drop k (dt_entries t)))"
  using total_size_drop [of k "dt_entries t"] by (auto simp: wf_table_def)

lemma pop_front_eq:
  assumes "wf_table t" and "dt_entries t = e # es"
  shows "pop_front t = with_entries t es"
  using assms by (simp add: pop_front_def with_entries_def wf_table_def)

lemma exceeds_iff:
  assumes "wf_table t" and "add < usize_MAX"
  shows "(add = usize_MAX \<or> sat_add usize_MAX (dt_size t) add > dt_capacity t) \<longleftrightarrow>
    total_size (dt_entries t) + add > dt_capacity t"
  using assms by (auto simp: wf_table_def sat_add_def)

lemma evict_loop_step:
  assumes "wf_table t" and "add < usize_MAX" and "dt_entries t = e # es"
  shows "evict_loop add fl t =
    (if total_size (e # es) + add > dt_capacity t then
       if above_floor t fl then (t, Inl Invalid) else evict_loop add fl (with_entries t es)
     else (t, Inr ()))"
  using assms exceeds_iff [OF assms(1,2)]
  by (subst evict_loop.simps) (simp add: pop_front_eq)

text \<open>
  What the loop does: with room for every eviction it computes \<open>keep\<close>; if the acknowledgement floor
  stops it, it has dropped exactly the entries up to the floor.
\<close>

lemma evict_loop_spec:
  assumes "wf_table t" and "add < usize_MAX" and "evict_loop add fl t = (t', r)"
  shows "\<exists>k \<le> length (dt_entries t). t' = with_entries t (drop k (dt_entries t))
    \<and> (\<forall>f. fl = Some f \<longrightarrow> 0 < k \<longrightarrow> evicted t + k \<le> f)
    \<and> (r = Inr () \<longrightarrow> dt_entries t' = keep add (dt_capacity t) (dt_entries t))
    \<and> (r \<noteq> Inr () \<longrightarrow> total_size (dt_entries t') + add > dt_capacity t)
    \<and> (fl = None \<longrightarrow> r = Inr ())"
  using assms
proof (induction "dt_entries t" arbitrary: t)
  case Nil
  then have "t' = t" "r = Inr ()"
    by (simp_all add: evict_loop.simps [of add fl t])
  with Nil show ?case
    using with_entries_id [OF Nil.prems(1)] by (intro exI [of _ 0]) simp
next
  case (Cons e es)
  note step = evict_loop_step [OF Cons.prems(1,2) Cons.hyps(2) [symmetric], of fl]
  have same: "t' = with_entries t (drop 0 (dt_entries t))" if "t' = t"
    using that with_entries_id [OF Cons.prems(1)] by simp
  show ?case
  proof (cases "total_size (e # es) + add > dt_capacity t \<and> \<not> above_floor t fl")
    case True
    let ?t = "with_entries t es"
    have wf: "wf_table ?t"
      using wf_with_entries_drop [OF Cons.prems(1), of 1] Cons.hyps(2) by (metis drop0 drop_Suc_Cons One_nat_def)
    have len: "length (dt_entries t) \<le> dt_insert_count t"
      using Cons.prems(1) by (simp add: wf_table_def)
    have loop: "evict_loop add fl ?t = (t', r)"
      using True step Cons.prems(3) by simp
    note IH = Cons.hyps(1) [of ?t, OF _ wf Cons.prems(2) loop,
        unfolded with_entries_simps with_entries_again, OF refl]
    then obtain k where k: "k \<le> length es" "t' = with_entries t (drop k es)"
        "\<forall>f. fl = Some f \<longrightarrow> 0 < k \<longrightarrow> evicted ?t + k \<le> f"
        "r = Inr () \<longrightarrow> dt_entries t' = keep add (dt_capacity t) es"
        "r \<noteq> Inr () \<longrightarrow> total_size (dt_entries t') + add > dt_capacity t" "fl = None \<longrightarrow> r = Inr ()"
      by blast
    have ev: "evicted ?t = Suc (evicted t)"
      using len by (simp add: evicted_def Cons.hyps(2) [symmetric])
    have fl: "evicted t + 1 \<le> f" if "fl = Some f" for f
      using True that by (auto simp: above_floor_def oldest_absolute_def evicted_def Cons.hyps(2) [symmetric])
    show ?thesis
      using k ev fl True by (intro exI [of _ "Suc k"]) (auto simp: not_le Cons.hyps(2) [symmetric])
  next
    case False
    then have "t' = t" and "r = Inr () \<longleftrightarrow> \<not> total_size (e # es) + add > dt_capacity t"
      and "fl = None \<longrightarrow> r = Inr ()"
      using step Cons.prems(3) by (auto simp: above_floor_def split: if_splits option.splits)
    then show ?thesis
      using same by (intro exI [of _ 0]) (auto simp: not_less keep_id Cons.hyps(2) [symmetric])
  qed
qed

lemma evict_to_fit_spec:
  assumes "wf_table t" and "add < usize_MAX" and "evict_to_fit add fl t = (t', r)"
  shows "\<exists>k \<le> length (dt_entries t). t' = with_entries t (drop k (dt_entries t))
    \<and> (\<forall>f. fl = Some f \<longrightarrow> 0 < k \<longrightarrow> evicted t + k \<le> f)
    \<and> (r = Inr () \<longrightarrow> dt_entries t' = keep add (dt_capacity t) (dt_entries t)
          \<and> total_size (dt_entries t') + add \<le> dt_capacity t)
    \<and> (r \<noteq> Inr () \<longrightarrow> total_size (dt_entries t') + add > dt_capacity t)
    \<and> (fl = None \<longrightarrow> add \<le> dt_capacity t \<longrightarrow> r = Inr ())"
proof -
  obtain t1 r1 where loop: "evict_loop add fl t = (t1, r1)"
    by (cases "evict_loop add fl t")
  from evict_loop_spec [OF assms(1,2) loop] obtain k where k: "k \<le> length (dt_entries t)"
      "t1 = with_entries t (drop k (dt_entries t))"
      "\<forall>f. fl = Some f \<longrightarrow> 0 < k \<longrightarrow> evicted t + k \<le> f"
      "r1 = Inr () \<longrightarrow> dt_entries t1 = keep add (dt_capacity t) (dt_entries t)"
      "r1 \<noteq> Inr () \<longrightarrow> total_size (dt_entries t1) + add > dt_capacity t"
      "fl = None \<longrightarrow> r1 = Inr ()"
    by blast
  have wf1: "wf_table t1"
    using wf_with_entries_drop [OF assms(1)] k(2) by simp
  have cap1: "dt_capacity t1 = dt_capacity t"
    using k(2) by simp
  have t': "t' = t1" and r: "r = (case r1 of Inl e \<Rightarrow> Inl e
      | Inr _ \<Rightarrow> if total_size (dt_entries t1) + add > dt_capacity t then Inl Invalid else Inr ())"
    using assms(2,3) exceeds_iff [OF wf1 assms(2)]
    by (auto simp: evict_to_fit_def loop cap1 split: sum.splits unit.splits if_splits)
  show ?thesis
    using k r t' keep_fits [of add "dt_capacity t" "dt_entries t"]
    by (intro exI [of _ k]) (auto split: sum.splits if_splits)
qed

lemma entry_size_exact:
  assumes "entry_size name val < usize_MAX"
  shows "entry_size name val = length name + length val + 32"
  using assms by (auto simp: entry_size_def sat_add_def min_def split: if_splits)

text \<open>
  The two mutating operations, in terms of \<open>keep\<close>. On failure some of the oldest entries are gone,
  none of them above the floor.
\<close>

lemma set_capacity_with_ack_floor_spec:
  assumes "wf_table t" and "set_capacity_with_ack_floor c fl t = (t', r)"
  shows "\<exists>k \<le> length (dt_entries t).
      (t' = with_entries (t\<lparr>dt_capacity := c\<rparr>) (drop k (dt_entries t)) \<and> c \<le> dt_max_capacity t
         \<and> (r \<noteq> Inr () \<longrightarrow> c < total_size (dt_entries t'))
       \<or> t' = t \<and> r = Inl Invalid \<and> k = 0 \<and> dt_max_capacity t < c)
    \<and> (\<forall>f. fl = Some f \<longrightarrow> 0 < k \<longrightarrow> evicted t + k \<le> f)
    \<and> (r = Inr () \<longrightarrow> c \<le> dt_max_capacity t \<and> dt_entries t' = keep 0 c (dt_entries t)
          \<and> total_size (dt_entries t') \<le> c \<and> dt_capacity t' = c)
    \<and> (fl = None \<longrightarrow> c \<le> dt_max_capacity t \<longrightarrow> r = Inr ())"
proof (cases "c > dt_max_capacity t")
  case True
  then show ?thesis
    using assms(2) by (intro exI [of _ 0]) (auto simp: set_capacity_with_ack_floor_def)
next
  case False
  let ?t = "t\<lparr>dt_capacity := c\<rparr>"
  have wf: "wf_table ?t"
    using assms(1) False by (simp add: wf_table_def)
  have ev: "evict_to_fit 0 fl ?t = (t', r)"
    using assms(2) False by (simp add: set_capacity_with_ack_floor_def)
  have "0 < usize_MAX"
    by (simp add: usize_MAX_def)
  from evict_to_fit_spec [OF wf this ev] have "\<exists>k \<le> length (dt_entries t). t' = with_entries ?t (drop k (dt_entries t))
      \<and> (\<forall>f. fl = Some f \<longrightarrow> 0 < k \<longrightarrow> evicted ?t + k \<le> f)
      \<and> (r = Inr () \<longrightarrow> dt_entries t' = keep 0 c (dt_entries t) \<and> total_size (dt_entries t') + 0 \<le> c)
      \<and> (r \<noteq> Inr () \<longrightarrow> c < total_size (dt_entries t')) \<and> (fl = None \<longrightarrow> r = Inr ())"
    by simp
  then obtain k where "k \<le> length (dt_entries t)"
      "t' = with_entries ?t (drop k (dt_entries t))"
      "\<forall>f. fl = Some f \<longrightarrow> 0 < k \<longrightarrow> evicted ?t + k \<le> f"
      "r = Inr () \<longrightarrow> dt_entries t' = keep 0 c (dt_entries t) \<and> total_size (dt_entries t') + 0 \<le> c"
      "r \<noteq> Inr () \<longrightarrow> c < total_size (dt_entries t')"
      "fl = None \<longrightarrow> r = Inr ()"
    by blast
  then show ?thesis
    using False by (intro exI [of _ k]) (auto simp: evicted_def)
qed

lemma insert_with_ack_floor_Ok:
  assumes "wf_table t" and "insert_with_ack_floor name val fl t = (t', Inr ())"
  shows "entry_size name val = length name + length val + 32 \<and> entry_size name val \<le> dt_capacity t
    \<and> t' = push_entry name val (with_entries t (keep (entry_size name val) (dt_capacity t) (dt_entries t)))
    \<and> total_size (keep (entry_size name val) (dt_capacity t) (dt_entries t)) + entry_size name val \<le> dt_capacity t
    \<and> (\<forall>f. fl = Some f \<longrightarrow> evicted (with_entries t (keep (entry_size name val) (dt_capacity t) (dt_entries t))) \<le> max f (evicted t))"
proof -
  let ?sz = "entry_size name val"
  obtain t1 where ev: "evict_to_fit ?sz fl t = (t1, Inr ())" and t': "t' = push_entry name val t1"
    and sz: "?sz \<le> dt_capacity t"
    using assms(2) by (auto simp: insert_with_ack_floor_def Let_def split: if_splits prod.splits sum.splits unit.splits)
  then have lt: "?sz < usize_MAX"
    using assms(1) by (simp add: wf_table_def)
  from evict_to_fit_spec [OF assms(1) lt ev] obtain k where k: "k \<le> length (dt_entries t)"
      "t1 = with_entries t (drop k (dt_entries t))" "\<forall>f. fl = Some f \<longrightarrow> 0 < k \<longrightarrow> evicted t + k \<le> f"
      "dt_entries t1 = keep ?sz (dt_capacity t) (dt_entries t)"
      "total_size (dt_entries t1) + ?sz \<le> dt_capacity t"
    by blast
  then have t1: "t1 = with_entries t (keep ?sz (dt_capacity t) (dt_entries t))"
    by (metis with_entries_simps(1))
  have "evicted t1 = evicted t + k"
    using k(1,2) assms(1) by (auto simp: evicted_def wf_table_def)
  then have "\<forall>f. fl = Some f \<longrightarrow> evicted t1 \<le> max f (evicted t)"
    using k(3) by (cases "k = 0") auto
  then show ?thesis
    using entry_size_exact [OF lt] sz t' t1 k(4,5) by simp
qed

lemma insert_with_ack_floor_Err:
  assumes "wf_table t" and "insert_with_ack_floor name val fl t = (t', Inl e)"
  shows "\<exists>k \<le> length (dt_entries t). t' = with_entries t (drop k (dt_entries t))
    \<and> (\<forall>f. fl = Some f \<longrightarrow> 0 < k \<longrightarrow> evicted t + k \<le> f)
    \<and> (fl = None \<longrightarrow> t' = t \<and> dt_capacity t < entry_size name val)"
proof (cases "entry_size name val > dt_capacity t")
  case True
  then show ?thesis
    using assms with_entries_id by (intro exI [of _ 0]) (auto simp: insert_with_ack_floor_def)
next
  case False
  then have lt: "entry_size name val < usize_MAX"
    using assms(1) by (simp add: wf_table_def)
  have "evict_to_fit (entry_size name val) fl t = (t', Inl e)"
    using assms(2) False by (auto simp: insert_with_ack_floor_def split: prod.splits sum.splits unit.splits)
  from evict_to_fit_spec [OF assms(1) lt this] False show ?thesis
    by auto
qed

lemma length_le_total_size: "length es \<le> total_size es"
  by (induction es) (auto simp: entry_size_def sat_add_def usize_MAX_def)

lemma wf_dynamic_table_new: "max_capacity < usize_MAX \<Longrightarrow> wf_table (dynamic_table_new max_capacity)"
  by (simp add: wf_table_def dynamic_table_new_def)

lemma wf_push_entry:
  assumes "wf_table t" and "dt_size t + entry_size name val \<le> dt_max_capacity t"
  shows "wf_table (push_entry name val t)"
proof -
  have "length (dt_entries t @ [\<lparr>de_name = name, de_value = val\<rparr>]) \<le> dt_max_capacity t"
    using length_le_total_size [of "dt_entries t @ [\<lparr>de_name = name, de_value = val\<rparr>]"] assms
    by (simp add: wf_table_def)
  then have "Suc (length (dt_entries t)) \<le> u64_MAX"
    using assms(1) by (simp add: wf_table_def usize_MAX_def u64_MAX_def)
  then show ?thesis
    using assms by (auto simp: wf_table_def push_entry_def sat_add_def)
qed

lemma wf_set_capacity [inv_intros]:
  assumes "wf_table t" and "set_capacity_with_ack_floor c fl t = (t', r)"
  shows "wf_table t'"
proof -
  have "wf_table (with_entries (t\<lparr>dt_capacity := c\<rparr>) (drop k (dt_entries t)))" if "c \<le> dt_max_capacity t" for k
  proof -
    have "wf_table (t\<lparr>dt_capacity := c\<rparr>)"
      using assms(1) that by (simp add: wf_table_def)
    from wf_with_entries_drop [OF this, of k] show ?thesis
      by simp
  qed
  then show ?thesis
    using set_capacity_with_ack_floor_spec [OF assms] assms(1) by auto
qed

lemma insert_Ok_table:
  assumes "wf_table t" and "insert_with_ack_floor name val fl t = (t', Inr ())"
  obtains k where "k \<le> length (dt_entries t)" "wf_table (with_entries t (drop k (dt_entries t)))"
    "t' = push_entry name val (with_entries t (drop k (dt_entries t)))"
    "dt_size (with_entries t (drop k (dt_entries t))) + entry_size name val \<le> dt_capacity t"
    "\<forall>f. fl = Some f \<longrightarrow> evicted t + k \<le> max f (evicted t)"
proof -
  let ?keep = "keep (entry_size name val) (dt_capacity t) (dt_entries t)"
  obtain k where k: "k \<le> length (dt_entries t)" "?keep = drop k (dt_entries t)"
    using keep_suffix by blast
  have "evicted (with_entries t (drop k (dt_entries t))) = evicted t + k"
    using k(1) assms(1) by (auto simp: evicted_def wf_table_def)
  then show ?thesis
    using insert_with_ack_floor_Ok [OF assms] k wf_with_entries_drop [OF assms(1)]
    by (intro that [of k]) auto
qed

lemma wf_insert [inv_intros]:
  assumes "wf_table t" and "insert_with_ack_floor name val fl t = (t', r)"
  shows "wf_table t'"
proof (cases r)
  case (Inl e)
  then show ?thesis
    using insert_with_ack_floor_Err [OF assms(1)] assms(2) wf_with_entries_drop [OF assms(1)] by blast
next
  case (Inr u)
  with assms(2) have ok: "insert_with_ack_floor name val fl t = (t', Inr ())"
    by simp
  obtain k where k: "wf_table (with_entries t (drop k (dt_entries t)))"
    "t' = push_entry name val (with_entries t (drop k (dt_entries t)))"
    "dt_size (with_entries t (drop k (dt_entries t))) + entry_size name val \<le> dt_capacity t"
    using insert_Ok_table [OF assms(1) ok] by metis
  have "dt_capacity t \<le> dt_max_capacity t"
    using assms(1) by (simp add: wf_table_def)
  with k show ?thesis
    by (auto intro!: wf_push_entry)
qed

lemma set_capacity_insert_count:
  assumes "wf_table t" and "set_capacity_with_ack_floor c fl t = (t', r)"
  shows "dt_insert_count t' = dt_insert_count t" and "r = Inr () \<Longrightarrow> c \<le> dt_max_capacity t"
proof -
  obtain k where "t' = with_entries (t\<lparr>dt_capacity := c\<rparr>) (drop k (dt_entries t)) \<or> t' = t"
    and c: "r = Inr () \<longrightarrow> c \<le> dt_max_capacity t"
    using set_capacity_with_ack_floor_spec [OF assms] by blast
  then show "dt_insert_count t' = dt_insert_count t" and "r = Inr () \<Longrightarrow> c \<le> dt_max_capacity t"
    by (auto simp del: with_entries_simps simp: with_entries_def)
qed

lemma insert_insert_count:
  assumes "wf_table t" and "insert_with_ack_floor name val fl t = (t', r)"
  shows "dt_insert_count t \<le> dt_insert_count t'"
proof (cases r)
  case (Inl e)
  then obtain k where "t' = with_entries t (drop k (dt_entries t))"
    using insert_with_ack_floor_Err [OF assms(1)] assms(2) by blast
  then show ?thesis
    by simp
next
  case (Inr u)
  with assms(2) have "insert_with_ack_floor name val fl t = (t', Inr ())"
    by simp
  then obtain k where "t' = push_entry name val (with_entries t (drop k (dt_entries t)))"
    using insert_Ok_table [OF assms(1)] by metis
  then show ?thesis
    using assms(1) by (simp add: push_entry_def sat_add_def wf_table_def)
qed

section \<open>Lookup\<close>

definition entry_pair :: "dyn_entry \<Rightarrow> bytes \<times> bytes" where
  "entry_pair e = (de_name e, de_value e)"

lemma get_absolute_eq:
  assumes "wf_table t"
  shows "get_absolute t a =
    (if evicted t < a \<and> a \<le> dt_insert_count t then Some (entry_pair (dt_entries t ! (a - evicted t - 1)))
     else None)"
  using assms
  by (auto simp: get_absolute_def oldest_absolute_def evicted_def entry_pair_def wf_table_def Let_def)

lemma evicted_drop:
  assumes "wf_table t" and "k \<le> length (dt_entries t)"
  shows "evicted (with_entries t (drop k (dt_entries t))) = evicted t + k"
  using assms by (auto simp: evicted_def wf_table_def)

lemma get_absolute_drop:
  assumes "wf_table t" and "k \<le> length (dt_entries t)"
  shows "get_absolute (with_entries t (drop k (dt_entries t))) a =
    (if evicted t + k < a then get_absolute t a else None)"
proof -
  have "dt_entries t ! (k + (a - (evicted t + k) - 1)) = dt_entries t ! (a - evicted t - 1)"
    if "evicted t + k < a"
    using that by (intro arg_cong [where f = "(!) (dt_entries t)"]) simp
  then show ?thesis
    using assms wf_with_entries_drop [OF assms(1), of k]
    by (simp add: get_absolute_eq evicted_drop)
qed

lemma get_absolute_push:
  assumes "wf_table t" and "dt_size t + entry_size name val \<le> dt_max_capacity t"
    and "dt_insert_count t < u64_MAX"
  shows "get_absolute (push_entry name val t) a =
    (if a = dt_insert_count t + 1 then Some (name, val) else get_absolute t a)"
proof -
  let ?t = "push_entry name val t"
  have wf: "wf_table ?t"
    using assms(1,2) by (rule wf_push_entry)
  have ic: "dt_insert_count ?t = dt_insert_count t + 1" and ev: "evicted ?t = evicted t"
    and es: "dt_entries ?t = dt_entries t @ [\<lparr>de_name = name, de_value = val\<rparr>]"
    using assms(3) by (simp_all add: push_entry_def evicted_def sat_add_def)
  have len: "length (dt_entries t) = dt_insert_count t - evicted t" "evicted t \<le> dt_insert_count t"
    using assms(1) by (auto simp: wf_table_def evicted_def)
  show ?thesis
    unfolding get_absolute_eq [OF wf] get_absolute_eq [OF assms(1)] ic ev es
    using len by (auto simp: nth_append entry_pair_def)
qed

lemma get_absolute_insert:
  assumes "wf_table t" and "insert_with_ack_floor name val fl t = (t', Inr ())" and "dt_insert_count t < u64_MAX"
  obtains k where "k \<le> length (dt_entries t)" "dt_insert_count t' = dt_insert_count t + 1"
    "evicted t' = evicted t + k" "dt_max_capacity t' = dt_max_capacity t"
    "\<forall>f. fl = Some f \<longrightarrow> evicted t + k \<le> max f (evicted t)"
    "\<And>a. get_absolute t' a = (if a = dt_insert_count t + 1 then Some (name, val)
        else if evicted t + k < a then get_absolute t a else None)"
proof -
  obtain k where k: "k \<le> length (dt_entries t)" "wf_table (with_entries t (drop k (dt_entries t)))"
    "t' = push_entry name val (with_entries t (drop k (dt_entries t)))"
    "dt_size (with_entries t (drop k (dt_entries t))) + entry_size name val \<le> dt_capacity t"
    "\<forall>f. fl = Some f \<longrightarrow> evicted t + k \<le> max f (evicted t)"
    using insert_Ok_table [OF assms(1,2)] by metis
  have "dt_capacity t \<le> dt_max_capacity t"
    using assms(1) by (simp add: wf_table_def)
  with k(4) have "dt_size (with_entries t (drop k (dt_entries t))) + entry_size name val
      \<le> dt_max_capacity (with_entries t (drop k (dt_entries t)))"
    by simp
  from get_absolute_push [OF k(2) this] assms(3)
  have "get_absolute t' a = (if a = dt_insert_count t + 1 then Some (name, val)
        else if evicted t + k < a then get_absolute t a else None)" for a
    using get_absolute_drop [OF assms(1) k(1)] k(3) by simp
  moreover have "dt_insert_count t' = dt_insert_count t + 1" and "dt_max_capacity t' = dt_max_capacity t"
    using assms(3) k(3) by (simp_all add: push_entry_def sat_add_def)
  moreover have "evicted t' = evicted t + k"
    using evicted_drop [OF assms(1) k(1)] assms(3) k(3) by (simp add: evicted_def push_entry_def sat_add_def)
  ultimately show ?thesis
    using k(1,5) that by blast
qed

text \<open>Sequences of operations on one table, as an encoder or a decoder performs them.\<close>

datatype table_op = Op_Set_Capacity nat "nat option" | Op_Insert bytes bytes "nat option"

fun apply_op :: "table_op \<Rightarrow> dynamic_table \<Rightarrow> dynamic_table" where
  "apply_op (Op_Set_Capacity c fl) t = fst (set_capacity_with_ack_floor c fl t)"
| "apply_op (Op_Insert name val fl) t = fst (insert_with_ack_floor name val fl t)"

fun op_floor :: "table_op \<Rightarrow> nat option" where
  "op_floor (Op_Set_Capacity c fl) = fl"
| "op_floor (Op_Insert name val fl) = fl"

lemma wf_apply_op [inv_intros]: "wf_table t \<Longrightarrow> wf_table (apply_op op t)"
  by (cases op) (auto intro: wf_set_capacity wf_insert simp: prod_eq_iff)

lemma apply_op_fits:
  assumes "wf_table t" and "op_floor op = None" and "dt_size t \<le> dt_capacity t"
  shows "dt_size (apply_op op t) \<le> dt_capacity (apply_op op t)"
proof (cases op)
  case (Op_Set_Capacity c fl)
  obtain t' r where op: "set_capacity_with_ack_floor c fl t = (t', r)"
    by (cases "set_capacity_with_ack_floor c fl t")
  have "wf_table t'"
    using assms(1) op by (rule wf_set_capacity)
  then show ?thesis
    using set_capacity_with_ack_floor_spec [OF assms(1) op] assms(2,3) Op_Set_Capacity op
    by (auto simp: wf_table_def)
next
  case (Op_Insert name val fl)
  obtain t' r where op: "insert_with_ack_floor name val fl t = (t', r)"
    by (cases "insert_with_ack_floor name val fl t")
  show ?thesis
  proof (cases r)
    case (Inl e)
    then show ?thesis
      using insert_with_ack_floor_Err [OF assms(1), of name val fl t' e] op assms(2,3) Op_Insert by auto
  next
    case (Inr u)
    then have "insert_with_ack_floor name val fl t = (t', Inr ())"
      using op by simp
    then obtain k where k: "t' = push_entry name val (with_entries t (drop k (dt_entries t)))"
        "dt_size (with_entries t (drop k (dt_entries t))) + entry_size name val \<le> dt_capacity t"
      using insert_Ok_table [OF assms(1)] by metis
    then show ?thesis
      using Op_Insert op by (auto simp: push_entry_def sat_add_def)
  qed
qed

lemma apply_op_max_capacity:
  assumes wf: "wf_table t"
  shows "dt_max_capacity (apply_op op t) = dt_max_capacity t"
proof (cases op)
  case (Op_Set_Capacity c fl)
  obtain t' r where "set_capacity_with_ack_floor c fl t = (t', r)"
    by (cases "set_capacity_with_ack_floor c fl t")
  then show ?thesis
    using set_capacity_with_ack_floor_spec [OF wf] Op_Set_Capacity by fastforce
next
  case (Op_Insert name val fl)
  obtain t' r where op: "insert_with_ack_floor name val fl t = (t', r)"
    by (cases "insert_with_ack_floor name val fl t")
  show ?thesis
  proof (cases r)
    case (Inl e)
    then show ?thesis
      using insert_with_ack_floor_Err [OF wf, of name val fl t' e] op Op_Insert by auto
  next
    case (Inr u)
    then show ?thesis
      using insert_with_ack_floor_Ok [OF wf, of name val fl t'] op Op_Insert by (simp add: push_entry_def)
  qed
qed

lemma wf_fold_ops:
  assumes "wf_table t"
  shows "wf_table (fold apply_op ops t) \<and> dt_max_capacity (fold apply_op ops t) = dt_max_capacity t"
  using assms by (induction ops arbitrary: t) (auto simp: wf_apply_op apply_op_max_capacity)

lemma fold_ops_fits:
  assumes "wf_table t" and "dt_size t \<le> dt_capacity t" and "\<forall>op \<in> set ops. op_floor op = None"
  shows "dt_size (fold apply_op ops t) \<le> dt_capacity (fold apply_op ops t)"
  using assms by (induction ops arbitrary: t) (auto simp: wf_apply_op apply_op_fits)

section \<open>Properties\<close>

text \<open>
  C14. The dynamic table stays within its memory bound: after any sequence of capacity changes and
  inserts, failing ones included, the recorded size is the sum of the entry sizes and at most the
  maximal capacity, and a table used without an acknowledgement floor, as the decoder uses it,
  never holds more than its current capacity.
\<close>

theorem dynamic_table_bounded:
  assumes "max_capacity < usize_MAX" and "t = fold apply_op ops (dynamic_table_new max_capacity)"
  shows "dt_size t = total_size (dt_entries t) \<and> dt_size t \<le> max_capacity \<and> dt_capacity t \<le> max_capacity
    \<and> ((\<forall>op \<in> set ops. op_floor op = None) \<longrightarrow> dt_size t \<le> dt_capacity t)"
proof -
  have wf: "wf_table (dynamic_table_new max_capacity)"
    using assms(1) by (rule wf_dynamic_table_new)
  show ?thesis
    using wf_fold_ops [OF wf, of ops] fold_ops_fits [OF wf, of ops] assms(2)
    by (auto simp: wf_table_def dynamic_table_new_def)
qed

theorem dynamic_table_bounded_witness:
  "(4096 :: nat) < usize_MAX \<and>
   dt_size (fold apply_op [Op_Set_Capacity 64 None, Op_Insert [1] [2] None, Op_Insert [3] [4] None]
     (dynamic_table_new 4096)) \<le> 4096"
  using dynamic_table_bounded [of 4096 _
      "[Op_Set_Capacity 64 None, Op_Insert [1] [2] None, Op_Insert [3] [4] None]", OF _ refl]
  by (simp add: usize_MAX_def)

text \<open>
  Absolute indices are stable: a successful insert is found at the next index, an entry that is
  still in the table afterwards is the one that had its index before, and an insert with an
  acknowledgement floor, whether it succeeds or fails, removes no entry above the floor.
\<close>

theorem insert_index_stable:
  assumes "wf_table t" and "dt_insert_count t < u64_MAX"
    and "insert_with_ack_floor name val fl t = (t', r)"
  shows "(r = Inr () \<longrightarrow> get_absolute t' (dt_insert_count t + 1) = Some (name, val))
    \<and> (\<forall>a e. a \<le> dt_insert_count t \<longrightarrow> get_absolute t' a = Some e \<longrightarrow> get_absolute t a = Some e)
    \<and> (\<forall>f a e. fl = Some f \<longrightarrow> f < a \<longrightarrow> get_absolute t a = Some e \<longrightarrow> get_absolute t' a = Some e)"
proof (cases r)
  case (Inl err)
  then obtain k where "k \<le> length (dt_entries t)" "t' = with_entries t (drop k (dt_entries t))"
      "\<forall>f. fl = Some f \<longrightarrow> 0 < k \<longrightarrow> evicted t + k \<le> f"
    using insert_with_ack_floor_Err [OF assms(1)] assms(3) by blast
  then show ?thesis
    using Inl get_absolute_drop [OF assms(1), of k] get_absolute_eq [OF assms(1)]
    by (cases "k = 0") (auto split: if_splits)
next
  case (Inr u)
  then have "insert_with_ack_floor name val fl t = (t', Inr ())"
    using assms(3) by simp
  from get_absolute_insert [OF assms(1) this assms(2)] obtain k where
    k: "\<forall>f. fl = Some f \<longrightarrow> evicted t + k \<le> max f (evicted t)"
    and get: "\<And>a. get_absolute t' a = (if a = dt_insert_count t + 1 then Some (name, val)
        else if evicted t + k < a then get_absolute t a else None)"
    by metis
  show ?thesis
    using Inr k get_absolute_eq [OF assms(1)] unfolding get by (auto split: if_splits)
qed

theorem insert_index_stable_witness:
  "\<exists>t t'. wf_table t \<and> dt_insert_count t < u64_MAX
     \<and> insert_with_ack_floor [3] [4] (Some 0) t = (t', Inr ())
     \<and> get_absolute t' (dt_insert_count t + 1) = Some ([3], [4])"
proof -
  let ?t = "apply_op (Op_Set_Capacity 64 None) (dynamic_table_new 100)"
  have "wf_table ?t"
    by (intro wf_apply_op wf_dynamic_table_new) (simp add: usize_MAX_def)
  moreover have "?t = (dynamic_table_new 100)\<lparr>dt_capacity := 64\<rparr>"
    by (simp add: set_capacity_with_ack_floor_def evict_to_fit_def evict_loop.simps [of 0]
        dynamic_table_new_def sat_add_def usize_MAX_def)
  moreover from this have "snd (insert_with_ack_floor [3] [4] (Some 0) ?t) = Inr ()" and "dt_insert_count ?t < u64_MAX"
    by (simp_all add: insert_with_ack_floor_def entry_size_def sat_add_def usize_MAX_def u64_MAX_def
        evict_to_fit_def evict_loop.simps [of 34] dynamic_table_new_def)
  ultimately show ?thesis
    using insert_index_stable [of ?t "[3]" "[4]" "Some 0"] by (metis prod.collapse)
qed

text \<open>
  Relative and post-base indexing cover the table with no gap and no overlap: for every base,
  each live entry is named by exactly one of the two forms, the relative one iff its absolute index
  is at most the base, and both forms resolve to it.
\<close>

theorem relative_post_base_cover:
  assumes "get_absolute t a = Some e" and "a \<le> u64_MAX"
  shows "if a \<le> base then get_relative t (base - a) base = Some e \<and> (\<forall>p. base + p + 1 \<noteq> a)
    else get_post_base t (a - base - 1) base = Some e \<and> (\<forall>r \<le> base. base - r \<noteq> a)"
  using assms by (auto simp: get_relative_def get_post_base_def checked_sub_def checked_add_def)

theorem relative_post_base_cover_witness:
  "let t = push_entry [3] [4] (dynamic_table_new 100) in
   get_absolute t 1 = Some ([3], [4]) \<and> (1 :: nat) \<le> u64_MAX \<and> get_post_base t (1 - 0 - 1) 0 = Some ([3], [4])"
proof -
  let ?t = "push_entry [3] [4] (dynamic_table_new 100)"
  have "get_absolute ?t 1 = Some ([3], [4])" and "(1 :: nat) \<le> u64_MAX"
    by (simp_all add: get_absolute_def oldest_absolute_def push_entry_def dynamic_table_new_def sat_add_def u64_MAX_def)
  then show ?thesis
    using relative_post_base_cover [of ?t 1 "([3], [4])" 0] by simp
qed

end
