(* ===== verification/Qpack_Static.thy ===== *)
theory Qpack_Static
  imports Wt_Prelude
begin

text \<open>The QPACK static table, \<^verbatim>\<open>QPACK_STATIC_TABLE\<close> in \<^verbatim>\<open>crates/wasm/src/h3.rs\<close>.\<close>

section \<open>Definitions\<close>

definition QPACK_STATIC_TABLE :: "(bytes \<times> bytes) list" where
  "QPACK_STATIC_TABLE =
    [
     (str_lit '':authority'', str_lit ''''),
     (str_lit '':path'', str_lit ''/''),
     (str_lit ''age'', str_lit ''0''),
     (str_lit ''content-disposition'', str_lit ''''),
     (str_lit ''content-length'', str_lit ''0''),
     (str_lit ''cookie'', str_lit ''''),
     (str_lit ''date'', str_lit ''''),
     (str_lit ''etag'', str_lit ''''),
     (str_lit ''if-modified-since'', str_lit ''''),
     (str_lit ''if-none-match'', str_lit ''''),
     (str_lit ''last-modified'', str_lit ''''),
     (str_lit ''link'', str_lit ''''),
     (str_lit ''location'', str_lit ''''),
     (str_lit ''referer'', str_lit ''''),
     (str_lit ''set-cookie'', str_lit ''''),
     (str_lit '':method'', str_lit ''CONNECT''),
     (str_lit '':method'', str_lit ''DELETE''),
     (str_lit '':method'', str_lit ''GET''),
     (str_lit '':method'', str_lit ''HEAD''),
     (str_lit '':method'', str_lit ''OPTIONS''),
     (str_lit '':method'', str_lit ''POST''),
     (str_lit '':method'', str_lit ''PUT''),
     (str_lit '':scheme'', str_lit ''http''),
     (str_lit '':scheme'', str_lit ''https''),
     (str_lit '':status'', str_lit ''103''),
     (str_lit '':status'', str_lit ''200''),
     (str_lit '':status'', str_lit ''304''),
     (str_lit '':status'', str_lit ''404''),
     (str_lit '':status'', str_lit ''503''),
     (str_lit ''accept'', str_lit ''*/*''),
     (str_lit ''accept'', str_lit ''application/dns-message''),
     (str_lit ''accept-encoding'', str_lit ''gzip, deflate, br''),
     (str_lit ''accept-ranges'', str_lit ''bytes''),
     (str_lit ''access-control-allow-headers'', str_lit ''cache-control''),
     (str_lit ''access-control-allow-headers'', str_lit ''content-type''),
     (str_lit ''access-control-allow-origin'', str_lit ''*''),
     (str_lit ''cache-control'', str_lit ''max-age=0''),
     (str_lit ''cache-control'', str_lit ''max-age=2592000''),
     (str_lit ''cache-control'', str_lit ''max-age=604800''),
     (str_lit ''cache-control'', str_lit ''no-cache''),
     (str_lit ''cache-control'', str_lit ''no-store''),
     (str_lit ''cache-control'', str_lit ''public, max-age=31536000''),
     (str_lit ''content-encoding'', str_lit ''br''),
     (str_lit ''content-encoding'', str_lit ''gzip''),
     (str_lit ''content-type'', str_lit ''application/dns-message''),
     (str_lit ''content-type'', str_lit ''application/javascript''),
     (str_lit ''content-type'', str_lit ''application/json''),
     (str_lit ''content-type'', str_lit ''application/x-www-form-urlencoded''),
     (str_lit ''content-type'', str_lit ''image/gif''),
     (str_lit ''content-type'', str_lit ''image/jpeg''),
     (str_lit ''content-type'', str_lit ''image/png''),
     (str_lit ''content-type'', str_lit ''text/css''),
     (str_lit ''content-type'', str_lit ''text/html; charset=utf-8''),
     (str_lit ''content-type'', str_lit ''text/plain''),
     (str_lit ''content-type'', str_lit ''text/plain;charset=utf-8''),
     (str_lit ''range'', str_lit ''bytes=0-''),
     (str_lit ''strict-transport-security'', str_lit ''max-age=31536000''),
     (str_lit ''strict-transport-security'', str_lit ''max-age=31536000; includesubdomains''),
     (str_lit ''strict-transport-security'', str_lit ''max-age=31536000; includesubdomains; preload''),
     (str_lit ''vary'', str_lit ''accept-encoding''),
     (str_lit ''vary'', str_lit ''origin''),
     (str_lit ''x-content-type-options'', str_lit ''nosniff''),
     (str_lit ''x-xss-protection'', str_lit ''1; mode=block''),
     (str_lit '':status'', str_lit ''100''),
     (str_lit '':status'', str_lit ''204''),
     (str_lit '':status'', str_lit ''206''),
     (str_lit '':status'', str_lit ''302''),
     (str_lit '':status'', str_lit ''400''),
     (str_lit '':status'', str_lit ''403''),
     (str_lit '':status'', str_lit ''421''),
     (str_lit '':status'', str_lit ''425''),
     (str_lit '':status'', str_lit ''500''),
     (str_lit ''accept-language'', str_lit ''''),
     (str_lit ''access-control-allow-credentials'', str_lit ''FALSE''),
     (str_lit ''access-control-allow-credentials'', str_lit ''TRUE''),
     (str_lit ''access-control-allow-headers'', str_lit ''*''),
     (str_lit ''access-control-allow-methods'', str_lit ''get''),
     (str_lit ''access-control-allow-methods'', str_lit ''get, post, options''),
     (str_lit ''access-control-allow-methods'', str_lit ''options''),
     (str_lit ''access-control-expose-headers'', str_lit ''content-length''),
     (str_lit ''access-control-request-headers'', str_lit ''content-type''),
     (str_lit ''access-control-request-method'', str_lit ''get''),
     (str_lit ''access-control-request-method'', str_lit ''post''),
     (str_lit ''alt-svc'', str_lit ''clear''),
     (str_lit ''authorization'', str_lit ''''),
     (str_lit ''content-security-policy'', str_lit (''script-src '' @ [CHR 0x27] @ ''none'' @ [CHR 0x27] @ ''; object-src '' @ [CHR 0x27] @ ''none'' @ [CHR 0x27]
        @ ''; base-uri '' @ [CHR 0x27] @ ''none'' @ [CHR 0x27])),
     (str_lit ''early-data'', str_lit ''1''),
     (str_lit ''expect-ct'', str_lit ''''),
     (str_lit ''forwarded'', str_lit ''''),
     (str_lit ''if-range'', str_lit ''''),
     (str_lit ''origin'', str_lit ''''),
     (str_lit ''purpose'', str_lit ''prefetch''),
     (str_lit ''server'', str_lit ''''),
     (str_lit ''timing-allow-origin'', str_lit ''*''),
     (str_lit ''upgrade-insecure-requests'', str_lit ''1''),
     (str_lit ''user-agent'', str_lit ''''),
     (str_lit ''x-forwarded-for'', str_lit ''''),
     (str_lit ''x-frame-options'', str_lit ''deny''),
     (str_lit ''x-frame-options'', str_lit ''sameorigin'')]"

definition qpack_static :: "u64 \<Rightarrow> (bytes \<times> bytes) option" where
  "qpack_static index =
     (case usize_try_from index of
        None \<Rightarrow> None
      | Some i \<Rightarrow> if i < length QPACK_STATIC_TABLE then Some (QPACK_STATIC_TABLE ! i) else None)"

lemma length_QPACK_STATIC_TABLE: "length QPACK_STATIC_TABLE = 99"
  by (simp add: QPACK_STATIC_TABLE_def)

lemma qpack_static_eq_None: "qpack_static i = None \<longleftrightarrow> 99 \<le> unat i"
  by (auto simp: qpack_static_def usize_try_from_def usize_MAX_def length_QPACK_STATIC_TABLE)

end
