(* ===== verification/H3_Frames.thy ===== *)
theory H3_Frames
  imports Varint
begin

text \<open>
  HTTP/3 framing, \<^verbatim>\<open>crates/wasm/src/h3.rs\<close> and the frame readers of \<^verbatim>\<open>endpoint.rs\<close>: the control
  stream preamble and its SETTINGS frame, the reader of the peer's control stream, the frame header
  decoder and the datagram prefix.
\<close>

section \<open>Definitions\<close>

definition stream_type_CONTROL :: u64 where "stream_type_CONTROL = 0x00"
definition stream_type_QPACK_ENCODER :: u64 where "stream_type_QPACK_ENCODER = 0x02"
definition stream_type_QPACK_DECODER :: u64 where "stream_type_QPACK_DECODER = 0x03"
definition stream_type_WT_UNI :: u64 where "stream_type_WT_UNI = 0x54"

definition frame_DATA :: u64 where "frame_DATA = 0x00"
definition frame_HEADERS :: u64 where "frame_HEADERS = 0x01"
definition frame_SETTINGS :: u64 where "frame_SETTINGS = 0x04"
definition frame_WT_BIDI :: u64 where "frame_WT_BIDI = 0x41"

definition setting_QPACK_MAX_TABLE_CAPACITY :: u64 where "setting_QPACK_MAX_TABLE_CAPACITY = 0x01"
definition setting_QPACK_BLOCKED_STREAMS :: u64 where "setting_QPACK_BLOCKED_STREAMS = 0x07"
definition setting_ENABLE_CONNECT_PROTOCOL :: u64 where "setting_ENABLE_CONNECT_PROTOCOL = 0x08"
definition setting_H3_DATAGRAM :: u64 where "setting_H3_DATAGRAM = 0x33"
definition setting_ENABLE_WEBTRANSPORT :: u64 where "setting_ENABLE_WEBTRANSPORT = 0x2b603742"
definition setting_WEBTRANSPORT_MAX_SESSIONS :: u64 where "setting_WEBTRANSPORT_MAX_SESSIONS = 0xc671706a"

definition DEFAULT_QPACK_MAX_TABLE_CAPACITY :: u64 where "DEFAULT_QPACK_MAX_TABLE_CAPACITY = 4096"
definition DEFAULT_QPACK_BLOCKED_STREAMS :: u64 where "DEFAULT_QPACK_BLOCKED_STREAMS = 16"

record qpack_local_settings =
  max_table_capacity :: u64
  max_blocked_streams :: u64

definition qpack_local_settings_default :: qpack_local_settings where
  "qpack_local_settings_default =
     \<lparr>max_table_capacity = DEFAULT_QPACK_MAX_TABLE_CAPACITY,
      max_blocked_streams = DEFAULT_QPACK_BLOCKED_STREAMS\<rparr>"

definition qpack_local_settings_disabled :: qpack_local_settings where
  "qpack_local_settings_disabled = \<lparr>max_table_capacity = 0, max_blocked_streams = 0\<rparr>"

definition encode_pairs :: "(u64 \<times> u64) list \<Rightarrow> bytes \<Rightarrow> bytes" where
  "encode_pairs pairs payload = fold (\<lambda>(hid, v) p. varint_encode v (varint_encode hid p)) pairs payload"

definition preamble_pairs :: "u64 \<Rightarrow> qpack_local_settings \<Rightarrow> (u64 \<times> u64) list" where
  "preamble_pairs max_sessions qpack =
     [(setting_QPACK_MAX_TABLE_CAPACITY, max_table_capacity qpack),
      (setting_QPACK_BLOCKED_STREAMS, max_blocked_streams qpack),
      (setting_ENABLE_CONNECT_PROTOCOL, 1),
      (setting_H3_DATAGRAM, 1),
      (setting_ENABLE_WEBTRANSPORT, 1),
      (setting_WEBTRANSPORT_MAX_SESSIONS, max_sessions)]"

definition encode_control_preamble_with :: "u64 \<Rightarrow> qpack_local_settings \<Rightarrow> bytes" where
  "encode_control_preamble_with max_sessions qpack =
     (let payload = encode_pairs (preamble_pairs max_sessions qpack) [];
          out = varint_encode stream_type_CONTROL [];
          out = varint_encode frame_SETTINGS out;
          out = varint_encode (of_nat (length payload)) out
      in out @ payload)"

definition encode_control_preamble :: "u64 \<Rightarrow> bytes" where
  "encode_control_preamble max_sessions =
     encode_control_preamble_with max_sessions qpack_local_settings_disabled"

record peer_settings =
  ps_webtransport :: bool
  ps_h3_datagram :: bool
  ps_connect_protocol :: bool
  ps_max_sessions :: u64
  ps_qpack_max_table_capacity :: u64
  ps_qpack_blocked_streams :: u64

definition peer_settings_default :: peer_settings where
  "peer_settings_default =
     \<lparr>ps_webtransport = False, ps_h3_datagram = False, ps_connect_protocol = False,
      ps_max_sessions = 0, ps_qpack_max_table_capacity = 0, ps_qpack_blocked_streams = 0\<rparr>"

definition apply_setting :: "u64 \<times> u64 \<Rightarrow> peer_settings \<Rightarrow> peer_settings" where
  "apply_setting = (\<lambda>(hid, val) s.
     if hid = setting_ENABLE_WEBTRANSPORT then s\<lparr>ps_webtransport := (val = 1)\<rparr>
     else if hid = setting_H3_DATAGRAM then s\<lparr>ps_h3_datagram := (val = 1)\<rparr>
     else if hid = setting_ENABLE_CONNECT_PROTOCOL then s\<lparr>ps_connect_protocol := (val = 1)\<rparr>
     else if hid = setting_WEBTRANSPORT_MAX_SESSIONS then s\<lparr>ps_max_sessions := val\<rparr>
     else if hid = setting_QPACK_MAX_TABLE_CAPACITY then s\<lparr>ps_qpack_max_table_capacity := val\<rparr>
     else if hid = setting_QPACK_BLOCKED_STREAMS then s\<lparr>ps_qpack_blocked_streams := val\<rparr>
     else s)"

function parse_settings_loop :: "peer_settings \<Rightarrow> bytes \<Rightarrow> peer_settings option" where
  "parse_settings_loop s payload =
     (if payload = [] then Some s
      else case varint_decode payload of
        None \<Rightarrow> None
      | Some (hid, n1) \<Rightarrow>
          case varint_decode (drop n1 payload) of
            None \<Rightarrow> None
          | Some (val, n2) \<Rightarrow>
              parse_settings_loop (apply_setting (hid, val) s) (drop n2 (drop n1 payload)))"
  by pat_completeness auto
termination
  by (relation "measure (length \<circ> snd)") (auto dest: varint_decode_bound)

declare parse_settings_loop.simps [simp del]

definition parse_settings :: "bytes \<Rightarrow> peer_settings option" where
  "parse_settings payload = parse_settings_loop peer_settings_default payload"

definition frame_wrap :: "u64 \<Rightarrow> bytes \<Rightarrow> bytes" where
  "frame_wrap frame_type payload =
     varint_encode (of_nat (length payload)) (varint_encode frame_type []) @ payload"

definition MAX_H3_FRAME_SIZE :: u64 where
  "MAX_H3_FRAME_SIZE = push_bit 20 1"

datatype frame_hdr = Hdr_Incomplete | Hdr_TooLarge | Hdr_Ready nat nat u64

definition decode_frame_header :: "bytes \<Rightarrow> frame_hdr" where
  "decode_frame_header buf =
     (case varint_decode buf of
        None \<Rightarrow> Hdr_Incomplete
      | Some (ftype, n1) \<Rightarrow>
          case varint_decode (drop n1 buf) of
            None \<Rightarrow> Hdr_Incomplete
          | Some (flen, n2) \<Rightarrow>
              if flen > MAX_H3_FRAME_SIZE then Hdr_TooLarge
              else
                let header = n1 + n2; tot = header + unat flen in
                if length buf < tot then Hdr_Incomplete
                else Hdr_Ready header tot ftype)"

text \<open>
  The part of a session that reads the control stream: the bytes not consumed yet and the last
  SETTINGS that parsed.
\<close>

record control_state =
  control_rx :: bytes
  cs_peer_settings :: "peer_settings option"

function parse_control :: "control_state \<Rightarrow> control_state \<times> bool" where
  "parse_control s =
     (case varint_decode (control_rx s) of
        None \<Rightarrow> (s, False)
      | Some (ftype, n1) \<Rightarrow>
          case varint_decode (drop n1 (control_rx s)) of
            None \<Rightarrow> (s, False)
          | Some (flen, n2) \<Rightarrow>
              if flen > MAX_H3_FRAME_SIZE then (s, True)
              else if length (control_rx s) < n1 + n2 + unat flen then (s, False)
              else
                parse_control
                  (let s' =
                     (if ftype = frame_SETTINGS then
                        (case parse_settings (drop (n1 + n2) (take (n1 + n2 + unat flen) (control_rx s))) of
                           Some ps \<Rightarrow> s\<lparr>cs_peer_settings := Some ps\<rparr>
                         | None \<Rightarrow> s)
                      else s)
                   in s'\<lparr>control_rx := drop (n1 + n2 + unat flen) (control_rx s')\<rparr>))"
  by pat_completeness auto
termination
  by (relation "measure (length \<circ> control_rx)")
    (auto simp: Let_def dest!: varint_decode_bound split: option.splits)

declare parse_control.simps [simp del]

definition datagram_prefix_len :: "u64 \<Rightarrow> nat" where
  "datagram_prefix_len connect_stream_id = varint_width (connect_stream_id div 4)"

definition wrap_datagram :: "u64 \<Rightarrow> bytes \<Rightarrow> bytes" where
  "wrap_datagram connect_stream_id payload =
     varint_encode (connect_stream_id div 4) [] @ payload"

definition unwrap_datagram :: "bytes \<Rightarrow> (u64 \<times> bytes) option" where
  "unwrap_datagram buf =
     (case varint_decode buf of
        None \<Rightarrow> None
      | Some (qsid, n) \<Rightarrow> Some (qsid, drop n buf))"

section \<open>Settings\<close>

lemmas h3_consts = stream_type_CONTROL_def frame_SETTINGS_def frame_HEADERS_def frame_DATA_def
  setting_QPACK_MAX_TABLE_CAPACITY_def setting_QPACK_BLOCKED_STREAMS_def
  setting_ENABLE_CONNECT_PROTOCOL_def setting_H3_DATAGRAM_def setting_ENABLE_WEBTRANSPORT_def
  setting_WEBTRANSPORT_MAX_SESSIONS_def

definition pair_bytes :: "u64 \<times> u64 \<Rightarrow> bytes" where
  "pair_bytes p = varint_bytes (fst p) @ varint_bytes (snd p)"

definition pair_ok :: "u64 \<times> u64 \<Rightarrow> bool" where
  "pair_ok p \<longleftrightarrow> varint_ok (fst p) \<and> varint_ok (snd p)"

lemma encode_pairs_eq: "encode_pairs pairs payload = payload @ concat (map pair_bytes pairs)"
  by (induction pairs arbitrary: payload)
    (auto simp: encode_pairs_def pair_bytes_def wire_simps)

lemma parse_settings_loop_step:
  assumes "varint_decode payload = Some (hid, n1)" and "varint_decode (drop n1 payload) = Some (val, n2)"
  shows "parse_settings_loop s payload = parse_settings_loop (apply_setting (hid, val) s) (drop (n1 + n2) payload)"
proof -
  have "payload \<noteq> []"
    using varint_decode_bound [OF assms(1)] by auto
  then show ?thesis
    using assms by (simp add: parse_settings_loop.simps [of s payload] add.commute)
qed

lemma parse_settings_loop_pairs:
  assumes "\<forall>p \<in> set pairs. pair_ok p"
  shows "parse_settings_loop s (concat (map pair_bytes pairs)) = Some (fold apply_setting pairs s)"
  using assms
proof (induction pairs arbitrary: s)
  case Nil
  then show ?case
    by (simp add: parse_settings_loop.simps)
next
  case (Cons p pairs)
  let ?rest = "concat (map pair_bytes pairs)"
  obtain hid val where p: "p = (hid, val)"
    by (cases p)
  with Cons.prems have ok: "varint_ok hid" "varint_ok val"
    by (auto simp: pair_ok_def)
  have "varint_decode (varint_bytes hid @ varint_bytes val @ ?rest) = Some (hid, length (varint_bytes hid))"
    and "varint_decode (drop (length (varint_bytes hid)) (varint_bytes hid @ varint_bytes val @ ?rest))
      = Some (val, length (varint_bytes val))"
    using varint.dec_enc [OF ok(1)] varint.dec_enc [OF ok(2)] by auto
  from parse_settings_loop_step [OF this] show ?case
    using Cons by (simp add: p pair_bytes_def [of "(hid, val)"])
qed

lemma length_pair_bytes: "length (pair_bytes p) \<le> 16"
  using varint_width_bounds(2) [of "fst p"] varint_width_bounds(2) [of "snd p"]
  unfolding pair_bytes_def length_append length_varint_bytes by linarith

lemma length_pairs_bytes: "length (concat (map pair_bytes pairs)) \<le> 16 * length pairs"
proof (induction pairs)
  case (Cons p pairs)
  then show ?case
    using length_pair_bytes [of p] by simp
qed simp

section \<open>Frame headers\<close>

lemma decode_frame_header_bound:
  assumes "decode_frame_header buf = Hdr_Ready header tot ftype"
  shows "0 < header \<and> header \<le> tot \<and> tot \<le> length buf"
  using assms
  by (auto simp: decode_frame_header_def Let_def dest!: varint_decode_bound
      split: option.splits if_splits)

lemma decode_frame_header_eq:
  assumes "varint_decode buf = Some (ftype, n1)" and "varint_decode (drop n1 buf) = Some (flen, n2)"
  shows "decode_frame_header buf =
    (if flen > MAX_H3_FRAME_SIZE then Hdr_TooLarge
     else if length buf < n1 + n2 + unat flen then Hdr_Incomplete
     else Hdr_Ready (n1 + n2) (n1 + n2 + unat flen) ftype)"
  by (simp add: decode_frame_header_def assms Let_def)

lemma decode_frame_header_extend:
  assumes "decode_frame_header buf \<noteq> Hdr_Incomplete"
  shows "decode_frame_header (buf @ suf) = decode_frame_header buf"
proof -
  from assms obtain ftype n1 where d1: "varint_decode buf = Some (ftype, n1)"
    by (auto simp: decode_frame_header_def split: option.splits)
  with assms obtain flen n2 where d2: "varint_decode (drop n1 buf) = Some (flen, n2)"
    by (auto simp: decode_frame_header_def split: option.splits)
  have e1: "varint_decode (buf @ suf) = Some (ftype, n1)"
    using d1 by (rule varint_decode_extend)
  have "drop n1 (buf @ suf) = drop n1 buf @ suf"
    using varint_decode_bound [OF d1] by simp
  then have e2: "varint_decode (drop n1 (buf @ suf)) = Some (flen, n2)"
    using varint_decode_extend [OF d2] by simp
  show ?thesis
    using assms unfolding decode_frame_header_eq [OF d1 d2] decode_frame_header_eq [OF e1 e2]
    by (auto split: if_splits)
qed

lemma unat_MAX_H3_FRAME_SIZE: "unat MAX_H3_FRAME_SIZE = 2 ^ 20"
  by (simp add: MAX_H3_FRAME_SIZE_def)

lemma incomplete_frame_short:
  assumes "decode_frame_header buf = Hdr_Incomplete"
  shows "length buf < 16 + 2 ^ 20"
proof (cases "varint_decode buf")
  case None
  then show ?thesis
    using varint_decode_None_short [of buf] by simp
next
  case (Some kn)
  then obtain ftype n1 where d1: "varint_decode buf = Some (ftype, n1)"
    by (cases kn) auto
  have n1: "n1 \<le> 8"
    using varint_decode_le_8 [OF d1] .
  show ?thesis
  proof (cases "varint_decode (drop n1 buf)")
    case None
    with varint_decode_None_short [of "drop n1 buf"] n1 show ?thesis
      by simp
  next
    case (Some ln)
    then obtain flen n2 where d2: "varint_decode (drop n1 buf) = Some (flen, n2)"
      by (cases ln) auto
    have "\<not> MAX_H3_FRAME_SIZE < flen" and "length buf < n1 + n2 + unat flen"
      using assms unfolding decode_frame_header_eq [OF d1 d2] by (auto split: if_splits)
    with n1 varint_decode_le_8 [OF d2] show ?thesis
      by (simp add: word_less_nat_alt unat_MAX_H3_FRAME_SIZE)
  qed
qed

lemma decode_frame_wrap:
  assumes "varint_ok ftype" and "length payload \<le> 2 ^ 20"
  shows "\<exists>header. decode_frame_header (frame_wrap ftype payload @ rest)
      = Hdr_Ready header (length (frame_wrap ftype payload)) ftype
    \<and> drop header (frame_wrap ftype payload) = payload"
proof -
  let ?len = "of_nat (length payload) :: u64" and ?buf = "frame_wrap ftype payload @ rest"
  let ?h1 = "length (varint_bytes ftype)" and ?h2 = "length (varint_bytes (of_nat (length payload)))"
  have len: "unat ?len = length payload"
    using assms(2) by (intro unat_length_u64) simp
  then have ok: "varint_ok ?len" and small: "\<not> ?len > MAX_H3_FRAME_SIZE"
    using assms(2) by (auto simp: varint_ok_def word_less_nat_alt unat_MAX_H3_FRAME_SIZE)
  have enc: "frame_wrap ftype payload = varint_bytes ftype @ varint_bytes ?len @ payload"
    by (simp add: frame_wrap_def wire_simps)
  have 1: "varint_decode ?buf = Some (ftype, ?h1)" and 2: "varint_decode (drop ?h1 ?buf) = Some (?len, ?h2)"
    using varint.dec_enc [OF assms(1), of "varint_bytes ?len @ payload @ rest"]
      varint.dec_enc [OF ok, of "payload @ rest"] by (simp_all add: enc)
  show ?thesis
    unfolding decode_frame_header_eq [OF 1 2] using small len
    by (intro exI [of _ "?h1 + ?h2"]) (simp add: enc)
qed

section \<open>The control stream as an incremental parser\<close>

definition control_settings :: "u64 \<Rightarrow> bytes \<Rightarrow> peer_settings option \<Rightarrow> peer_settings option" where
  "control_settings ftype payload ps =
     (if ftype = frame_SETTINGS then
        (case parse_settings payload of Some ps' \<Rightarrow> Some ps' | None \<Rightarrow> ps)
      else ps)"

definition control_step :: "peer_settings option \<Rightarrow> bytes \<Rightarrow> (peer_settings option, unit) step" where
  "control_step ps buf =
     (case decode_frame_header buf of
        Hdr_Incomplete \<Rightarrow> Wait
      | Hdr_TooLarge \<Rightarrow> Fail ()
      | Hdr_Ready header tot ftype \<Rightarrow>
          Advance (control_settings ftype (drop header (take tot buf)) ps) tot)"

interpretation control: incremental control_step
proof
  fix ps :: "peer_settings option" and buf suf :: bytes and ps' n
  assume adv: "control_step ps buf = Advance ps' n"
  then obtain header tot ftype where hdr: "decode_frame_header buf = Hdr_Ready header tot ftype"
    by (auto simp: control_step_def split: frame_hdr.splits)
  have bound: "0 < tot" "tot \<le> length buf"
    using decode_frame_header_bound [OF hdr] by auto
  show "0 < n \<and> n \<le> length buf"
    using adv hdr bound by (simp add: control_step_def)
  show "control_step ps (buf @ suf) = Advance ps' n"
    using adv hdr bound decode_frame_header_extend [of buf suf] by (auto simp: control_step_def)
next
  fix ps :: "peer_settings option" and buf suf :: bytes and e
  assume "control_step ps buf = Fail e"
  then have "decode_frame_header buf = Hdr_TooLarge"
    by (auto simp: control_step_def split: frame_hdr.splits)
  then show "control_step ps (buf @ suf) = Fail e"
    using decode_frame_header_extend [of buf suf] by (simp add: control_step_def)
qed

text \<open>The inlined header decoding of \<open>parse_control\<close> is that of \<open>decode_frame_header\<close>.\<close>

lemma parse_control_step:
  "parse_control s =
    (case control_step (cs_peer_settings s) (control_rx s) of
       Advance ps n \<Rightarrow> parse_control \<lparr>control_rx = drop n (control_rx s), cs_peer_settings = ps\<rparr>
     | Wait \<Rightarrow> (s, False)
     | Fail _ \<Rightarrow> (s, True))"
proof -
  have rec: "(let s' = (if f then (case o' of Some ps \<Rightarrow> s\<lparr>cs_peer_settings := Some ps\<rparr> | None \<Rightarrow> s) else s)
      in s'\<lparr>control_rx := drop n (control_rx s')\<rparr>)
    = \<lparr>control_rx = drop n (control_rx s),
       cs_peer_settings = (if f then (case o' of Some ps \<Rightarrow> Some ps | None \<Rightarrow> cs_peer_settings s) else cs_peer_settings s)\<rparr>"
    for f o' n
    by (cases s) (simp split: option.split)
  show ?thesis
    unfolding parse_control.simps [of s] rec
    by (simp add: control_step_def control_settings_def decode_frame_header_def Let_def split: option.split)
qed

lemma parse_control_run:
  "parse_control \<lparr>control_rx = buf, cs_peer_settings = ps\<rparr> =
    (case control.run ps buf of
       (ps', rest, e) \<Rightarrow> (\<lparr>control_rx = rest, cs_peer_settings = ps'\<rparr>, e \<noteq> None))"
proof (induction ps buf rule: control.run.induct)
  case (1 ps buf)
  note step = parse_control_step [of "\<lparr>control_rx = buf, cs_peer_settings = ps\<rparr>", simplified]
  show ?case
  proof (cases "control_step ps buf")
    case (Advance ps' n)
    with "1.IH" [OF Advance] show ?thesis
      by (simp add: step control.run_Advance)
  qed (simp_all add: step control.run_Wait control.run_Fail)
qed

text \<open>The stream as it arrives: each chunk is appended to \<open>control_rx\<close>, then parsed.\<close>

fun control_chunks :: "control_state \<Rightarrow> bytes list \<Rightarrow> control_state \<times> bool" where
  "control_chunks s [] = (s, False)"
| "control_chunks s (c # cs) =
     (case parse_control (s\<lparr>control_rx := control_rx s @ c\<rparr>) of
        (s', False) \<Rightarrow> control_chunks s' cs
      | (s', True) \<Rightarrow> (s', True))"

lemma control_chunks_run:
  assumes "control.run ps buf = (ps, buf, None)"
    and "control_chunks \<lparr>control_rx = buf, cs_peer_settings = ps\<rparr> cs = (s', over)"
  shows "\<exists>e suf. control.run ps (buf @ concat cs) = (cs_peer_settings s', control_rx s' @ suf, e)
    \<and> over = (e \<noteq> None) \<and> (e = None \<longrightarrow> suf = [])"
  using assms
proof (induction cs arbitrary: ps buf)
  case (Cons c cs)
  obtain ps1 rest e where run: "control.run ps (buf @ c) = (ps1, rest, e)"
    by (cases "control.run ps (buf @ c)") auto
  show ?case
  proof (cases e)
    case None
    with run have run1: "control.run ps (buf @ c) = (ps1, rest, None)"
      by simp
    then have "control_chunks \<lparr>control_rx = rest, cs_peer_settings = ps1\<rparr> cs = (s', over)"
      using Cons.prems(2) by (simp add: parse_control_run)
    from Cons.IH [OF control.run_quiescent [OF run1] this] show ?thesis
      using control.run_append [OF run1, of "concat cs"] by simp
  next
    case (Some x)
    with run have "control.run ps (buf @ c) = (ps1, rest, Some x)"
      by simp
    from control.run_append_fail [OF this, of "concat cs"] this Cons.prems(2) show ?thesis
      by (auto simp: parse_control_run)
  qed
qed auto

section \<open>Properties\<close>

text \<open>
  C15. A peer learns our settings: the control preamble starts with the control stream type, and a
  reader that gets the rest of it, cut into chunks in any way, ends with an empty buffer and with
  the session cap and the QPACK limits that were encoded and with WebTransport, datagrams and
  extended CONNECT enabled.
\<close>

theorem control_preamble_received:
  assumes "varint_ok max_sessions" and "varint_ok (max_table_capacity qpack)"
    and "varint_ok (max_blocked_streams qpack)"
    and "encode_control_preamble_with max_sessions qpack = varint_bytes stream_type_CONTROL @ concat chunks"
  shows "control_chunks \<lparr>control_rx = [], cs_peer_settings = None\<rparr> chunks =
    (\<lparr>control_rx = [], cs_peer_settings = Some
        \<lparr>ps_webtransport = True, ps_h3_datagram = True, ps_connect_protocol = True,
         ps_max_sessions = max_sessions,
         ps_qpack_max_table_capacity = max_table_capacity qpack,
         ps_qpack_blocked_streams = max_blocked_streams qpack\<rparr>\<rparr>, False)"
proof -
  let ?pairs = "preamble_pairs max_sessions qpack" and ?None = "None :: peer_settings option"
  let ?payload = "concat (map pair_bytes ?pairs)"
  let ?ps = "\<lparr>ps_webtransport = True, ps_h3_datagram = True, ps_connect_protocol = True,
    ps_max_sessions = max_sessions, ps_qpack_max_table_capacity = max_table_capacity qpack,
    ps_qpack_blocked_streams = max_blocked_streams qpack\<rparr>"
  have stream: "concat chunks = frame_wrap frame_SETTINGS ?payload"
    using assms(4) by (simp add: encode_control_preamble_with_def frame_wrap_def encode_pairs_eq Let_def wire_simps)
  have "\<forall>p \<in> set ?pairs. pair_ok p"
    using assms(1-3) by (simp add: preamble_pairs_def pair_ok_def h3_consts) (simp add: varint_ok_def)
  then have "parse_settings ?payload = Some (fold apply_setting ?pairs peer_settings_default)"
    unfolding parse_settings_def by (rule parse_settings_loop_pairs)
  then have ps: "parse_settings ?payload = Some ?ps"
    by (simp add: preamble_pairs_def apply_setting_def peer_settings_default_def h3_consts)
  have len: "length ?payload \<le> 2 ^ 20"
    using length_pairs_bytes [of ?pairs] by (simp add: preamble_pairs_def)
  obtain header where hdr: "decode_frame_header (concat chunks)
      = Hdr_Ready header (length (concat chunks)) frame_SETTINGS" "drop header (concat chunks) = ?payload"
    using decode_frame_wrap [of frame_SETTINGS ?payload "[]"] len unfolding stream
    by (auto simp: varint_ok_def h3_consts)
  then have "control_step ?None (concat chunks) = Advance (Some ?ps) (length (concat chunks))"
    by (simp add: control_step_def control_settings_def ps)
  then have run: "control.run ?None (concat chunks) = (Some ?ps, [], None)"
    by (simp add: control.run_Advance control.run_Wait control_step_def decode_frame_header_def varint_decode_def)
  have start: "control.run ?None [] = (None, [], None)"
    by (intro control.run_Wait) (simp add: control_step_def decode_frame_header_def varint_decode_def)
  obtain s' over where out: "control_chunks \<lparr>control_rx = [], cs_peer_settings = None\<rparr> chunks = (s', over)"
    by (cases "control_chunks \<lparr>control_rx = [], cs_peer_settings = None\<rparr> chunks")
  show ?thesis
    using control_chunks_run [OF start out] run out by (cases s') auto
qed

theorem control_preamble_received_witness:
  "varint_ok 1 \<and> varint_ok (max_table_capacity qpack_local_settings_disabled)
   \<and> varint_ok (max_blocked_streams qpack_local_settings_disabled)
   \<and> encode_control_preamble_with 1 qpack_local_settings_disabled
       = varint_bytes stream_type_CONTROL @ concat [take 3 (drop 1 (encode_control_preamble 1)),
           drop 4 (encode_control_preamble 1)]
   \<and> snd (control_chunks \<lparr>control_rx = [], cs_peer_settings = None\<rparr>
       [take 3 (drop 1 (encode_control_preamble 1)), drop 4 (encode_control_preamble 1)]) = False"
proof -
  have "varint_ok 1" and "varint_ok (max_table_capacity qpack_local_settings_disabled)"
    and "varint_ok (max_blocked_streams qpack_local_settings_disabled)"
    by (simp_all add: varint_ok_def qpack_local_settings_disabled_def)
  moreover have "encode_control_preamble_with 1 qpack_local_settings_disabled
       = varint_bytes stream_type_CONTROL @ concat [take 3 (drop 1 (encode_control_preamble 1)),
           drop 4 (encode_control_preamble 1)]"
    by code_simp
  ultimately show ?thesis
    using control_preamble_received [of 1 qpack_local_settings_disabled
        "[take 3 (drop 1 (encode_control_preamble 1)), drop 4 (encode_control_preamble 1)]"]
    by simp
qed

text \<open>
  The control reader is bounded and fragmentation does not matter: after any chunks the verdict
  (frame too large or not) and the settings are those of the whole stream delivered at once, and
  while the stream is good fewer than 16 header bytes and 1 MiB stay buffered.
\<close>

theorem control_chunks_whole:
  assumes "control_chunks \<lparr>control_rx = [], cs_peer_settings = None\<rparr> chunks = (s, over)"
    and "parse_control \<lparr>control_rx = concat chunks, cs_peer_settings = None\<rparr> = (s', over')"
  shows "over = over' \<and> cs_peer_settings s = cs_peer_settings s'
    \<and> (\<not> over \<longrightarrow> control_rx s = control_rx s' \<and> length (control_rx s) < 16 + 2 ^ 20)"
proof -
  have start: "control.run (None :: peer_settings option) [] = (None, [], None)"
    by (intro control.run_Wait) (simp add: control_step_def decode_frame_header_def varint_decode_def)
  obtain e suf where run: "control.run None (concat chunks) = (cs_peer_settings s, control_rx s @ suf, e)"
      "over = (e \<noteq> None)" "e = None \<longrightarrow> suf = []"
    using control_chunks_run [OF start assms(1)] by auto
  have "decode_frame_header (control_rx s) = Hdr_Incomplete" if "\<not> over"
  proof -
    have "control.run None (concat chunks) = (cs_peer_settings s, control_rx s, None)"
      using run that by (cases e) auto
    from control.run_stops_waiting [OF this] show ?thesis
      by (auto simp: control_step_def split: frame_hdr.splits)
  qed
  then show ?thesis
    using assms(2) run incomplete_frame_short by (auto simp: parse_control_run)
qed

theorem control_chunks_whole_witness:
  "\<exists>s over s' over'.
     control_chunks \<lparr>control_rx = [], cs_peer_settings = None\<rparr> [[0x04], [0x02, 0x08, 0x01, 0x21]] = (s, over)
   \<and> parse_control \<lparr>control_rx = concat [[0x04], [0x02, 0x08, 0x01, 0x21]], cs_peer_settings = None\<rparr> = (s', over')
   \<and> over = over' \<and> cs_peer_settings s = cs_peer_settings s'"
proof -
  let ?s = "\<lparr>control_rx = [], cs_peer_settings = None\<rparr>" and ?cs = "[[0x04], [0x02, 0x08, 0x01, 0x21]]"
  obtain s over where 1: "control_chunks ?s ?cs = (s, over)"
    by (cases "control_chunks ?s ?cs")
  obtain s' over' where 2: "parse_control \<lparr>control_rx = concat ?cs, cs_peer_settings = None\<rparr> = (s', over')"
    by (cases "parse_control \<lparr>control_rx = concat ?cs, cs_peer_settings = None\<rparr>")
  show ?thesis
    using 1 2 control_chunks_whole [OF 1 2] by blast
qed

text \<open>
  Datagrams round-trip for every session: the prefix is exactly \<open>datagram_prefix_len\<close> bytes and
  the receiver gets the quarter stream id and the payload unchanged, for every 64-bit stream id.
\<close>

theorem datagram_roundtrip:
  "unwrap_datagram (wrap_datagram sid payload) = Some (sid div 4, payload)
   \<and> length (wrap_datagram sid payload) = datagram_prefix_len sid + length payload"
proof -
  have "unat (sid div 4) < 2 ^ 62"
    using unsigned_less [of sid, where ?'a = nat] by (simp add: unat_div)
  then have "varint_ok (sid div 4)"
    by (simp add: varint_ok_def)
  from varint.dec_enc [OF this, of payload] show ?thesis
    by (simp add: wrap_datagram_def unwrap_datagram_def datagram_prefix_len_def wire_simps length_varint_bytes)
qed

text \<open>
  A frame written by \<open>frame_wrap\<close> with at most 1 MiB of payload is read back by
  \<open>decode_frame_header\<close> whatever follows it, and no proper prefix of it is: the reader waits.
\<close>

theorem frame_roundtrip:
  assumes "varint_ok ftype" and "length payload \<le> 2 ^ 20"
  shows "(\<exists>header. decode_frame_header (frame_wrap ftype payload @ rest)
        = Hdr_Ready header (length (frame_wrap ftype payload)) ftype
      \<and> drop header (take (length (frame_wrap ftype payload)) (frame_wrap ftype payload @ rest)) = payload)
    \<and> (\<forall>n < length (frame_wrap ftype payload).
          decode_frame_header (take n (frame_wrap ftype payload)) = Hdr_Incomplete)"
proof (intro conjI allI impI)
  show "\<exists>header. decode_frame_header (frame_wrap ftype payload @ rest)
        = Hdr_Ready header (length (frame_wrap ftype payload)) ftype
      \<and> drop header (take (length (frame_wrap ftype payload)) (frame_wrap ftype payload @ rest)) = payload"
    using decode_frame_wrap [OF assms, of rest] by simp
next
  fix n
  let ?w = "frame_wrap ftype payload"
  assume n: "n < length ?w"
  show "decode_frame_header (take n ?w) = Hdr_Incomplete"
  proof (rule ccontr)
    assume h: "decode_frame_header (take n ?w) \<noteq> Hdr_Incomplete"
    from decode_frame_header_extend [OF h, of "drop n ?w"]
    have eq: "decode_frame_header (take n ?w) = decode_frame_header ?w"
      by simp
    then obtain header where "decode_frame_header (take n ?w) = Hdr_Ready header (length ?w) ftype"
      using decode_frame_wrap [OF assms, of "[]"] by auto
    from decode_frame_header_bound [OF this] n show False
      by simp
  qed
qed

theorem frame_roundtrip_witness:
  "varint_ok frame_HEADERS \<and> length [1, 2, 3 :: byte] \<le> 2 ^ 20
   \<and> decode_frame_header (take 4 (frame_wrap frame_HEADERS [1, 2, 3])) = Hdr_Incomplete"
proof -
  have ok: "varint_ok frame_HEADERS" "length [1, 2, 3 :: byte] \<le> 2 ^ 20"
    by (simp_all add: varint_ok_def h3_consts)
  have "length (frame_wrap frame_HEADERS [1, 2, 3]) = 5"
    by code_simp
  with ok frame_roundtrip [OF ok, of "[]"] show ?thesis
    by auto
qed

end
