(* ===== verification/Qpack_Stream.thy ===== *)
theory Qpack_Stream
  imports Qpack_Int Qpack_Table Qpack_Static H3_Frames
begin

text \<open>
  QPACK encoder and decoder state and the two instruction streams between them,
  \<^verbatim>\<open>crates/wasm/src/h3.rs\<close>, and the readers of those streams in \<^verbatim>\<open>endpoint.rs\<close>.

  The encoder's table and the peer decoder's table are kept together by the encoder stream. The
  relation \<open>synced\<close> says in which sense: both have seen the same inserts, and what the encoder still
  holds is a suffix of what the decoder holds. The main lemmas show that every encoder operation,
  successful or not, keeps it once the decoder has read the bytes the operation produced.
\<close>

unbundle bit_operations_syntax

section \<open>Definitions\<close>

subsection \<open>Encoder and decoder state\<close>

record qpack_decoder =
  qd_table :: dynamic_table
  qd_max_blocked_streams :: u64
  qd_known_received_count :: nat

definition qpack_decoder_new :: "qpack_local_settings \<Rightarrow> qpack_decoder" where
  "qpack_decoder_new settings =
     (let max_cap = (case usize_try_from (max_table_capacity settings) of Some n \<Rightarrow> n | None \<Rightarrow> usize_MAX) in
      \<lparr>qd_table = dynamic_table_new max_cap,
       qd_max_blocked_streams = max_blocked_streams settings,
       qd_known_received_count = 0\<rparr>)"

definition qpack_decoder_disabled :: qpack_decoder where
  "qpack_decoder_disabled = qpack_decoder_new qpack_local_settings_disabled"

definition note_insert_count_increment :: "nat \<Rightarrow> qpack_decoder \<Rightarrow> qpack_decoder" where
  "note_insert_count_increment delta d =
     d\<lparr>qd_known_received_count := sat_add u64_MAX (qd_known_received_count d) delta\<rparr>"

record qpack_encoder =
  qe_table :: dynamic_table
  qe_known_received_count :: nat

definition qpack_encoder_new :: "nat \<Rightarrow> qpack_encoder" where
  "qpack_encoder_new max_capacity =
     \<lparr>qe_table = dynamic_table_new max_capacity, qe_known_received_count = 0\<rparr>"

definition qpack_encoder_disabled :: qpack_encoder where
  "qpack_encoder_disabled = qpack_encoder_new 0"

definition note_peer_ici :: "nat \<Rightarrow> qpack_encoder \<Rightarrow> qpack_encoder" where
  "note_peer_ici delta e =
     (let krc = sat_add u64_MAX (qe_known_received_count e) delta in
      if krc > dt_insert_count (qe_table e)
      then e\<lparr>qe_known_received_count := dt_insert_count (qe_table e)\<rparr>
      else e\<lparr>qe_known_received_count := krc\<rparr>)"

definition note_section_ack :: "nat \<Rightarrow> qpack_encoder \<Rightarrow> qpack_encoder" where
  "note_section_ack ric e =
     (if ric > qe_known_received_count e
      then e\<lparr>qe_known_received_count := min ric (dt_insert_count (qe_table e))\<rparr>
      else e)"

definition set_capacity_instruction :: "nat \<Rightarrow> qpack_encoder \<Rightarrow> qpack_encoder \<times> (qpack_error + bytes)" where
  "set_capacity_instruction capacity e =
     (case set_capacity_with_ack_floor capacity (Some (qe_known_received_count e)) (qe_table e) of
        (t, Inl err) \<Rightarrow> (e\<lparr>qe_table := t\<rparr>, Inl err)
      | (t, Inr _) \<Rightarrow> (e\<lparr>qe_table := t\<rparr>, Inr (qpack_int 0x20 5 (of_nat capacity) [])))"

definition insert_literal_instruction ::
    "bytes \<Rightarrow> bytes \<Rightarrow> qpack_encoder \<Rightarrow> qpack_encoder \<times> (qpack_error + bytes)" where
  "insert_literal_instruction name val e =
     (let out = qpack_int 0x40 5 (of_nat (length name)) [];
          out = out @ name;
          out = qpack_int 0x00 7 (of_nat (length val)) out;
          out = out @ val
      in case insert_with_ack_floor name val (Some (qe_known_received_count e)) (qe_table e) of
        (t, Inl err) \<Rightarrow> (e\<lparr>qe_table := t\<rparr>, Inl err)
      | (t, Inr _) \<Rightarrow> (e\<lparr>qe_table := t\<rparr>, Inr out))"

definition find_absolute :: "bytes \<Rightarrow> bytes \<Rightarrow> qpack_encoder \<Rightarrow> nat option" where
  "find_absolute name val e =
     List.find (\<lambda>ab. get_absolute (qe_table e) ab = Some (name, val)) [1..<dt_insert_count (qe_table e) + 1]"

subsection \<open>The encoder stream\<close>

text \<open>
  A failed stream leaves the table as it is at that moment. \<open>Feed_Panic\<close> is the slice of
  \<^verbatim>\<open>buf[n1..n1 + nlen_us]\<close> after the sum has left the range of \<^verbatim>\<open>usize\<close>: with overflow checks the
  addition panics, without them the wrapped end lies before the start.
\<close>

datatype feed_error = Feed_Qpack qpack_error | Feed_Panic

definition insert_step ::
    "bytes \<Rightarrow> bytes \<Rightarrow> nat \<Rightarrow> dynamic_table \<Rightarrow> (dynamic_table, dynamic_table \<times> feed_error) step" where
  "insert_step name val consumed t =
     (case table_insert name val t of
        (t', Inl e) \<Rightarrow> Fail (t', Feed_Qpack e)
      | (t', Inr _) \<Rightarrow> Advance t' consumed)"

definition insert_name_reference ::
    "(bytes \<Rightarrow> bytes option) \<Rightarrow> dynamic_table \<Rightarrow> bytes \<Rightarrow> (dynamic_table, dynamic_table \<times> feed_error) step" where
  "insert_name_reference huff t buf =
     (case qpack_int_decode buf 6 of
        None \<Rightarrow> Wait
      | Some (idx, n) \<Rightarrow>
          let rest = drop n buf;
              name = (if hd buf AND 0x40 \<noteq> 0 then map_option fst (qpack_static idx)
                else case checked_sub (dt_insert_count t) (unat idx) of
                  None \<Rightarrow> None
                | Some ab \<Rightarrow> map_option fst (get_absolute t ab))
          in case name of
            None \<Rightarrow> Fail (t, Feed_Qpack Invalid)
          | Some name \<Rightarrow>
              case read_qpack_string huff rest of
                None \<Rightarrow> Wait
              | Some (val, rest') \<Rightarrow> insert_step name val (n + (length buf - n - length rest')) t)"

definition insert_literal_name ::
    "(bytes \<Rightarrow> bytes option) \<Rightarrow> dynamic_table \<Rightarrow> bytes \<Rightarrow> (dynamic_table, dynamic_table \<times> feed_error) step" where
  "insert_literal_name huff t buf =
     (case qpack_int_decode buf 5 of
        None \<Rightarrow> Wait
      | Some (nlen, n1) \<Rightarrow>
          case usize_try_from nlen of
            None \<Rightarrow> Fail (t, Feed_Qpack Invalid)
          | Some nlen_us \<Rightarrow>
              if n1 + nlen_us > usize_MAX then Fail (t, Feed_Panic)
              else if length buf < n1 + nlen_us then Wait
              else
                let raw = take nlen_us (drop n1 buf); rest = drop (n1 + nlen_us) buf in
                case decode_qpack_bytes huff raw (hd buf AND 0x20 \<noteq> 0) of
                  None \<Rightarrow> Fail (t, Feed_Qpack Invalid)
                | Some name \<Rightarrow>
                    case read_qpack_string huff rest of
                      None \<Rightarrow> Wait
                    | Some (val, rest') \<Rightarrow>
                        let after_name = n1 + nlen_us in
                        insert_step name val (after_name + (length buf - after_name - length rest')) t)"

definition capacity_update ::
    "dynamic_table \<Rightarrow> bytes \<Rightarrow> (dynamic_table, dynamic_table \<times> feed_error) step" where
  "capacity_update t buf =
     (case qpack_int_decode buf 5 of
        None \<Rightarrow> Wait
      | Some (cap, n) \<Rightarrow>
          case usize_try_from cap of
            None \<Rightarrow> Fail (t, Feed_Qpack Invalid)
          | Some cap_us \<Rightarrow>
              case set_capacity cap_us t of
                (t', Inl e) \<Rightarrow> Fail (t', Feed_Qpack e)
              | (t', Inr _) \<Rightarrow> Advance t' n)"

definition duplicate_entry ::
    "dynamic_table \<Rightarrow> bytes \<Rightarrow> (dynamic_table, dynamic_table \<times> feed_error) step" where
  "duplicate_entry t buf =
     (case qpack_int_decode buf 5 of
        None \<Rightarrow> Wait
      | Some (idx, n) \<Rightarrow>
          case checked_sub (dt_insert_count t) (unat idx) of
            None \<Rightarrow> Fail (t, Feed_Qpack Invalid)
          | Some ab \<Rightarrow>
              case get_absolute t ab of
                None \<Rightarrow> Fail (t, Feed_Qpack Invalid)
              | Some (name, val) \<Rightarrow> insert_step name val n t)"

definition encoder_instruction ::
    "(bytes \<Rightarrow> bytes option) \<Rightarrow> dynamic_table \<Rightarrow> bytes \<Rightarrow> (dynamic_table, dynamic_table \<times> feed_error) step" where
  "encoder_instruction huff t buf =
     (case buf of
        [] \<Rightarrow> Wait
      | first # _ \<Rightarrow>
          if first AND 0x80 \<noteq> 0 then insert_name_reference huff t buf
          else if first AND 0x40 \<noteq> 0 then insert_literal_name huff t buf
          else if first AND 0x20 \<noteq> 0 then capacity_update t buf
          else duplicate_entry t buf)"

lemma insert_step_consumed: "insert_step name val n t = Advance t' k \<Longrightarrow> k = n"
  by (auto simp: insert_step_def split: prod.splits sum.splits)

lemma insert_step_not_Wait [simp]: "insert_step name val n t \<noteq> Wait"
  by (auto simp: insert_step_def split: prod.splits sum.splits)

lemma string_consumed:
  assumes "read_qpack_string huff (drop n buf) = Some (s, rest)" and "n \<le> length buf"
  shows "n < n + (length buf - n - length rest) \<and> n + (length buf - n - length rest) \<le> length buf"
  using read_qpack_string_suffix [OF assms(1)] assms(2) by auto

lemma encoder_instruction_bound:
  assumes "encoder_instruction huff t buf = Advance t' n"
  shows "0 < n \<and> n \<le> length buf"
proof -
  have ref: "0 < n \<and> n \<le> length buf" if adv: "insert_name_reference huff t buf = Advance t' n"
  proof -
    obtain idx k name val rest where k: "qpack_int_decode buf 6 = Some (idx, k)"
        "read_qpack_string huff (drop k buf) = Some (val, rest)"
        "insert_step name val (k + (length buf - k - length rest)) t = Advance t' n"
      using adv by (auto simp: insert_name_reference_def Let_def split: option.splits)
    show ?thesis
      using string_consumed [OF k(2)] qpack_int_decode_bound [OF k(1)] insert_step_consumed [OF k(3)] by simp
  qed
  have lit: "0 < n \<and> n \<le> length buf" if adv: "insert_literal_name huff t buf = Advance t' n"
  proof -
    obtain idx k m name val rest where k: "qpack_int_decode buf 5 = Some (idx, k)" "k + m \<le> length buf"
        "read_qpack_string huff (drop (k + m) buf) = Some (val, rest)"
        "insert_step name val (k + m + (length buf - (k + m) - length rest)) t = Advance t' n"
      using adv by (auto simp: insert_literal_name_def Let_def not_less split: option.splits if_splits)
    show ?thesis
      using string_consumed [OF k(3)] k(2) qpack_int_decode_bound [OF k(1)] insert_step_consumed [OF k(4)] by simp
  qed
  have "0 < n \<and> n \<le> length buf" if "capacity_update t buf = Advance t' n \<or> duplicate_entry t buf = Advance t' n"
    using that by (auto simp: capacity_update_def duplicate_entry_def split: option.splits prod.splits sum.splits
        dest!: insert_step_consumed qpack_int_decode_bound)
  with ref lit show ?thesis
    using assms by (auto simp: encoder_instruction_def split: list.splits if_splits)
qed

function feed_encoder_loop ::
    "(bytes \<Rightarrow> bytes option) \<Rightarrow> dynamic_table \<Rightarrow> bytes \<Rightarrow> nat \<Rightarrow> dynamic_table \<times> (feed_error + nat)" where
  "feed_encoder_loop huff t data offset =
     (if offset < length data then
        (case encoder_instruction huff t (drop offset data) of
           Wait \<Rightarrow> (t, Inr offset)
         | Fail (t', e) \<Rightarrow> (t', Inl e)
         | Advance t' consumed \<Rightarrow> feed_encoder_loop huff t' data (offset + consumed))
      else (t, Inr offset))"
  by pat_completeness auto
termination
  by (relation "measure (\<lambda>(_, _, data, offset). length data - offset)")
    (use encoder_instruction_bound in fastforce)+

declare feed_encoder_loop.simps [simp del]

definition feed_encoder_stream ::
    "(bytes \<Rightarrow> bytes option) \<Rightarrow> qpack_decoder \<Rightarrow> bytes \<Rightarrow> qpack_decoder \<times> (feed_error + nat)" where
  "feed_encoder_stream huff decoder data =
     (case feed_encoder_loop huff (qd_table decoder) data 0 of
        (t, r) \<Rightarrow> (decoder\<lparr>qd_table := t\<rparr>, r))"

subsection \<open>The decoder stream\<close>

definition encode_section_acknowledgement :: "u64 \<Rightarrow> bytes" where
  "encode_section_acknowledgement stream_id = qpack_int 0x80 7 stream_id []"

definition encode_insert_count_increment :: "u64 \<Rightarrow> bytes" where
  "encode_insert_count_increment delta = qpack_int 0x00 6 delta []"

text \<open>The sum of the increments and the acknowledged streams, so far.\<close>

type_synonym decoder_feed = "nat \<times> u64 list"

definition decoder_instruction :: "decoder_feed \<Rightarrow> bytes \<Rightarrow> (decoder_feed, unit) step" where
  "decoder_instruction s buf =
     (case s of (ici_total, section_acks) \<Rightarrow>
        case buf of
          [] \<Rightarrow> Wait
        | first # _ \<Rightarrow>
            if first AND 0x80 \<noteq> 0 then
              (case qpack_int_decode buf 7 of
                 None \<Rightarrow> Wait
               | Some (sid, n) \<Rightarrow> Advance (ici_total, section_acks @ [sid]) n)
            else if first AND 0x40 \<noteq> 0 then
              (case qpack_int_decode buf 6 of
                 None \<Rightarrow> Wait
               | Some (_, n) \<Rightarrow> Advance (ici_total, section_acks) n)
            else
              (case qpack_int_decode buf 6 of
                 None \<Rightarrow> Wait
               | Some (delta, n) \<Rightarrow> Advance (sat_add u64_MAX ici_total (unat delta), section_acks) n))"

lemma decoder_instruction_bound:
  "decoder_instruction s buf = Advance s' n \<Longrightarrow> 0 < n \<and> n \<le> length buf"
  by (auto simp: decoder_instruction_def split: prod.splits list.splits if_splits option.splits
      dest!: qpack_int_decode_bound)

function feed_decoder_loop :: "decoder_feed \<Rightarrow> bytes \<Rightarrow> nat \<Rightarrow> nat \<times> decoder_feed" where
  "feed_decoder_loop s data offset =
     (if offset < length data then
        (case decoder_instruction s (drop offset data) of
           Advance s' consumed \<Rightarrow> feed_decoder_loop s' data (offset + consumed)
         | _ \<Rightarrow> (offset, s))
      else (offset, s))"
  by pat_completeness auto
termination
  by (relation "measure (\<lambda>(_, data, offset). length data - offset)")
    (use decoder_instruction_bound in fastforce)+

declare feed_decoder_loop.simps [simp del]

definition feed_decoder_stream :: "bytes \<Rightarrow> nat \<times> decoder_feed" where
  "feed_decoder_stream data = feed_decoder_loop (0, []) data 0"

subsection \<open>The stream readers of the endpoint\<close>

definition QPACK_ENCODER_STREAM_ERROR :: u32 where "QPACK_ENCODER_STREAM_ERROR = 0x0201"
definition QPACK_DECODER_STREAM_ERROR :: u32 where "QPACK_DECODER_STREAM_ERROR = 0x0202"

text \<open>
  The QPACK part of a session, and what a reader asks of the connection: to send an instruction on
  the decoder stream, to close the connection with an error code, or, as in \<open>Feed_Panic\<close>, nothing
  any more.
\<close>

record qpack_session =
  qs_decoder :: qpack_decoder
  qs_encoder :: qpack_encoder
  qs_encoder_rx :: bytes
  qs_decoder_rx :: bytes
  qs_decoder_send :: "u64 option"
  qs_pending_section_ric :: "u64 \<rightharpoonup> nat"

datatype conn_action = Conn_Continue "(u64 \<times> bytes) option" | Conn_Close u32 | Conn_Panic

definition parse_qpack_encoder ::
    "(bytes \<Rightarrow> bytes option) \<Rightarrow> qpack_session \<Rightarrow> qpack_session \<times> conn_action" where
  "parse_qpack_encoder huff s =
     (if length (qs_encoder_rx s) > unat MAX_H3_FRAME_SIZE then (s, Conn_Close QPACK_ENCODER_STREAM_ERROR)
      else
        let before = dt_insert_count (qd_table (qs_decoder s)) in
        case feed_encoder_stream huff (qs_decoder s) (qs_encoder_rx s) of
          (d, Inl Feed_Panic) \<Rightarrow> (s\<lparr>qs_decoder := d\<rparr>, Conn_Panic)
        | (d, Inl (Feed_Qpack _)) \<Rightarrow> (s\<lparr>qs_decoder := d\<rparr>, Conn_Close QPACK_ENCODER_STREAM_ERROR)
        | (d, Inr n) \<Rightarrow>
            let s1 = s\<lparr>qs_decoder := d, qs_encoder_rx := drop n (qs_encoder_rx s)\<rparr>;
                after = dt_insert_count (qd_table d)
            in if after > before then
                 let delta = after - before in
                 (s1\<lparr>qs_decoder := note_insert_count_increment delta d\<rparr>,
                  Conn_Continue (map_option (\<lambda>sid. (sid, encode_insert_count_increment (of_nat delta)))
                    (qs_decoder_send s)))
               else (s1, Conn_Continue None))"

definition section_acked :: "u64 \<Rightarrow> qpack_session \<Rightarrow> qpack_session" where
  "section_acked sid s =
     (case qs_pending_section_ric s sid of
        None \<Rightarrow> s
      | Some ric \<Rightarrow>
          s\<lparr>qs_pending_section_ric := (qs_pending_section_ric s)(sid := None),
            qs_encoder := note_section_ack ric (qs_encoder s)\<rparr>)"

definition parse_qpack_decoder :: "qpack_session \<Rightarrow> qpack_session \<times> conn_action" where
  "parse_qpack_decoder s =
     (if length (qs_decoder_rx s) > unat MAX_H3_FRAME_SIZE then (s, Conn_Close QPACK_DECODER_STREAM_ERROR)
      else
        case feed_decoder_stream (qs_decoder_rx s) of
          (n, ici_delta, section_acks) \<Rightarrow>
            let s1 = s\<lparr>qs_decoder_rx := drop n (qs_decoder_rx s)\<rparr>;
                s2 = (if ici_delta > 0 then s1\<lparr>qs_encoder := note_peer_ici ici_delta (qs_encoder s1)\<rparr> else s1)
            in (fold section_acked section_acks s2, Conn_Continue None))"

section \<open>Both streams as incremental parsers\<close>

lemma qpack_int_decode_extend_eq:
  "qpack_int_decode buf n \<noteq> None \<Longrightarrow> qpack_int_decode (buf @ suf) n = qpack_int_decode buf n"
  using qpack_int_decode_extend by fastforce

lemma insert_name_reference_extend:
  assumes "insert_name_reference huff t buf \<noteq> Wait" and "buf \<noteq> []"
  shows "insert_name_reference huff t (buf @ suf) = insert_name_reference huff t buf"
proof -
  obtain idx n where dec: "qpack_int_decode buf 6 = Some (idx, n)"
    using assms(1) by (auto simp: insert_name_reference_def split: option.splits)
  have n: "n \<le> length buf"
    using qpack_int_decode_bound [OF dec] by simp
  let ?name = "if hd buf AND 0x40 \<noteq> 0 then map_option fst (qpack_static idx)
    else case checked_sub (dt_insert_count t) (unat idx) of None \<Rightarrow> None
      | Some ab \<Rightarrow> map_option fst (get_absolute t ab)"
  show ?thesis
  proof (cases ?name)
    case None
    then show ?thesis
      using assms(2) by (simp add: insert_name_reference_def dec qpack_int_decode_extend [OF dec])
  next
    case (Some name)
    then obtain val rest where str: "read_qpack_string huff (drop n buf) = Some (val, rest)"
      using assms(1) by (auto simp: insert_name_reference_def dec split: option.splits)
    have "length rest \<le> length (drop n buf)"
      using read_qpack_string_suffix [OF str] by auto
    then show ?thesis
      using Some assms(2) n str read_qpack_string_extend [OF str, of suf]
      by (simp add: insert_name_reference_def dec qpack_int_decode_extend [OF dec])
  qed
qed

lemma insert_literal_name_eq:
  assumes "qpack_int_decode buf 5 = Some (nlen, n1)" and "unat nlen \<le> usize_MAX"
    and "n1 + unat nlen \<le> usize_MAX" and "n1 + unat nlen \<le> length buf"
  shows "insert_literal_name huff t buf =
    (case decode_qpack_bytes huff (take (unat nlen) (drop n1 buf)) (hd buf AND 0x20 \<noteq> 0) of
       None \<Rightarrow> Fail (t, Feed_Qpack Invalid)
     | Some name \<Rightarrow>
         case read_qpack_string huff (drop (n1 + unat nlen) buf) of
           None \<Rightarrow> Wait
         | Some (val, rest') \<Rightarrow> insert_step name val (length buf - length rest') t)"
proof -
  have "n1 + unat nlen + (length buf - (n1 + unat nlen) - length rest') = length buf - length rest'"
    if "read_qpack_string huff (drop (n1 + unat nlen) buf) = Some (val, rest')" for val rest'
    using read_qpack_string_suffix [OF that] assms(4) by auto
  then show ?thesis
    using assms by (auto simp: insert_literal_name_def usize_try_from_def Let_def split: option.splits)
qed

lemma insert_literal_name_extend:
  assumes "insert_literal_name huff t buf \<noteq> Wait" and "buf \<noteq> []"
  shows "insert_literal_name huff t (buf @ suf) = insert_literal_name huff t buf"
proof -
  obtain nlen n1 where dec: "qpack_int_decode buf 5 = Some (nlen, n1)"
    using assms(1) by (auto simp: insert_literal_name_def split: option.splits)
  note dec' = qpack_int_decode_extend [OF dec, of suf]
  show ?thesis
  proof (cases "unat nlen \<le> usize_MAX \<and> n1 + unat nlen \<le> usize_MAX")
    case False
    then show ?thesis
      by (auto simp: insert_literal_name_def dec dec' usize_try_from_def)
  next
    case True
    then have len: "n1 + unat nlen \<le> length buf"
      using assms(1) by (auto simp: insert_literal_name_def dec usize_try_from_def not_less split: if_splits)
    note eq = insert_literal_name_eq [OF dec, of huff t] insert_literal_name_eq [OF dec', of huff t]
    show ?thesis
    proof (cases "read_qpack_string huff (drop (n1 + unat nlen) buf)")
      case None
      then show ?thesis
        using True len assms by (simp add: eq split: option.splits)
    next
      case (Some vr)
      then obtain val rest where str: "read_qpack_string huff (drop (n1 + unat nlen) buf) = Some (val, rest)"
        by (cases vr) auto
      have "length rest \<le> length buf"
        using read_qpack_string_suffix [OF str] by auto
      then show ?thesis
        using True len assms(2) str read_qpack_string_extend [OF str, of suf]
        by (simp add: eq split: option.split)
    qed
  qed
qed

lemma encoder_instruction_extend:
  assumes "encoder_instruction huff t buf \<noteq> Wait"
  shows "encoder_instruction huff t (buf @ suf) = encoder_instruction huff t buf"
proof -
  obtain first bs where buf: "buf = first # bs"
    using assms by (cases buf) (auto simp: encoder_instruction_def)
  have cap: "capacity_update t (buf @ suf) = capacity_update t buf" if "capacity_update t buf \<noteq> Wait"
    using that qpack_int_decode_extend_eq [of buf 5 suf]
    by (cases "qpack_int_decode buf 5") (simp_all add: capacity_update_def)
  have dup: "duplicate_entry t (buf @ suf) = duplicate_entry t buf" if "duplicate_entry t buf \<noteq> Wait"
    using that qpack_int_decode_extend_eq [of buf 5 suf]
    by (cases "qpack_int_decode buf 5") (simp_all add: duplicate_entry_def)
  show ?thesis
    using assms insert_name_reference_extend [of huff t buf suf] insert_literal_name_extend [of huff t buf suf]
      cap dup by (auto simp: encoder_instruction_def buf)
qed

interpretation encoder_stream: incremental "encoder_instruction huff" for huff
proof
  fix t t' buf suf n and e :: "dynamic_table \<times> feed_error"
  show "0 < n \<and> n \<le> length buf" if "encoder_instruction huff t buf = Advance t' n"
    using that by (rule encoder_instruction_bound)
  show "encoder_instruction huff t (buf @ suf) = Advance t' n" if "encoder_instruction huff t buf = Advance t' n"
    using that encoder_instruction_extend [of huff t buf suf] by simp
  show "encoder_instruction huff t (buf @ suf) = Fail e" if "encoder_instruction huff t buf = Fail e"
    using that encoder_instruction_extend [of huff t buf suf] by simp
qed

lemma decoder_instruction_extend:
  assumes "decoder_instruction s buf \<noteq> Wait"
  shows "decoder_instruction s (buf @ suf) = decoder_instruction s buf"
proof (cases buf)
  case (Cons first bs)
  then show ?thesis
    using assms qpack_int_decode_extend_eq [of buf 7 suf] qpack_int_decode_extend_eq [of buf 6 suf]
    by (cases s; cases "qpack_int_decode buf 7"; cases "qpack_int_decode buf 6")
      (auto simp: decoder_instruction_def split: if_splits)
qed (use assms in \<open>simp add: decoder_instruction_def split: prod.splits\<close>)

interpretation decoder_stream: incremental decoder_instruction
proof
  fix s s' buf suf n and e :: unit
  show "0 < n \<and> n \<le> length buf" if "decoder_instruction s buf = Advance s' n"
    using that by (rule decoder_instruction_bound)
  show "decoder_instruction s (buf @ suf) = Advance s' n" if "decoder_instruction s buf = Advance s' n"
    using that decoder_instruction_extend [of s buf suf] by simp
  show "decoder_instruction s (buf @ suf) = Fail e" if "decoder_instruction s buf = Fail e"
    using that decoder_instruction_extend [of s buf suf] by simp
qed

lemma feed_encoder_loop_run:
  assumes "offset \<le> length data"
  shows "feed_encoder_loop huff t data offset =
    (case encoder_stream.run huff t (drop offset data) of
       (t', rest, None) \<Rightarrow> (t', Inr (length data - length rest))
     | (t', rest, Some (t'', e)) \<Rightarrow> (t'', Inl e))"
  using assms
proof (induction huff t data offset rule: feed_encoder_loop.induct)
  case (1 huff t data offset)
  show ?case
  proof (cases "encoder_instruction huff t (drop offset data)")
    case (Advance t' n)
    then have bound: "0 < n" "n \<le> length data - offset"
      using encoder_instruction_bound [OF Advance] by auto
    then have lt: "offset < length data"
      by simp
    have "feed_encoder_loop huff t' data (offset + n) =
      (case encoder_stream.run huff t' (drop (offset + n) data) of
         (t', rest, None) \<Rightarrow> (t', Inr (length data - length rest))
       | (t', rest, Some (t'', e)) \<Rightarrow> (t'', Inl e))"
      using bound by (intro "1.IH" [OF lt Advance]) simp
    then show ?thesis
      using lt Advance
      by (simp add: feed_encoder_loop.simps [of huff t data offset] encoder_stream.run_Advance [OF Advance] add.commute)
  next
    case Wait
    then show ?thesis
      using "1.prems" by (simp add: feed_encoder_loop.simps [of huff t data offset] encoder_stream.run_Wait)
  next
    case (Fail te)
    then have "drop offset data \<noteq> []"
      by (auto simp: encoder_instruction_def)
    then have "offset < length data"
      by simp
    then show ?thesis
      using Fail by (cases te) (simp add: feed_encoder_loop.simps [of huff t data offset] encoder_stream.run_Fail)
  qed
qed

lemma feed_decoder_loop_run:
  assumes "offset \<le> length data"
  shows "feed_decoder_loop s data offset =
    (case decoder_stream.run s (drop offset data) of
       (s', rest, _) \<Rightarrow> (length data - length rest, s'))"
  using assms
proof (induction s data offset rule: feed_decoder_loop.induct)
  case (1 s data offset)
  show ?case
  proof (cases "decoder_instruction s (drop offset data)")
    case (Advance s' n)
    then have bound: "0 < n" "n \<le> length data - offset"
      using decoder_instruction_bound [OF Advance] by auto
    then have lt: "offset < length data"
      by simp
    have "feed_decoder_loop s' data (offset + n) =
      (case decoder_stream.run s' (drop (offset + n) data) of (s', rest, _) \<Rightarrow> (length data - length rest, s'))"
      using bound by (intro "1.IH" [OF lt Advance]) simp
    then show ?thesis
      using lt Advance
      by (simp add: feed_decoder_loop.simps [of s data offset] decoder_stream.run_Advance [OF Advance] add.commute)
  next
    case Wait
    then show ?thesis
      using "1.prems" by (simp add: feed_decoder_loop.simps [of s data offset] decoder_stream.run_Wait)
  next
    case (Fail u)
    then show ?thesis
      by (auto simp: decoder_instruction_def split: prod.splits list.splits if_splits option.splits)
  qed
qed

section \<open>Encoder and decoder tables in step\<close>

definition synced :: "dynamic_table \<Rightarrow> dynamic_table \<Rightarrow> bool" where
  "synced te td \<longleftrightarrow>
     wf_table te \<and> wf_table td \<and> dt_insert_count te = dt_insert_count td
   \<and> dt_capacity te \<le> dt_capacity td \<and> dt_max_capacity te \<le> dt_max_capacity td
   \<and> dt_size td \<le> dt_capacity td
   \<and> (\<exists>k. dt_entries te = drop k (dt_entries td))"

lemma synced_new:
  assumes "max_e \<le> max_d" and "max_d < usize_MAX"
  shows "synced (dynamic_table_new max_e) (dynamic_table_new max_d)"
  using assms wf_dynamic_table_new [of max_e] wf_dynamic_table_new [of max_d]
  by (simp add: synced_def dynamic_table_new_def)

lemma synced_lookup:
  assumes "synced te td" and "get_absolute te a = Some x"
  shows "get_absolute td a = Some x"
proof -
  obtain k where k: "dt_entries te = drop k (dt_entries td)" "k \<le> length (dt_entries td)"
    using assms(1) unfolding synced_def by (metis drop_all nle_le drop_eq_Nil2)
  have wf: "wf_table te" "wf_table td"
    using assms(1) by (simp_all add: synced_def)
  have "get_absolute te a = get_absolute (with_entries td (drop k (dt_entries td))) a"
    using wf_with_entries_drop [OF wf(2), of k] wf assms(1) k
    by (simp add: get_absolute_eq evicted_def synced_def)
  then show ?thesis
    using assms(2) get_absolute_drop [OF wf(2) k(2)] by (simp split: if_splits)
qed

lemma synced_shrink:
  assumes "synced te td"
  shows "synced (with_entries te (drop k (dt_entries te))) td"
proof -
  obtain j where "dt_entries te = drop j (dt_entries td)"
    using assms by (auto simp: synced_def)
  then have "drop k (dt_entries te) = drop (k + j) (dt_entries td)"
    by simp
  then show ?thesis
    using assms wf_with_entries_drop [of te k] by (auto simp: synced_def)
qed

lemma synced_insert:
  assumes "synced te td" and "dt_insert_count te < u64_MAX"
    and "insert_with_ack_floor name val fl te = (te', Inr ())"
  obtains td' where "table_insert name val td = (td', Inr ())" and "synced te' td'"
    and "dt_insert_count te' = dt_insert_count te + 1"
proof -
  let ?sz = "entry_size name val"
  let ?ke = "keep ?sz (dt_capacity te) (dt_entries te)" and ?kd = "keep ?sz (dt_capacity td) (dt_entries td)"
  have wf: "wf_table te" "wf_table td" and caps: "dt_capacity te \<le> dt_capacity td"
    using assms(1) by (simp_all add: synced_def)
  note ok = insert_with_ack_floor_Ok [OF wf(1) assms(3)]
  obtain td' r where op: "insert_with_ack_floor name val None td = (td', r)"
    by (cases "insert_with_ack_floor name val None td")
  have "r = Inr ()"
    using insert_with_ack_floor_Err [OF wf(2)] op ok caps by (cases r) fastforce+
  with op have ins: "insert_with_ack_floor name val None td = (td', Inr ())"
    by simp
  have okd: "td' = push_entry name val (with_entries td ?kd)" "total_size ?kd + ?sz \<le> dt_capacity td"
    using insert_with_ack_floor_Ok [OF wf(2) ins] by blast+
  obtain j where j: "dt_entries te = drop j (dt_entries td)"
    using assms(1) by (auto simp: synced_def)
  obtain i where "?ke = drop i (dt_entries te)"
    using keep_suffix by blast
  then have ke: "?ke = drop (i + j) (dt_entries td)"
    using j by simp
  have "total_size ?ke + ?sz \<le> dt_capacity te"
    using ok by blast
  then have "total_size (drop (i + j) (dt_entries td)) + ?sz \<le> dt_capacity td"
    using caps unfolding ke by linarith
  then obtain m where m: "m \<le> length ?kd" "?ke = drop m ?kd"
    using keep_longest ke by metis
  have te': "te' = push_entry name val (with_entries te ?ke)"
    using ok by blast
  have ents: "dt_entries te' = drop m (dt_entries td')"
    using te' okd m by (simp add: push_entry_def)
  have size: "dt_size td' \<le> dt_capacity td'"
    using okd by (simp add: push_entry_def sat_add_def)
  have "synced te' td'"
    unfolding synced_def
    using wf_insert [OF wf(1) assms(3)] wf_insert [OF wf(2) ins] ents size te' okd assms(1)
    by (auto simp: push_entry_def synced_def)
  moreover have "dt_insert_count te' = dt_insert_count te + 1"
    using te' assms(2) by (simp add: push_entry_def sat_add_def)
  ultimately show ?thesis
    using ins that by (simp add: table_insert_def)
qed

lemma synced_set_capacity:
  assumes "synced te td" and "set_capacity_with_ack_floor c fl te = (te', Inr ())"
  obtains td' where "set_capacity c td = (td', Inr ())" and "synced te' td'"
proof -
  have wf: "wf_table te" "wf_table td"
    using assms(1) by (simp_all add: synced_def)
  from set_capacity_with_ack_floor_spec [OF wf(1) assms(2)]
  have e: "c \<le> dt_max_capacity te" "dt_entries te' = keep 0 c (dt_entries te)"
      "total_size (dt_entries te') \<le> c" "dt_capacity te' = c"
      "dt_insert_count te' = dt_insert_count te" "dt_max_capacity te' = dt_max_capacity te"
    by auto
  obtain td' r where op: "set_capacity_with_ack_floor c None td = (td', r)"
    by (cases "set_capacity_with_ack_floor c None td")
  have c: "c \<le> dt_max_capacity td"
    using e(1) assms(1) by (simp add: synced_def)
  from set_capacity_with_ack_floor_spec [OF wf(2) op] c
  have d: "r = Inr ()" "dt_entries td' = keep 0 c (dt_entries td)" "dt_capacity td' = c"
      "total_size (dt_entries td') \<le> c"
      "dt_insert_count td' = dt_insert_count td" "dt_max_capacity td' = dt_max_capacity td"
    by auto
  obtain j i where j: "dt_entries te = drop j (dt_entries td)" "keep 0 c (dt_entries te) = drop i (dt_entries te)"
    using assms(1) keep_suffix [of "dt_entries te" 0 c] by (auto simp: synced_def)
  then have ke: "dt_entries te' = drop (i + j) (dt_entries td)"
    using e(2) by simp
  then obtain m where "dt_entries te' = drop m (dt_entries td')"
    using keep_longest [of "i + j" "dt_entries td" 0 c] e(3) d(2) by auto
  moreover have "wf_table te'" "wf_table td'"
    using wf_set_capacity [OF wf(1) assms(2)] wf_set_capacity [OF wf(2) op] .
  ultimately have "synced te' td'"
    using assms(1) d e by (auto simp: synced_def wf_table_def)
  then show ?thesis
    using op d(1) that by (simp add: set_capacity_def)
qed

text \<open>A failed encoder operation writes no bytes; what it does to the encoder's table keeps the relation.\<close>

lemma synced_insert_Err:
  assumes "synced te td" and "insert_with_ack_floor name val fl te = (te', Inl err)"
  shows "synced te' td \<and> dt_insert_count te' = dt_insert_count te"
proof -
  have "wf_table te"
    using assms(1) by (simp add: synced_def)
  from insert_with_ack_floor_Err [OF this assms(2)] show ?thesis
    using synced_shrink [OF assms(1)] by auto
qed

lemma synced_set_capacity_Err:
  assumes "synced te td" and "set_capacity_with_ack_floor c fl te = (te', Inl err)"
  shows "synced te' td \<and> dt_insert_count te' = dt_insert_count te"
proof -
  have wf: "wf_table te"
    using assms(1) by (simp add: synced_def)
  obtain j where j: "dt_entries te = drop j (dt_entries td)"
    using assms(1) by (auto simp: synced_def)
  consider k where "te' = with_entries (te\<lparr>dt_capacity := c\<rparr>) (drop k (dt_entries te))" "c \<le> dt_max_capacity te"
      "c < total_size (dt_entries te')" | "te' = te"
    using set_capacity_with_ack_floor_spec [OF wf assms(2)] by fastforce
  then show ?thesis
  proof cases
    case (1 k)
    have ents: "dt_entries te' = drop (k + j) (dt_entries td)"
      using 1(1) j by simp
    have "c \<le> dt_capacity td"
      using 1(3) total_size_drop [of "k + j" "dt_entries td"] assms(1) ents
      by (simp add: synced_def wf_table_def)
    then show ?thesis
      using assms(1) wf_set_capacity [OF wf assms(2)] ents 1(1) by (auto simp: synced_def)
  qed (use assms(1) in simp)
qed

section \<open>Instructions on the wire\<close>

lemma insert_literal_instruction_bytes:
  assumes "insert_literal_instruction name val e = (e', Inr out)"
  shows "out = qint_bytes 0x40 5 (of_nat (length name)) @ name @ qstr_bytes val
    \<and> insert_with_ack_floor name val (Some (qe_known_received_count e)) (qe_table e) = (qe_table e', Inr ())
    \<and> qe_known_received_count e' = qe_known_received_count e"
  using assms
  by (auto simp: insert_literal_instruction_def Let_def wire_simps qstr_bytes_def split: prod.splits sum.splits)

lemma set_capacity_instruction_bytes:
  assumes "set_capacity_instruction c e = (e', Inr out)"
  shows "out = qint_bytes 0x20 5 (of_nat c)
    \<and> set_capacity_with_ack_floor c (Some (qe_known_received_count e)) (qe_table e) = (qe_table e', Inr ())
    \<and> qe_known_received_count e' = qe_known_received_count e"
  using assms
  by (auto simp: set_capacity_instruction_def wire_simps split: prod.splits sum.splits)

lemma encoder_instruction_insert:
  assumes "valid_utf8 name" and "qstr_ok val" and "length name + 32 \<le> usize_MAX"
    and "table_insert name val t = (t', Inr ())"
  shows "encoder_instruction huff t (qint_bytes 0x40 5 (of_nat (length name)) @ name @ qstr_bytes val @ rest)
    = Advance t' (length (qint_bytes 0x40 5 (of_nat (length name)) @ name @ qstr_bytes val))"
proof -
  let ?q = "qint_bytes 0x40 5 (of_nat (length name))"
  let ?buf = "?q @ name @ qstr_bytes val @ rest"
  have dec: "qpack_int_decode ?buf 5 = Some (of_nat (length name), length ?q)"
    by (rule qpack_int_decode_encode) (simp_all add: mask_eq_exp_minus_1)
  have len: "unat (of_nat (length name) :: u64) = length name"
    using assms(3) by (intro unat_of_nat_usize) simp
  have q: "length ?q \<le> 11"
    using qpack_int_decode_bound [OF dec] by simp
  have flags: "hd ?buf AND 0x80 = 0" "hd ?buf AND 0x40 \<noteq> 0" "hd ?buf AND 0x20 = 0" "?buf \<noteq> []"
    using qint_bytes_flag [of 5 _ "0x40" "of_nat (length name)"] by (simp_all add: mask_eq_exp_minus_1)
  have "insert_literal_name huff t ?buf = insert_step name val (length ?q + length name + length (qstr_bytes val)) t"
    using assms(1,3) q flags(3) read_qpack_string_encode [OF assms(2), of huff rest]
    by (subst insert_literal_name_eq [OF dec]) (simp_all add: len decode_qpack_bytes_def from_utf8_def add.assoc)
  then show ?thesis
    using flags assms(4)
    by (cases ?buf) (auto simp: encoder_instruction_def insert_step_def add.assoc)
qed

lemma encoder_instruction_capacity:
  assumes "c \<le> usize_MAX" and "set_capacity c t = (t', Inr ())"
  shows "encoder_instruction huff t (qint_bytes 0x20 5 (of_nat c) @ rest)
    = Advance t' (length (qint_bytes 0x20 5 (of_nat c)))"
proof -
  let ?buf = "qint_bytes 0x20 5 (of_nat c) @ rest"
  have dec: "qpack_int_decode ?buf 5 = Some (of_nat c, length (qint_bytes 0x20 5 (of_nat c)))"
    by (rule qpack_int_decode_encode) (simp_all add: mask_eq_exp_minus_1)
  have flags: "hd ?buf AND 0x80 = 0" "hd ?buf AND 0x40 = 0" "hd ?buf AND 0x20 \<noteq> 0" "?buf \<noteq> []"
    using qint_bytes_flag [of 5 _ "0x20" "of_nat c"] by (simp_all add: mask_eq_exp_minus_1)
  have "capacity_update t ?buf = Advance t' (length (qint_bytes 0x20 5 (of_nat c)))"
    using assms by (simp add: capacity_update_def dec usize_try_from_def unat_of_nat_usize)
  then show ?thesis
    using flags by (cases ?buf) (auto simp: encoder_instruction_def)
qed

section \<open>Runs of an encoder\<close>

text \<open>
  What an endpoint does with its encoder over time: capacity changes, inserts, and the peer's
  acknowledgements. An operation yields the bytes it puts on the encoder stream.
\<close>

datatype enc_op = Enc_Set_Capacity nat | Enc_Insert bytes bytes | Enc_Peer_Ici nat | Enc_Section_Ack nat

definition bytes_of :: "qpack_encoder \<times> (qpack_error + bytes) \<Rightarrow> qpack_encoder \<times> bytes" where
  "bytes_of r = (fst r, case snd r of Inl _ \<Rightarrow> [] | Inr out \<Rightarrow> out)"

fun enc_apply :: "enc_op \<Rightarrow> qpack_encoder \<Rightarrow> qpack_encoder \<times> bytes" where
  "enc_apply (Enc_Set_Capacity c) e = bytes_of (set_capacity_instruction c e)"
| "enc_apply (Enc_Insert name val) e = bytes_of (insert_literal_instruction name val e)"
| "enc_apply (Enc_Peer_Ici delta) e = (note_peer_ici delta e, [])"
| "enc_apply (Enc_Section_Ack ric) e = (note_section_ack ric e, [])"

fun enc_run :: "enc_op list \<Rightarrow> qpack_encoder \<Rightarrow> qpack_encoder \<times> bytes" where
  "enc_run [] e = (e, [])"
| "enc_run (op # ops) e =
     (let (e1, out1) = enc_apply op e; (e2, out2) = enc_run ops e1 in (e2, out1 @ out2))"

fun enc_op_ok :: "enc_op \<Rightarrow> bool" where
  "enc_op_ok (Enc_Insert name val) \<longleftrightarrow> valid_utf8 name \<and> valid_utf8 val"
| "enc_op_ok _ \<longleftrightarrow> True"

definition wf_encoder :: "qpack_encoder \<Rightarrow> bool" where
  "wf_encoder e \<longleftrightarrow> wf_table (qe_table e) \<and> qe_known_received_count e \<le> dt_insert_count (qe_table e)"

lemma insert_literal_instruction_err:
  assumes "insert_literal_instruction name val e = (e', Inl err)"
  shows "insert_with_ack_floor name val (Some (qe_known_received_count e)) (qe_table e) = (qe_table e', Inl err)
    \<and> qe_known_received_count e' = qe_known_received_count e"
  using assms by (auto simp: insert_literal_instruction_def Let_def split: prod.splits sum.splits)

lemma set_capacity_instruction_err:
  assumes "set_capacity_instruction c e = (e', Inl err)"
  shows "set_capacity_with_ack_floor c (Some (qe_known_received_count e)) (qe_table e) = (qe_table e', Inl err)
    \<and> qe_known_received_count e' = qe_known_received_count e"
  using assms by (auto simp: set_capacity_instruction_def split: prod.splits sum.splits)

text \<open>One operation: the decoder reads exactly its bytes and stays in step.\<close>

lemma insert_literal_synced:
  assumes "synced (qe_table e) td" and "dt_insert_count (qe_table e) < u64_MAX"
    and "valid_utf8 name" and "valid_utf8 val"
    and "insert_literal_instruction name val e = (e', Inr out)"
  obtains td' where "synced (qe_table e') td'"
    "\<And>rest. encoder_instruction huff td (out @ rest) = Advance td' (length out)"
    "dt_insert_count (qe_table e') = dt_insert_count (qe_table e) + 1" "out \<noteq> []"
proof -
  note io = insert_literal_instruction_bytes [OF assms(5)]
  have wf: "wf_table (qe_table e)"
    using assms(1) by (simp add: synced_def)
  have sz: "length name + length val + 32 \<le> dt_capacity (qe_table e)"
    using insert_with_ack_floor_Ok [OF wf, of name val _ "qe_table e'"] io by fastforce
  then have fits: "length name + 32 \<le> usize_MAX" "qstr_ok val"
    using wf assms(4) by (simp_all add: wf_table_def qstr_ok_def)
  obtain td' where td': "table_insert name val td = (td', Inr ())" "synced (qe_table e') td'"
      "dt_insert_count (qe_table e') = dt_insert_count (qe_table e) + 1"
    using synced_insert [OF assms(1,2)] io by metis
  then show ?thesis
    using encoder_instruction_insert [OF assms(3) fits(2,1) td'(1)] io
    by (intro that [of td']) simp_all
qed

lemma set_capacity_synced:
  assumes "synced (qe_table e) td" and "set_capacity_instruction c e = (e', Inr out)"
  obtains td' where "synced (qe_table e') td'"
    "\<And>rest. encoder_instruction huff td (out @ rest) = Advance td' (length out)"
    "dt_insert_count (qe_table e') = dt_insert_count (qe_table e)" "out \<noteq> []"
proof -
  note io = set_capacity_instruction_bytes [OF assms(2)]
  have wf: "wf_table (qe_table e)"
    using assms(1) by (simp add: synced_def)
  have c: "c \<le> usize_MAX" and ic: "dt_insert_count (qe_table e') = dt_insert_count (qe_table e)"
    using set_capacity_insert_count [OF wf conjunct1 [OF conjunct2 [OF io]]] wf
    by (auto simp: wf_table_def)
  obtain td' where td': "set_capacity c td = (td', Inr ())" "synced (qe_table e') td'"
    using synced_set_capacity [OF assms(1)] io by metis
  then show ?thesis
    using encoder_instruction_capacity [OF c td'(1)] io ic by (intro that [of td']) simp_all
qed

lemma enc_apply_synced:
  assumes "synced (qe_table e) td" and "dt_insert_count (qe_table e) < u64_MAX" and "enc_op_ok op"
    and "enc_apply op e = (e', out)"
  obtains td' where "synced (qe_table e') td'" "dt_insert_count (qe_table e') \<le> dt_insert_count (qe_table e) + 1"
    "\<And>rest. encoder_stream.run huff td (out @ rest) = encoder_stream.run huff td' rest"
proof (cases op)
  case (Enc_Set_Capacity c)
  obtain r where r: "set_capacity_instruction c e = (e', r)" "out = (case r of Inl _ \<Rightarrow> [] | Inr out \<Rightarrow> out)"
    using assms(4) Enc_Set_Capacity by (cases "set_capacity_instruction c e") (auto simp: bytes_of_def)
  show ?thesis
  proof (cases r)
    case (Inl err)
    with r show ?thesis
      using that [of td] synced_set_capacity_Err [OF assms(1), of c _ "qe_table e'" err]
        set_capacity_instruction_err [of c e e' err] by auto
  next
    case (Inr bs)
    with r obtain td' where "synced (qe_table e') td'"
        "\<And>rest. encoder_instruction huff td (out @ rest) = Advance td' (length out)"
        "dt_insert_count (qe_table e') = dt_insert_count (qe_table e)"
      using set_capacity_synced [OF assms(1), of c e' out huff] by auto
    then show ?thesis
      using that [of td'] encoder_stream.run_Advance [of huff td] by simp
  qed
next
  case (Enc_Insert name val)
  obtain r where r: "insert_literal_instruction name val e = (e', r)" "out = (case r of Inl _ \<Rightarrow> [] | Inr out \<Rightarrow> out)"
    using assms(4) Enc_Insert by (cases "insert_literal_instruction name val e") (auto simp: bytes_of_def)
  have utf8: "valid_utf8 name" "valid_utf8 val"
    using assms(3) Enc_Insert by simp_all
  show ?thesis
  proof (cases r)
    case (Inl err)
    with r show ?thesis
      using that [of td] synced_insert_Err [OF assms(1), of name val _ "qe_table e'" err]
        insert_literal_instruction_err [of name val e e' err] by auto
  next
    case (Inr bs)
    with r obtain td' where "synced (qe_table e') td'"
        "\<And>rest. encoder_instruction huff td (out @ rest) = Advance td' (length out)"
        "dt_insert_count (qe_table e') = dt_insert_count (qe_table e) + 1"
      using insert_literal_synced [OF assms(1,2) utf8, of e' out huff] by auto
    then show ?thesis
      using that [of td'] encoder_stream.run_Advance [of huff td] by simp
  qed
qed (use assms that [of td] in \<open>auto simp: note_peer_ici_def note_section_ack_def Let_def split: if_splits\<close>)

lemma enc_run_synced:
  assumes "synced (qe_table e) td" and "dt_insert_count (qe_table e) + length ops \<le> u64_MAX"
    and "\<forall>op \<in> set ops. enc_op_ok op" and "enc_run ops e = (e', out)"
  shows "\<exists>td'. synced (qe_table e') td'
    \<and> (\<forall>rest. encoder_stream.run huff td (out @ rest) = encoder_stream.run huff td' rest)"
  using assms
proof (induction ops arbitrary: e td out)
  case (Cons op ops)
  obtain e1 out1 out2 where step: "enc_apply op e = (e1, out1)" "enc_run ops e1 = (e', out2)" "out = out1 @ out2"
    using Cons.prems(4) by (auto simp: Let_def split: prod.splits)
  obtain td1 where td1: "synced (qe_table e1) td1" "dt_insert_count (qe_table e1) \<le> dt_insert_count (qe_table e) + 1"
      "\<And>rest. encoder_stream.run huff td (out1 @ rest) = encoder_stream.run huff td1 rest"
    using enc_apply_synced [OF Cons.prems(1) _ _ step(1), of huff] Cons.prems(2,3) by auto
  from Cons.IH [OF td1(1) _ _ step(2)] Cons.prems(2,3) td1(2) show ?case
    using td1(3) step(3) by auto
qed auto

lemma enc_apply_wf:
  assumes "wf_encoder e"
  shows "wf_encoder (fst (enc_apply op e))"
proof (cases op)
  case (Enc_Set_Capacity c)
  obtain t r where op: "set_capacity_with_ack_floor c (Some (qe_known_received_count e)) (qe_table e) = (t, r)"
    by (cases "set_capacity_with_ack_floor c (Some (qe_known_received_count e)) (qe_table e)")
  have wf: "wf_table (qe_table e)"
    using assms by (simp add: wf_encoder_def)
  have "wf_table t" and "dt_insert_count t = dt_insert_count (qe_table e)"
    using wf_set_capacity [OF wf op] set_capacity_insert_count [OF wf op] by auto
  then show ?thesis
    using Enc_Set_Capacity assms
    by (cases r) (simp_all add: set_capacity_instruction_def bytes_of_def op wf_encoder_def)
next
  case (Enc_Insert name val)
  obtain t r where op: "insert_with_ack_floor name val (Some (qe_known_received_count e)) (qe_table e) = (t, r)"
    by (cases "insert_with_ack_floor name val (Some (qe_known_received_count e)) (qe_table e)")
  have wf: "wf_table (qe_table e)"
    using assms by (simp add: wf_encoder_def)
  have "dt_insert_count (qe_table e) \<le> dt_insert_count t"
    using insert_insert_count [OF wf op] .
  then show ?thesis
    using Enc_Insert assms wf_insert [OF wf op]
    by (cases r) (simp_all add: insert_literal_instruction_def bytes_of_def op wf_encoder_def Let_def)
qed (use assms in \<open>auto simp: wf_encoder_def note_peer_ici_def note_section_ack_def Let_def\<close>)

lemma enc_run_wf: "wf_encoder e \<Longrightarrow> wf_encoder (fst (enc_run ops e))"
  by (induction ops arbitrary: e) (use enc_apply_wf in \<open>auto simp: Let_def split: prod.splits\<close>, metis fst_conv enc_apply_wf)

section \<open>Properties\<close>

lemma qpack_tables_synced_lemma:
  assumes "max_e \<le> qpack_max" and "qpack_max < usize_MAX" and "length ops \<le> u64_MAX"
    and "\<forall>op \<in> set ops. enc_op_ok op" and "enc_run ops (qpack_encoder_new max_e) = (e, out)"
    and "qd_table d = dynamic_table_new qpack_max"
  shows "\<exists>d'. feed_encoder_stream huff d out = (d', Inr (length out))
    \<and> dt_insert_count (qd_table d') = dt_insert_count (qe_table e)
    \<and> (\<forall>a x. get_absolute (qe_table e) a = Some x \<longrightarrow> get_absolute (qd_table d') a = Some x)
    \<and> qe_known_received_count e \<le> dt_insert_count (qe_table e) \<and> dt_insert_count (qe_table e) \<le> u64_MAX"
proof -
  let ?e = "qpack_encoder_new max_e"
  have start: "synced (qe_table ?e) (qd_table d)"
    using synced_new [OF assms(1,2)] assms(6) by (simp add: qpack_encoder_new_def)
  have "dt_insert_count (qe_table ?e) + length ops \<le> u64_MAX"
    using assms(3) by (simp add: qpack_encoder_new_def dynamic_table_new_def)
  from enc_run_synced [OF start this assms(4,5), of huff] obtain td where td: "synced (qe_table e) td"
      "\<forall>rest. encoder_stream.run huff (qd_table d) (out @ rest) = encoder_stream.run huff td rest"
    by blast
  have "encoder_stream.run huff (qd_table d) out = encoder_stream.run huff td []"
    using td(2) [rule_format, of "[]"] by simp
  also have "\<dots> = (td, [], None)"
    by (rule encoder_stream.run_Wait) (simp add: encoder_instruction_def)
  finally have "feed_encoder_stream huff d out = (d\<lparr>qd_table := td\<rparr>, Inr (length out))"
    by (simp add: feed_encoder_stream_def feed_encoder_loop_run)
  moreover have "wf_encoder ?e"
    using wf_dynamic_table_new [of max_e] assms(1,2) by (simp add: wf_encoder_def qpack_encoder_new_def)
  then have "wf_encoder e"
    using enc_run_wf [of ?e ops] assms(5) by simp
  ultimately show ?thesis
    using td(1) synced_lookup [OF td(1)] by (simp add: synced_def wf_encoder_def wf_table_def)
qed

text \<open>
  C10. The peer's table follows the encoder, provided the peer's decoder allows at least the encoder's
  maximum capacity: after any sequence of capacity changes, inserts of encodable strings and
  acknowledgements, successful or not, the peer's decoder, started with an empty table, consumes every
  byte the encoder wrote without error, has the same insert count, and resolves every index that is still
  live in the encoder's table to the same field. The known received count never passes the insert count.
  (The endpoint takes the encoder's maximum from its own settings and does not lower it to the peer's;
  for a peer with a smaller table the first capacity instruction is already an error.)
\<close>

theorem qpack_tables_synced:
  assumes "max_e \<le> qpack_max" and "qpack_max < usize_MAX" and "length ops \<le> u64_MAX"
    and "\<forall>op \<in> set ops. enc_op_ok op" and "enc_run ops (qpack_encoder_new max_e) = (e, out)"
    and "qd_table d = dynamic_table_new qpack_max"
  shows "\<exists>d'. feed_encoder_stream huff d out = (d', Inr (length out))
    \<and> dt_insert_count (qd_table d') = dt_insert_count (qe_table e)
    \<and> (\<forall>a x. get_absolute (qe_table e) a = Some x \<longrightarrow> get_absolute (qd_table d') a = Some x)
    \<and> qe_known_received_count e \<le> dt_insert_count (qe_table e)"
  using qpack_tables_synced_lemma [OF assms] by blast

theorem qpack_tables_synced_witness:
  "(100 :: nat) \<le> 100 \<and> (100 :: nat) < usize_MAX
   \<and> (\<exists>e out. enc_run [Enc_Set_Capacity 64, Enc_Insert [0x61] [0x62], Enc_Peer_Ici 1, Enc_Insert [0x63] []]
        (qpack_encoder_new 100) = (e, out)
      \<and> (\<exists>d'. feed_encoder_stream (\<lambda>_. None) (qpack_decoder_new \<lparr>max_table_capacity = 100, max_blocked_streams = 0\<rparr>) out
           = (d', Inr (length out))))"
proof -
  let ?ops = "[Enc_Set_Capacity 64, Enc_Insert [0x61] [0x62], Enc_Peer_Ici 1, Enc_Insert [0x63] []]"
  let ?d = "qpack_decoder_new \<lparr>max_table_capacity = 100, max_blocked_streams = 0\<rparr>"
  obtain e out where run: "enc_run ?ops (qpack_encoder_new 100) = (e, out)"
    by (cases "enc_run ?ops (qpack_encoder_new 100)")
  have utf8: "valid_utf8 [0x61]" "valid_utf8 [0x62]" "valid_utf8 [0x63]"
    by code_simp+
  have lt: "(100 :: nat) < usize_MAX" "length ?ops \<le> u64_MAX" "\<forall>op \<in> set ?ops. enc_op_ok op"
    and d: "qd_table ?d = dynamic_table_new 100"
    using utf8 by (simp_all add: usize_MAX_def u64_MAX_def qpack_decoder_new_def usize_try_from_def)
  show ?thesis
    using qpack_tables_synced [OF order.refl lt run d, of "\<lambda>_. None"] lt(1) run by blast
qed

text \<open>
  C16. The encoder stream can be cut anywhere: reading a first part and later the unread rest of it
  with more bytes gives the same table and the same number of bytes as reading everything at once,
  and an error found in the first part is final.
\<close>

theorem encoder_stream_resumable:
  "feed_encoder_stream huff d (p @ q) =
    (case feed_encoder_stream huff d p of
       (d1, Inl e) \<Rightarrow> (d1, Inl e)
     | (d1, Inr n) \<Rightarrow>
         (case feed_encoder_stream huff d1 (drop n p @ q) of
            (d2, Inl e) \<Rightarrow> (d2, Inl e)
          | (d2, Inr m) \<Rightarrow> (d2, Inr (n + m))))"
proof -
  obtain t1 rest e where run: "encoder_stream.run huff (qd_table d) p = (t1, rest, e)"
    by (cases "encoder_stream.run huff (qd_table d) p") auto
  obtain n where n: "n \<le> length p" "rest = drop n p"
    using encoder_stream.run_suffix [OF run] by blast
  show ?thesis
  proof (cases e)
    case None
    obtain t2 rest2 e2 where run2: "encoder_stream.run huff t1 (rest @ q) = (t2, rest2, e2)"
      by (cases "encoder_stream.run huff t1 (rest @ q)") auto
    have "length rest2 \<le> length (rest @ q)"
      using encoder_stream.run_suffix [OF run2] by auto
    moreover have "encoder_stream.run huff (qd_table d) (p @ q) = (t2, rest2, e2)"
      using encoder_stream.run_append [of huff "qd_table d" p t1 rest q] run None run2 by simp
    ultimately show ?thesis
      using run run2 None n
      by (cases e2) (auto simp: feed_encoder_stream_def feed_encoder_loop_run)
  next
    case (Some te)
    then show ?thesis
      using run encoder_stream.run_append_fail [of huff "qd_table d" p t1 rest te q]
      by (cases te) (simp add: feed_encoder_stream_def feed_encoder_loop_run)
  qed
qed

text \<open>
  C20. A peer can crash the endpoint: an Insert With Literal Name whose name length is so large that
  the sum with the length prefix leaves the range of \<^verbatim>\<open>usize\<close> panics, whatever the table holds and
  although the name has not arrived.
\<close>

theorem encoder_stream_panic:
  assumes "unat v \<le> usize_MAX" and "usize_MAX < length (qpack_int 0x40 5 v []) + unat v"
  shows "feed_encoder_stream huff d (qpack_int 0x40 5 v [] @ rest) = (d, Inl Feed_Panic)"
proof -
  let ?buf = "qint_bytes 0x40 5 v @ rest"
  have dec: "qpack_int_decode ?buf 5 = Some (v, length (qint_bytes 0x40 5 v))"
    by (rule qpack_int_decode_encode) (simp_all add: mask_eq_exp_minus_1)
  have flags: "hd ?buf AND 0x80 = 0" "hd ?buf AND 0x40 \<noteq> 0" "?buf \<noteq> []"
    using qint_bytes_flag [of 5 _ "0x40" v] by (simp_all add: mask_eq_exp_minus_1)
  have "insert_literal_name huff (qd_table d) ?buf = Fail (qd_table d, Feed_Panic)"
    using assms by (simp add: insert_literal_name_def dec usize_try_from_def wire_simps)
  then have "encoder_instruction huff (qd_table d) ?buf = Fail (qd_table d, Feed_Panic)"
    using flags by (cases ?buf) (auto simp: encoder_instruction_def)
  then show ?thesis
    by (simp add: feed_encoder_stream_def feed_encoder_loop_run encoder_stream.run_Fail wire_simps)
qed

theorem encoder_stream_panic_witness:
  "unat (0xFFFFFFFF :: u64) \<le> usize_MAX \<and> usize_MAX < length (qpack_int 0x40 5 0xFFFFFFFF []) + unat (0xFFFFFFFF :: u64)
   \<and> feed_encoder_stream (\<lambda>_. None) qpack_decoder_disabled (qpack_int 0x40 5 0xFFFFFFFF [] @ [])
       = (qpack_decoder_disabled, Inl Feed_Panic)"
proof -
  have 1: "unat (0xFFFFFFFF :: u64) \<le> usize_MAX"
    by (simp add: usize_MAX_def)
  have "length (qpack_int 0x40 5 0xFFFFFFFF []) = 6"
    by code_simp
  then have 2: "usize_MAX < length (qpack_int 0x40 5 0xFFFFFFFF []) + unat (0xFFFFFFFF :: u64)"
    by (simp add: usize_MAX_def)
  show ?thesis
    using 1 2 encoder_stream_panic [OF 1 2] by blast
qed

text \<open>
  C21. A complete instruction with a malformed value stalls the stream: it is neither consumed nor
  rejected, whatever follows it, so every later instruction is lost.
\<close>

theorem encoder_stream_stalls:
  assumes "valid_utf8 name" and "length name + 32 \<le> usize_MAX"
    and "\<not> valid_utf8 val" and "length val \<le> usize_MAX"
  shows "feed_encoder_stream huff d
      (qpack_int 0x40 5 (of_nat (length name)) [] @ name @ qpack_int 0x00 7 (of_nat (length val)) [] @ val @ rest)
    = (d, Inr 0)"
proof -
  let ?q = "qint_bytes 0x40 5 (of_nat (length name))" and ?v = "qint_bytes 0x00 7 (of_nat (length val))"
  let ?buf = "?q @ name @ ?v @ val @ rest"
  have dec: "qpack_int_decode ?buf 5 = Some (of_nat (length name), length ?q)"
    by (rule qpack_int_decode_encode) (simp_all add: mask_eq_exp_minus_1)
  have dec2: "qpack_int_decode (?v @ val @ rest) 7 = Some (of_nat (length val), length ?v)"
    by (rule qint7.dec_enc) simp
  have len: "unat (of_nat (length name) :: u64) = length name" "unat (of_nat (length val) :: u64) = length val"
    using assms(2,4) by (simp_all add: unat_of_nat_usize)
  have q: "length ?q \<le> 11"
    using qpack_int_decode_bound [OF dec] by simp
  have flags: "hd ?buf AND 0x80 = 0" "hd ?buf AND 0x40 \<noteq> 0" "hd ?buf AND 0x20 = 0" "?buf \<noteq> []"
    "hd (?v @ val @ rest) AND 0x80 = 0"
    using qint_bytes_flag [of 5 _ "0x40" "of_nat (length name)"] qint_bytes_flag [of 7 "0x80" "0x00" "of_nat (length val)"]
    by (simp_all add: mask_eq_exp_minus_1)
  have "read_qpack_string huff (?v @ val @ rest) = None"
    using assms(3,4) len(2) flags(5)
    by (subst read_qpack_string_eq [OF _ dec2]) (simp_all add: decode_qpack_bytes_def from_utf8_def)
  then have "insert_literal_name huff (qd_table d) ?buf = Wait"
    using assms(1,2) q flags(3)
    by (subst insert_literal_name_eq [OF dec]) (simp_all add: len decode_qpack_bytes_def from_utf8_def)
  then have "encoder_instruction huff (qd_table d) ?buf = Wait"
    using flags by (cases ?buf) (auto simp: encoder_instruction_def)
  then show ?thesis
    by (simp add: feed_encoder_stream_def feed_encoder_loop_run encoder_stream.run_Wait wire_simps)
qed

theorem encoder_stream_stalls_witness:
  "valid_utf8 [0x61] \<and> length [0x61 :: byte] + 32 \<le> usize_MAX \<and> \<not> valid_utf8 [0xFF] \<and> length [0xFF :: byte] \<le> usize_MAX
   \<and> feed_encoder_stream (\<lambda>_. None) qpack_decoder_disabled
      (qpack_int 0x40 5 (of_nat (length [0x61 :: byte])) [] @ [0x61]
        @ qpack_int 0x00 7 (of_nat (length [0xFF :: byte])) [] @ [0xFF] @ [0x00])
    = (qpack_decoder_disabled, Inr 0)"
proof -
  have "valid_utf8 [0x61]" and "\<not> valid_utf8 [0xFF]"
    by code_simp+
  moreover have "length [0x61 :: byte] + 32 \<le> usize_MAX" and "length [0xFF :: byte] \<le> usize_MAX"
    by (simp_all add: usize_MAX_def)
  ultimately show ?thesis
    using encoder_stream_stalls [of "[0x61]" "[0xFF]" "\<lambda>_. None" qpack_decoder_disabled "[0x00]"] by blast
qed

fun dec_bytes :: "u64 + u64 \<Rightarrow> bytes" where
  "dec_bytes (Inl sid) = encode_section_acknowledgement sid"
| "dec_bytes (Inr delta) = encode_insert_count_increment delta"

fun dec_effect :: "u64 + u64 \<Rightarrow> decoder_feed \<Rightarrow> decoder_feed" where
  "dec_effect (Inl sid) (ici, acks) = (ici, acks @ [sid])"
| "dec_effect (Inr delta) (ici, acks) = (sat_add u64_MAX ici (unat delta), acks)"

lemma decoder_instruction_bytes:
  "decoder_instruction s (dec_bytes i @ rest) = Advance (dec_effect i s) (length (dec_bytes i))"
proof (cases i)
  case (Inl sid)
  have dec: "qpack_int_decode (qint_bytes 0x80 7 sid @ rest) 7 = Some (sid, length (qint_bytes 0x80 7 sid))"
    by (rule qpack_int_decode_encode) (simp_all add: mask_eq_exp_minus_1)
  have "hd (qint_bytes 0x80 7 sid @ rest) AND 0x80 \<noteq> 0"
    using qint_bytes_flag [of 7 "0x80" "0x80" sid] by (simp add: mask_eq_exp_minus_1)
  then show ?thesis
    using dec Inl by (cases "qint_bytes 0x80 7 sid"; cases s)
      (auto simp: decoder_instruction_def encode_section_acknowledgement_def wire_simps)
next
  case (Inr delta)
  have dec: "qpack_int_decode (qint_bytes 0x00 6 delta @ rest) 6 = Some (delta, length (qint_bytes 0x00 6 delta))"
    by (rule qpack_int_decode_encode) (simp_all add: mask_eq_exp_minus_1)
  have "hd (qint_bytes 0x00 6 delta @ rest) AND 0x80 = 0" "hd (qint_bytes 0x00 6 delta @ rest) AND 0x40 = 0"
    using qint_bytes_flag [of 6 _ "0x00" delta] by (simp_all add: mask_eq_exp_minus_1)
  then show ?thesis
    using dec Inr by (cases "qint_bytes 0x00 6 delta"; cases s)
      (auto simp: decoder_instruction_def encode_insert_count_increment_def wire_simps)
qed

lemma decoder_stream_roundtrip_lemma:
  "feed_decoder_stream (concat (map dec_bytes is)) =
    (length (concat (map dec_bytes is)),
     min (sum_list (map (\<lambda>i. case i of Inl _ \<Rightarrow> 0 | Inr d \<Rightarrow> unat d) is)) u64_MAX,
     concat (map (\<lambda>i. case i of Inl sid \<Rightarrow> [sid] | Inr _ \<Rightarrow> []) is))"
proof -
  have run: "decoder_stream.run s (concat (map dec_bytes is)) = (fold dec_effect is s, [], None)" for s
  proof (induction "is" arbitrary: s)
    case Nil
    have "decoder_instruction s [] = Wait"
      by (simp add: decoder_instruction_def split: prod.split)
    then show ?case
      by (simp add: decoder_stream.run_Wait)
  next
    case (Cons i "is")
    from decoder_stream.run_Advance [OF decoder_instruction_bytes] Cons show ?case
      by simp
  qed
  have "fold dec_effect is (n, acks) =
      (if is = [] then n else min (n + sum_list (map (\<lambda>i. case i of Inl _ \<Rightarrow> 0 | Inr d \<Rightarrow> unat d) is)) u64_MAX,
       acks @ concat (map (\<lambda>i. case i of Inl sid \<Rightarrow> [sid] | Inr _ \<Rightarrow> []) is))" if "n \<le> u64_MAX" for n acks
    using that
  proof (induction "is" arbitrary: n acks)
    case (Cons i "is")
    then show ?case
      by (cases i) (auto simp: sat_add_def min_def)
  qed simp
  then show ?thesis
    by (simp add: feed_decoder_stream_def feed_decoder_loop_run run)
qed

text \<open>
  Acknowledgements arrive: a decoder stream made of section acknowledgements and insert count
  increments is consumed completely, the increments are summed (up to the 64-bit limit) and the
  acknowledged streams are reported in order.
\<close>

theorem decoder_stream_roundtrip:
  "feed_decoder_stream (concat (map dec_bytes is)) =
    (length (concat (map dec_bytes is)),
     min (sum_list (map (\<lambda>i. case i of Inl _ \<Rightarrow> 0 | Inr d \<Rightarrow> unat d) is)) u64_MAX,
     concat (map (\<lambda>i. case i of Inl sid \<Rightarrow> [sid] | Inr _ \<Rightarrow> []) is))"
  by (rule decoder_stream_roundtrip_lemma)

text \<open>
  The acknowledgement loop closes: when a decoder that starts empty has read an encoder's
  stream, it answers with one increment on its decoder stream, and an encoder side that reads the
  answer knows all of its inserts received.
\<close>

theorem ack_loop_closes:
  assumes "max_e \<le> qpack_max" and "qpack_max < usize_MAX" and "length ops \<le> u64_MAX"
    and "\<forall>op \<in> set ops. enc_op_ok op" and "enc_run ops (qpack_encoder_new max_e) = (e, out)"
    and "0 < dt_insert_count (qe_table e)" and "length out \<le> 2 ^ 20"
    and "qd_table (qs_decoder b) = dynamic_table_new qpack_max" and "qs_encoder_rx b = out"
    and "qs_decoder_send b = Some sid"
  shows "\<exists>b' ici. parse_qpack_encoder huff b = (b', Conn_Continue (Some (sid, ici))) \<and> qs_encoder_rx b' = []
    \<and> (\<forall>a. qs_encoder a = e \<longrightarrow> qs_decoder_rx a = ici \<longrightarrow>
          (\<exists>a'. parse_qpack_decoder a = (a', Conn_Continue None) \<and> qs_decoder_rx a' = []
             \<and> qe_known_received_count (qs_encoder a') = dt_insert_count (qe_table (qs_encoder a'))))"
proof -
  let ?ic = "dt_insert_count (qe_table e)"
  let ?ici = "encode_insert_count_increment (of_nat ?ic)"
  from qpack_tables_synced_lemma [OF assms(1-5,8), of huff] obtain d' where d':
      "feed_encoder_stream huff (qs_decoder b) out = (d', Inr (length out))"
      "dt_insert_count (qd_table d') = ?ic" "?ic \<le> u64_MAX"
    by blast
  have "\<exists>b'. parse_qpack_encoder huff b = (b', Conn_Continue (Some (sid, ?ici))) \<and> qs_encoder_rx b' = []"
    using assms(6-10) d' by (simp add: parse_qpack_encoder_def unat_MAX_H3_FRAME_SIZE dynamic_table_new_def Let_def)
  moreover have "\<exists>a'. parse_qpack_decoder a = (a', Conn_Continue None) \<and> qs_decoder_rx a' = []
      \<and> qe_known_received_count (qs_encoder a') = dt_insert_count (qe_table (qs_encoder a'))"
    if a: "qs_encoder a = e" "qs_decoder_rx a = ?ici" for a
  proof -
    have feed: "feed_decoder_stream ?ici = (length ?ici, unat (of_nat ?ic :: u64), [])"
      using decoder_stream_roundtrip_lemma [of "[Inr (of_nat ?ic)]"]
        unsigned_less [of "of_nat ?ic :: u64", where ?'a = nat] by (simp add: u64_MAX_def min_def)
    have ic: "unat (of_nat ?ic :: u64) = ?ic"
      using d'(3) by (subst unsigned_of_nat) (simp add: u64_MAX_def take_bit_nat_eq_self)
    have "length ?ici \<le> 11"
      using qpack_int_decode_bound [of ?ici 6] qpack_int_decode_encode [of 6 "0x00" "of_nat ?ic" "[]"]
      by (simp add: encode_insert_count_increment_def wire_simps)
    then show ?thesis
      using a feed assms(6) d'(3)
      by (simp add: parse_qpack_decoder_def unat_MAX_H3_FRAME_SIZE Let_def ic note_peer_ici_def sat_add_def)
  qed
  ultimately show ?thesis
    by blast
qed

theorem ack_loop_closes_witness:
  "\<exists>e out b b' ici. enc_run [Enc_Set_Capacity 64, Enc_Insert [0x61] [0x62]] (qpack_encoder_new 100) = (e, out)
     \<and> 0 < dt_insert_count (qe_table e) \<and> length out \<le> 2 ^ 20 \<and> qs_encoder_rx b = out
     \<and> parse_qpack_encoder (\<lambda>_. None) b = (b', Conn_Continue (Some (3, ici)))"
proof -
  let ?ops = "[Enc_Set_Capacity 64, Enc_Insert [0x61] [0x62]]" and ?q = "qpack_int 0x20 5 64 []"
  let ?i = "qpack_int 0x00 7 1 (qpack_int 0x40 5 1 [] @ [0x61]) @ [0x62]"
  let ?e = "\<lparr>qe_table = \<lparr>dt_entries = [\<lparr>de_name = [0x61], de_value = [0x62]\<rparr>], dt_capacity = 64,
    dt_max_capacity = 100, dt_size = 34, dt_insert_count = 1\<rparr>, qe_known_received_count = 0\<rparr>"
  have run: "enc_run ?ops (qpack_encoder_new 100) = (?e, ?q @ ?i)"
    by (simp add: qpack_encoder_new_def set_capacity_instruction_def set_capacity_with_ack_floor_def
        evict_to_fit_def evict_loop.simps [of _ _ "\<lparr>dt_entries = [], dt_capacity = 64, dt_max_capacity = 100, dt_size = 0, dt_insert_count = 0\<rparr>"]
        dynamic_table_new_def insert_literal_instruction_def insert_with_ack_floor_def
        entry_size_def sat_add_def usize_MAX_def u64_MAX_def push_entry_def bytes_of_def Let_def)
  let ?b = "\<lparr>qs_decoder = qpack_decoder_new \<lparr>max_table_capacity = 100, max_blocked_streams = 0\<rparr>,
    qs_encoder = qpack_encoder_disabled, qs_encoder_rx = ?q @ ?i, qs_decoder_rx = [], qs_decoder_send = Some 3,
    qs_pending_section_ric = Map.empty\<rparr>"
  have utf8: "valid_utf8 [0x61]" "valid_utf8 [0x62]"
    by code_simp+
  have "length (?q @ ?i) = 6"
    by code_simp
  then have len: "length (?q @ ?i) \<le> 2 ^ 20"
    by simp
  have lt: "(100 :: nat) < usize_MAX" "length ?ops \<le> u64_MAX" "\<forall>op \<in> set ?ops. enc_op_ok op"
    and ic: "0 < dt_insert_count (qe_table ?e)"
    and b: "qd_table (qs_decoder ?b) = dynamic_table_new 100" "qs_encoder_rx ?b = ?q @ ?i" "qs_decoder_send ?b = Some 3"
    using utf8 by (simp_all add: usize_MAX_def u64_MAX_def qpack_decoder_new_def usize_try_from_def)
  show ?thesis
    using ack_loop_closes [OF order.refl lt run ic len b, of "\<lambda>_. None"] run ic len b(2) by blast
qed

end
