(* ===== verification/Qpack_Section.thy ===== *)
theory Qpack_Section
  imports Qpack_Stream
begin

text \<open>
  QPACK field sections and the HEADERS frames built from them, \<^verbatim>\<open>crates/wasm/src/h3.rs\<close>: the
  Required Insert Count and Base prefix, the decoder of field lines, and the requests and responses
  of a WebTransport session with and without the dynamic table.
\<close>

unbundle bit_operations_syntax

section \<open>Definitions\<close>

definition encode_required_insert_count :: "nat \<Rightarrow> nat \<Rightarrow> nat option" where
  "encode_required_insert_count ric max_capacity =
     (if ric = 0 then Some 0
      else
        let max_entries = max_capacity div 32 in
        if max_entries = 0 then None else Some (ric mod (2 * max_entries) + 1))"

definition ok_or :: "'a option \<Rightarrow> qpack_error + 'a" where
  "ok_or x = (case x of None \<Rightarrow> Inl Invalid | Some a \<Rightarrow> Inr a)"

definition ebind :: "'e + 'a \<Rightarrow> ('a \<Rightarrow> 'e + 'b) \<Rightarrow> 'e + 'b" where
  "ebind x f = (case x of Inl e \<Rightarrow> Inl e | Inr a \<Rightarrow> f a)"

definition decode_required_insert_count :: "nat \<Rightarrow> nat \<Rightarrow> nat \<Rightarrow> qpack_error + nat" where
  "decode_required_insert_count encoded max_capacity total_inserts =
     (if encoded = 0 then Inr 0
      else
        let max_entries = max_capacity div 32 in
        if max_entries = 0 then Inl Invalid
        else if 2 * max_entries > u64_MAX then Inl Invalid
        else
          let full_range = 2 * max_entries in
          ebind (ok_or (checked_add u64_MAX total_inserts max_entries)) (\<lambda>max_value.
          let max_wrapped = sat_mul u64_MAX (max_value div full_range) full_range in
          ebind (ok_or (checked_add u64_MAX max_wrapped encoded)) (\<lambda>x.
          ebind (ok_or (checked_sub x 1)) (\<lambda>ric.
          ebind (if ric > max_value then
                   if ric \<le> sat_add u64_MAX max_value max_entries then ok_or (checked_sub ric full_range)
                   else Inl Invalid
                 else Inr ric) (\<lambda>ric.
          if ric = 0 then Inl Invalid else Inr ric)))))"

definition encode_field_section_prefix :: "nat \<Rightarrow> nat \<Rightarrow> nat \<Rightarrow> bytes \<Rightarrow> bytes option" where
  "encode_field_section_prefix ric base max_capacity out =
     (case encode_required_insert_count ric max_capacity of
        None \<Rightarrow> None
      | Some encoded_ric \<Rightarrow>
          let out = qpack_int 0x00 8 (of_nat encoded_ric) out in
          if base \<ge> ric then Some (qpack_int 0x00 7 (of_nat (base - ric)) out)
          else Some (qpack_int 0x80 7 (of_nat (ric - base - 1)) out))"

definition encode_indexed_newest_section :: "qpack_encoder \<Rightarrow> bytes option" where
  "encode_indexed_newest_section e =
     (let insert_count = dt_insert_count (qe_table e) in
      if insert_count = 0 then None
      else
        map_option (qpack_int 0x80 6 0)
          (encode_field_section_prefix insert_count insert_count (dt_max_capacity (qe_table e)) []))"

definition encode_dynamic_indexed :: "nat \<Rightarrow> nat \<Rightarrow> bytes \<Rightarrow> bytes option" where
  "encode_dynamic_indexed ab base out =
     (case checked_sub base ab of
        None \<Rightarrow> None
      | Some rel \<Rightarrow> Some (qpack_int 0x80 6 (of_nat rel) out))"

record encoded_headers =
  eh_headers_frame :: bytes
  eh_encoder_stream :: bytes
  eh_ric :: nat

text \<open>
  The encoder, the encoder-stream bytes so far and the index of the entry. On an error the callers
  drop the encoder they worked on.
\<close>

definition ensure_dynamic_entry ::
    "bytes \<Rightarrow> bytes \<Rightarrow> qpack_encoder \<Rightarrow> bytes \<Rightarrow> qpack_error + (qpack_encoder \<times> bytes \<times> nat)" where
  "ensure_dynamic_entry name val encoder encoder_stream =
     (case find_absolute name val encoder of
        Some ab \<Rightarrow> Inr (encoder, encoder_stream, ab)
      | None \<Rightarrow>
          case insert_literal_instruction name val encoder of
            (_, Inl err) \<Rightarrow> Inl err
          | (encoder', Inr bs) \<Rightarrow> Inr (encoder', encoder_stream @ bs, dt_insert_count (qe_table encoder')))"

definition encode_connect_request :: "bytes \<Rightarrow> bytes \<Rightarrow> bytes" where
  "encode_connect_request authority path =
     (let fields = [0x00, 0x00];
          fields = qpack_literal (str_lit '':method'') (str_lit ''CONNECT'') fields;
          fields = qpack_literal (str_lit '':protocol'') (str_lit ''webtransport'') fields;
          fields = qpack_literal (str_lit '':scheme'') (str_lit ''https'') fields;
          fields = qpack_literal (str_lit '':authority'') authority fields;
          fields = qpack_literal (str_lit '':path'') path fields
      in frame_wrap frame_HEADERS fields)"

definition encode_get_request :: "bytes \<Rightarrow> bytes \<Rightarrow> bytes" where
  "encode_get_request authority path =
     (let fields = [0x00, 0x00];
          fields = qpack_literal (str_lit '':method'') (str_lit ''GET'') fields;
          fields = qpack_literal (str_lit '':scheme'') (str_lit ''https'') fields;
          fields = qpack_literal (str_lit '':authority'') authority fields;
          fields = qpack_literal (str_lit '':path'') path fields
      in frame_wrap frame_HEADERS fields)"

definition encode_status_response :: "bytes \<Rightarrow> bytes" where
  "encode_status_response status =
     (let fields = [0x00, 0x00];
          fields = qpack_literal (str_lit '':status'') status fields
      in frame_wrap frame_HEADERS fields)"

definition encode_connect_response_ok :: bytes where
  "encode_connect_response_ok = encode_status_response (str_lit ''200'')"

text \<open>The scratch encoder with the capacity announced before the first insert.\<close>

definition announce_capacity :: "qpack_encoder \<Rightarrow> qpack_error + (qpack_encoder \<times> bytes)" where
  "announce_capacity scratch =
     (if dt_insert_count (qe_table scratch) = 0 then
        (case set_capacity_instruction (dt_max_capacity (qe_table scratch)) scratch of
           (_, Inl err) \<Rightarrow> Inl err
         | (scratch', Inr bs) \<Rightarrow> Inr (scratch', bs))
      else Inr (scratch, []))"

definition connect_scratch ::
    "bytes \<Rightarrow> bytes \<Rightarrow> qpack_encoder \<Rightarrow> qpack_error + (qpack_encoder \<times> encoded_headers)" where
  "connect_scratch authority path encoder =
     ebind (announce_capacity encoder) (\<lambda>(scratch, es).
     ebind (ensure_dynamic_entry (str_lit '':method'') (str_lit ''CONNECT'') scratch es) (\<lambda>(scratch, es, method).
     ebind (ensure_dynamic_entry (str_lit '':protocol'') (str_lit ''webtransport'') scratch es) (\<lambda>(scratch, es, protocol).
     ebind (ensure_dynamic_entry (str_lit '':scheme'') (str_lit ''https'') scratch es) (\<lambda>(scratch, es, scheme).
     ebind (ensure_dynamic_entry (str_lit '':authority'') authority scratch es) (\<lambda>(scratch, es, auth).
     ebind (ensure_dynamic_entry (str_lit '':path'') path scratch es) (\<lambda>(scratch, es, path_abs).
     let insert_count = dt_insert_count (qe_table scratch); ric = insert_count; base = insert_count in
     ebind (ok_or (encode_field_section_prefix ric base (dt_max_capacity (qe_table scratch)) [])) (\<lambda>fields.
     ebind (ok_or (encode_dynamic_indexed method base fields)) (\<lambda>fields.
     ebind (ok_or (encode_dynamic_indexed protocol base fields)) (\<lambda>fields.
     ebind (ok_or (encode_dynamic_indexed scheme base fields)) (\<lambda>fields.
     ebind (ok_or (encode_dynamic_indexed auth base fields)) (\<lambda>fields.
     ebind (ok_or (encode_dynamic_indexed path_abs base fields)) (\<lambda>fields.
     Inr (scratch, \<lparr>eh_headers_frame = frame_wrap frame_HEADERS fields, eh_encoder_stream = es, eh_ric = ric\<rparr>)))))))))))))"

definition encode_connect_request_with ::
    "bytes \<Rightarrow> bytes \<Rightarrow> qpack_encoder \<Rightarrow> qpack_encoder \<times> (qpack_error + encoded_headers)" where
  "encode_connect_request_with authority path encoder =
     (if dt_max_capacity (qe_table encoder) = 0 then
        (encoder, Inr \<lparr>eh_headers_frame = encode_connect_request authority path, eh_encoder_stream = [], eh_ric = 0\<rparr>)
      else case connect_scratch authority path encoder of
        Inl err \<Rightarrow> (encoder, Inl err)
      | Inr (scratch, h) \<Rightarrow> (scratch, Inr h))"

definition status_scratch :: "bytes \<Rightarrow> qpack_encoder \<Rightarrow> qpack_error + (qpack_encoder \<times> encoded_headers)" where
  "status_scratch status encoder =
     ebind (announce_capacity encoder) (\<lambda>(scratch, es).
     ebind (ensure_dynamic_entry (str_lit '':status'') status scratch es) (\<lambda>(scratch, es, status_abs).
     let insert_count = dt_insert_count (qe_table scratch); ric = insert_count; base = insert_count in
     ebind (ok_or (encode_field_section_prefix ric base (dt_max_capacity (qe_table scratch)) [])) (\<lambda>fields.
     ebind (ok_or (encode_dynamic_indexed status_abs base fields)) (\<lambda>fields.
     Inr (scratch, \<lparr>eh_headers_frame = frame_wrap frame_HEADERS fields, eh_encoder_stream = es, eh_ric = ric\<rparr>)))))"

definition encode_status_response_with ::
    "bytes \<Rightarrow> qpack_encoder \<Rightarrow> qpack_encoder \<times> (qpack_error + encoded_headers)" where
  "encode_status_response_with status encoder =
     (if dt_max_capacity (qe_table encoder) = 0 then
        (encoder, Inr \<lparr>eh_headers_frame = encode_status_response status, eh_encoder_stream = [], eh_ric = 0\<rparr>)
      else case status_scratch status encoder of
        Inl err \<Rightarrow> (encoder, Inl err)
      | Inr (scratch, h) \<Rightarrow> (scratch, Inr h))"

definition encode_connect_response_ok_with ::
    "qpack_encoder \<Rightarrow> qpack_encoder \<times> (qpack_error + encoded_headers)" where
  "encode_connect_response_ok_with encoder = encode_status_response_with (str_lit ''200'') encoder"

text \<open>The endpoint falls back to literals when the dynamic encoding fails.\<close>

definition encode_status_for_session :: "bytes \<Rightarrow> qpack_session \<Rightarrow> qpack_session \<times> encoded_headers" where
  "encode_status_for_session status s =
     (case encode_status_response_with status (qs_encoder s) of
        (e, Inr h) \<Rightarrow> (s\<lparr>qs_encoder := e\<rparr>, h)
      | (e, Inl _) \<Rightarrow>
          (s\<lparr>qs_encoder := e\<rparr>,
           \<lparr>eh_headers_frame = encode_status_response status, eh_encoder_stream = [], eh_ric = 0\<rparr>))"

subsection \<open>Decoding\<close>

type_synonym header_field = "bytes \<times> bytes"

text \<open>
  One field line at the front of a non-empty buffer: the field and the rest of the buffer. Every
  failure is \<open>Invalid\<close>.
\<close>

definition indexed_line :: "dynamic_table \<Rightarrow> nat \<Rightarrow> bytes \<Rightarrow> (header_field \<times> bytes) option" where
  "indexed_line t base buf =
     (case qpack_int_decode buf 6 of
        None \<Rightarrow> None
      | Some (idx, n) \<Rightarrow>
          map_option (\<lambda>f. (f, drop n buf))
            (if hd buf AND 0x40 \<noteq> 0 then qpack_static idx else get_relative t (unat idx) base))"

definition literal_name_reference_line ::
    "(bytes \<Rightarrow> bytes option) \<Rightarrow> dynamic_table \<Rightarrow> nat \<Rightarrow> bytes \<Rightarrow> (header_field \<times> bytes) option" where
  "literal_name_reference_line huff t base buf =
     (case qpack_int_decode buf 4 of
        None \<Rightarrow> None
      | Some (idx, n) \<Rightarrow>
          case (if hd buf AND 0x10 \<noteq> 0 then qpack_static idx else get_relative t (unat idx) base) of
            None \<Rightarrow> None
          | Some (name, _) \<Rightarrow>
              map_option (\<lambda>(val, rest). ((name, val), rest)) (read_qpack_string huff (drop n buf)))"

definition literal_name_line ::
    "(bytes \<Rightarrow> bytes option) \<Rightarrow> bytes \<Rightarrow> (header_field \<times> bytes) option" where
  "literal_name_line huff buf =
     (case qpack_int_decode buf 3 of
        None \<Rightarrow> None
      | Some (nlen, n1) \<Rightarrow>
          case usize_try_from nlen of
            None \<Rightarrow> None
          | Some nlen_us \<Rightarrow>
              if length (drop n1 buf) < nlen_us then None
              else
                case decode_qpack_bytes huff (take nlen_us (drop n1 buf)) (hd buf AND 0x08 \<noteq> 0) of
                  None \<Rightarrow> None
                | Some name \<Rightarrow>
                    map_option (\<lambda>(val, rest). ((name, val), rest))
                      (read_qpack_string huff (drop nlen_us (drop n1 buf))))"

definition post_base_line :: "dynamic_table \<Rightarrow> nat \<Rightarrow> bytes \<Rightarrow> (header_field \<times> bytes) option" where
  "post_base_line t base buf =
     (case qpack_int_decode buf 4 of
        None \<Rightarrow> None
      | Some (idx, n) \<Rightarrow> map_option (\<lambda>f. (f, drop n buf)) (get_post_base t (unat idx) base))"

definition literal_post_base_line ::
    "(bytes \<Rightarrow> bytes option) \<Rightarrow> dynamic_table \<Rightarrow> nat \<Rightarrow> bytes \<Rightarrow> (header_field \<times> bytes) option" where
  "literal_post_base_line huff t base buf =
     (case qpack_int_decode buf 3 of
        None \<Rightarrow> None
      | Some (idx, n) \<Rightarrow>
          case get_post_base t (unat idx) base of
            None \<Rightarrow> None
          | Some (name, _) \<Rightarrow>
              map_option (\<lambda>(val, rest). ((name, val), rest)) (read_qpack_string huff (drop n buf)))"

definition decode_field_line ::
    "(bytes \<Rightarrow> bytes option) \<Rightarrow> dynamic_table \<Rightarrow> nat \<Rightarrow> bytes \<Rightarrow> (header_field \<times> bytes) option" where
  "decode_field_line huff t base buf =
     (if hd buf AND 0x80 \<noteq> 0 then indexed_line t base buf
      else if hd buf AND 0x40 \<noteq> 0 then literal_name_reference_line huff t base buf
      else if hd buf AND 0x20 \<noteq> 0 then literal_name_line huff buf
      else if hd buf AND 0x10 \<noteq> 0 then post_base_line t base buf
      else literal_post_base_line huff t base buf)"

lemma read_qpack_string_shorter:
  "read_qpack_string huff (drop n buf) = Some (s, rest) \<Longrightarrow> length rest < length buf"
  using read_qpack_string_suffix by fastforce

lemma decode_field_line_shorter:
  assumes "decode_field_line huff t base buf = Some (f, rest)"
  shows "length rest < length buf"
proof -
  have "length (drop n buf) < length buf" if "qpack_int_decode buf k = Some (v, n)" for k v n
    using qpack_int_decode_bound [OF that] by auto
  moreover have "length rest < length buf"
    if "read_qpack_string huff (drop i (drop n buf)) = Some (s, rest)" for i n s
    using read_qpack_string_shorter [of huff "i + n" buf] that by (simp add: add.commute)
  ultimately show ?thesis
    using assms
    by (auto simp: decode_field_line_def indexed_line_def literal_name_reference_line_def literal_name_line_def
        post_base_line_def literal_post_base_line_def
        split: option.splits if_splits prod.splits dest: read_qpack_string_shorter)
qed

function decode_lines ::
    "(bytes \<Rightarrow> bytes option) \<Rightarrow> dynamic_table \<Rightarrow> nat \<Rightarrow> bytes \<Rightarrow> header_field list \<Rightarrow> qpack_error + header_field list" where
  "decode_lines huff t base buf out =
     (if buf = [] then Inr out
      else case decode_field_line huff t base buf of
        None \<Rightarrow> Inl Invalid
      | Some (f, rest) \<Rightarrow> decode_lines huff t base rest (out @ [f]))"
  by pat_completeness auto
termination
  by (relation "measure (\<lambda>(_, _, _, buf, _). length buf)") (auto dest: decode_field_line_shorter)

declare decode_lines.simps [simp del]

definition decode_field_section ::
    "(bytes \<Rightarrow> bytes option) \<Rightarrow> bytes \<Rightarrow> qpack_decoder \<Rightarrow> qpack_error + (header_field list \<times> nat)" where
  "decode_field_section huff buf decoder =
     (if length buf < 2 then Inl Invalid
      else
        ebind (ok_or (qpack_int_decode buf 8)) (\<lambda>(encoded_ric, n_ric).
        let buf = drop n_ric buf; t = qd_table decoder in
        ebind (decode_required_insert_count (unat encoded_ric) (dt_max_capacity t) (dt_insert_count t)) (\<lambda>ric.
        if ric > dt_insert_count t then Inl Blocked
        else if buf = [] then Inl Invalid
        else
          let s_bit = (hd buf AND 0x80 \<noteq> 0) in
          ebind (ok_or (qpack_int_decode buf 7)) (\<lambda>(delta_base, n_base).
          let buf = drop n_base buf in
          ebind (if \<not> s_bit then ok_or (checked_add u64_MAX ric (unat delta_base))
                 else ebind (ok_or (checked_sub ric (unat delta_base))) (\<lambda>x. ok_or (checked_sub x 1))) (\<lambda>base.
          ebind (decode_lines huff t base buf []) (\<lambda>out. Inr (out, ric)))))))"

definition decode_literal_headers :: "(bytes \<Rightarrow> bytes option) \<Rightarrow> bytes \<Rightarrow> header_field list option" where
  "decode_literal_headers huff buf =
     (case decode_field_section huff buf qpack_decoder_disabled of
        Inl _ \<Rightarrow> None
      | Inr (headers, _) \<Rightarrow> Some headers)"

section \<open>Required Insert Count\<close>

lemma ebind_simps [simp]: "ebind (Inl e) f = Inl e" "ebind (Inr a) f = f a"
  by (simp_all add: ebind_def)

lemma ebind_eq_Inr: "ebind x f = Inr b \<longleftrightarrow> (\<exists>a. x = Inr a \<and> f a = Inr b)"
  by (cases x) auto

lemma ok_or_simps [simp]: "ok_or None = Inl Invalid" "ok_or (Some a) = Inr a"
  by (simp_all add: ok_or_def)

lemma ok_or_eq_Inr [simp]: "ok_or x = Inr a \<longleftrightarrow> x = Some a"
  by (cases x) auto

lemma required_insert_count_decode:
  assumes "0 < ric" and "0 < max_capacity div 32" and "tot < ric + max_capacity div 32"
    and "ric \<le> tot + max_capacity div 32" and "tot + 3 * (max_capacity div 32) \<le> u64_MAX"
  shows "decode_required_insert_count (ric mod (2 * (max_capacity div 32)) + 1) max_capacity tot =
    (if ric \<le> tot \<or> ric div (2 * (max_capacity div 32)) = (tot + max_capacity div 32) div (2 * (max_capacity div 32))
     then Inr ric else Inl Invalid)"
proof -
  define M where "M = max_capacity div 32"
  define w where "w = (tot + M) div (2 * M)"
  define q where "q = ric div (2 * M)"
  have M: "0 < M" and win: "tot < ric + M" "ric \<le> tot + M" "tot + 3 * M \<le> u64_MAX"
    using assms by (simp_all add: M_def)
  have ric: "ric = q * (2 * M) + ric mod (2 * M)"
    unfolding q_def by (rule div_mult_mod_eq [symmetric])
  have wM: "w * (2 * M) \<le> tot + M" "tot + M < w * (2 * M) + 2 * M"
    using M div_mult_mod_eq [of "tot + M" "2 * M"] mod_less_divisor [of "2 * M" "tot + M"]
    unfolding w_def by linarith+
  have rem: "ric mod (2 * M) < 2 * M"
    using M by simp
  have "q \<le> w"
    unfolding q_def w_def using win(2) by (rule div_le_mono)
  moreover have "w \<le> q + 1"
  proof -
    have "tot + M \<le> ric + 2 * M"
      using win(1) by simp
    then have "w \<le> (ric + 2 * M) div (2 * M)"
      unfolding w_def by (rule div_le_mono)
    then show ?thesis
      using M div_add_self2 [of "2 * M" ric] unfolding q_def by linarith
  qed
  ultimately consider "q = w" | "q + 1 = w"
    by linarith
  then show ?thesis
  proof cases
    case 1
    then have "w * (2 * M) + ric mod (2 * M) = ric"
      using ric by simp
    moreover have "ric div (2 * M) = (tot + M) div (2 * M)"
      using 1 by (simp add: q_def w_def)
    ultimately show ?thesis
      using M win wM assms(1)
      by (simp add: decode_required_insert_count_def M_def [symmetric] Let_def checked_add_def checked_sub_def
          sat_mul_def w_def [symmetric] min_def)
  next
    case 2
    then have sum: "w * (2 * M) + ric mod (2 * M) = ric + 2 * M"
      using ric by (metis add.assoc add.commute add_mult_distrib mult_1)
    have neq: "ric div (2 * M) \<noteq> (tot + M) div (2 * M)"
      using 2 by (simp add: q_def w_def)
    show ?thesis
      using M win wM assms(1) sum neq
      by (auto simp: decode_required_insert_count_def M_def [symmetric] Let_def checked_add_def checked_sub_def
          sat_mul_def sat_add_def w_def [symmetric] min_def)
  qed
qed

section \<open>Field lines\<close>

lemma decode_lines_Nil [simp]: "decode_lines huff t base [] out = Inr out"
  by (simp add: decode_lines.simps)

lemma decode_lines_step:
  assumes "decode_field_line huff t base buf = Some (f, rest)" and "buf \<noteq> []"
  shows "decode_lines huff t base buf out = decode_lines huff t base rest (out @ [f])"
  using assms by (simp add: decode_lines.simps [of huff t base buf])

lemma decode_lines_literal:
  assumes "qstr_ok name" and "qstr_ok val"
  shows "decode_lines huff t base (qpack_literal name val [] @ rest) out
    = decode_lines huff t base rest (out @ [(name, val)])"
proof -
  let ?q = "qint_bytes 0x20 3 (of_nat (length name))"
  let ?buf = "?q @ name @ qstr_bytes val @ rest"
  have dec: "qpack_int_decode ?buf 3 = Some (of_nat (length name), length ?q)"
    by (rule qint_name.dec_enc) simp
  have len: "unat (of_nat (length name) :: u64) = length name"
    using assms(1) by (simp add: qstr_ok_def unat_of_nat_usize)
  have flags: "hd ?buf AND 0x80 = 0" "hd ?buf AND 0x40 = 0" "hd ?buf AND 0x20 \<noteq> 0" "hd ?buf AND 0x08 = 0" "?buf \<noteq> []"
    using qint_bytes_flag [of 3 _ "0x20" "of_nat (length name)"] by (simp_all add: mask_eq_exp_minus_1)
  have "decode_field_line huff t base ?buf = Some ((name, val), rest)"
    using flags(1-4) assms(1) read_qpack_string_encode [OF assms(2), of huff rest]
    by (simp add: decode_field_line_def literal_name_line_def dec len usize_try_from_def qstr_ok_def
        decode_qpack_bytes_def from_utf8_def)
  from decode_lines_step [OF this flags(5)] show ?thesis
    by (simp add: wire_simps)
qed

lemma decode_lines_indexed:
  assumes "get_absolute t ab = Some f" and "ab \<le> base" and "base \<le> u64_MAX"
  shows "decode_lines huff t base (qint_bytes 0x80 6 (of_nat (base - ab)) @ rest) out
    = decode_lines huff t base rest (out @ [f])"
proof -
  define w :: u64 where "w = of_nat (base - ab)"
  let ?q = "qint_bytes 0x80 6 w"
  have dec: "qpack_int_decode (?q @ rest) 6 = Some (w, length ?q)"
    by (rule qpack_int_decode_encode) (simp_all add: mask_eq_exp_minus_1)
  have idx: "unat w = base - ab"
    unfolding w_def using assms(3) by (subst unsigned_of_nat) (simp add: u64_MAX_def take_bit_nat_eq_self)
  have flags: "hd (?q @ rest) AND 0x80 \<noteq> 0" "hd (?q @ rest) AND 0x40 = 0" "?q @ rest \<noteq> []"
    using qint_bytes_flag [of 6 _ "0x80" w] by (simp_all add: mask_eq_exp_minus_1)
  have "decode_field_line huff t base (?q @ rest) = Some (f, rest)"
    using flags(1,2) assms(1,2)
    by (simp add: decode_field_line_def indexed_line_def dec idx get_relative_def checked_sub_def)
  from decode_lines_step [OF this flags(3)] show ?thesis
    unfolding w_def .
qed

lemma decode_section_literal:
  "decode_field_section huff (0x00 # 0x00 # lines) d = ebind (decode_lines huff (qd_table d) 0 lines []) (\<lambda>out. Inr (out, 0))"
proof -
  have 1: "qpack_int_decode (0x00 # 0x00 # lines) 8 = Some (0, 1)" and 2: "qpack_int_decode (0x00 # lines) 7 = Some (0, 1)"
    using unat_prefix_max [of 8] unat_prefix_max [of 7]
    by (simp_all add: qpack_int_decode_def Let_def word_less_nat_alt)
  show ?thesis
    by (simp add: decode_field_section_def 1 2 decode_required_insert_count_def checked_add_def Let_def)
qed

lemma decode_section_dynamic:
  assumes "encode_field_section_prefix ric ric (dt_max_capacity (qd_table d)) [] = Some p"
    and "0 < ric" and "dt_insert_count (qd_table d) = ric"
    and "ric + 3 * (dt_max_capacity (qd_table d) div 32) \<le> u64_MAX"
  shows "decode_field_section huff (p @ lines) d
    = ebind (decode_lines huff (qd_table d) ric lines []) (\<lambda>out. Inr (out, ric))"
proof -
  let ?M = "dt_max_capacity (qd_table d) div 32"
  define enc where "enc = ric mod (2 * ?M) + 1"
  define w :: u64 where "w = of_nat enc"
  have M: "0 < ?M" and p: "p = qint_bytes 0x00 8 w @ qint_bytes 0x00 7 0"
    using assms(1,2) by (auto simp: w_def enc_def encode_field_section_prefix_def encode_required_insert_count_def Let_def
        wire_simps split: if_splits)
  have "ric mod (2 * ?M) < 2 * ?M"
    using M by simp
  then have "enc \<le> u64_MAX"
    using assms(4) unfolding enc_def by linarith
  then have unat_w: "unat w = enc"
    unfolding w_def by (subst unsigned_of_nat) (simp add: u64_MAX_def take_bit_nat_eq_self)
  have d1: "qpack_int_decode (p @ lines) 8 = Some (w, length (qint_bytes 0x00 8 w))"
    unfolding p append_assoc by (rule qpack_int_decode_encode) simp_all
  have d2: "qpack_int_decode (qint_bytes 0x00 7 0 @ lines) 7 = Some (0, length (qint_bytes 0x00 7 0))"
    by (rule qint7.dec_enc) simp
  have s: "hd (qint_bytes 0x00 7 0 @ lines) AND 0x80 = 0"
    using qint_bytes_flag [of 7 "0x80" "0x00" 0] by (simp add: mask_eq_exp_minus_1)
  have ric: "decode_required_insert_count enc (dt_max_capacity (qd_table d)) ric = Inr ric"
    using required_insert_count_decode [of ric "dt_max_capacity (qd_table d)" ric] assms(2,4) M
    by (simp add: enc_def)
  have len: "\<not> length (p @ lines) < 2"
    using qint_bytes_not_Nil [of 0 8 w] qint_bytes_not_Nil [of 0 7 0]
    unfolding p by (simp del: qint_bytes_not_Nil add: Suc_le_eq flip: length_greater_0_conv)
  show ?thesis
    unfolding decode_field_section_def d1
    using len assms(3,4) ric s d2 by (simp add: unat_w p Let_def checked_add_def)
qed

section \<open>Building sections from dynamic entries\<close>

text \<open>
  One step of the construction: the encoder moves from \<open>e\<close> to \<open>e'\<close> and writes \<open>bs\<close>; a decoder in step
  with \<open>e\<close> that reads \<open>bs\<close> is in step with \<open>e'\<close>, and entries of \<open>e\<close> that were not evicted are kept.
\<close>

definition replicates ::
    "(bytes \<Rightarrow> bytes option) \<Rightarrow> qpack_encoder \<Rightarrow> bytes \<Rightarrow> qpack_encoder \<Rightarrow> bool" where
  "replicates huff e bs e' \<longleftrightarrow>
     (\<forall>td. synced (qe_table e) td \<longrightarrow>
        (\<exists>td'. synced (qe_table e') td' \<and> dt_max_capacity td' = dt_max_capacity td
           \<and> (\<forall>rest. encoder_stream.run huff td (bs @ rest) = encoder_stream.run huff td' rest)))
   \<and> dt_insert_count (qe_table e) \<le> dt_insert_count (qe_table e')
   \<and> dt_max_capacity (qe_table e') = dt_max_capacity (qe_table e)
   \<and> evicted (qe_table e) \<le> evicted (qe_table e')
   \<and> (\<forall>a x. get_absolute (qe_table e) a = Some x \<longrightarrow> evicted (qe_table e') < a \<longrightarrow>
        get_absolute (qe_table e') a = Some x)"

lemma replicates_refl: "replicates huff e [] e"
  by (auto simp: replicates_def)

lemma replicates_trans:
  assumes "replicates huff e1 bs e2" and "replicates huff e2 cs e3"
  shows "replicates huff e1 (bs @ cs) e3"
proof -
  have "\<exists>td'. synced (qe_table e3) td' \<and> dt_max_capacity td' = dt_max_capacity td
      \<and> (\<forall>rest. encoder_stream.run huff td ((bs @ cs) @ rest) = encoder_stream.run huff td' rest)"
    if td: "synced (qe_table e1) td" for td
  proof -
    obtain t2 where t2: "synced (qe_table e2) t2" "dt_max_capacity t2 = dt_max_capacity td"
        "\<forall>rest. encoder_stream.run huff td (bs @ rest) = encoder_stream.run huff t2 rest"
      using assms(1) td by (auto simp: replicates_def)
    obtain t3 where "synced (qe_table e3) t3" "dt_max_capacity t3 = dt_max_capacity t2"
        "\<forall>rest. encoder_stream.run huff t2 (cs @ rest) = encoder_stream.run huff t3 rest"
      using assms(2) t2(1) by (auto simp: replicates_def)
    with t2 show ?thesis
      by (intro exI [of _ t3]) simp
  qed
  then show ?thesis
    using assms unfolding replicates_def by (auto intro: order.trans order.strict_trans1)
qed

lemma get_absolute_pos: "get_absolute t a = Some x \<Longrightarrow> 0 < a \<and> a \<le> dt_insert_count t"
  by (auto simp: get_absolute_def split: if_splits option.splits)

lemma find_absolute_Some:
  "find_absolute name val e = Some ab \<Longrightarrow> get_absolute (qe_table e) ab = Some (name, val)"
  by (auto simp: find_absolute_def find_Some_iff)

lemma encoder_instruction_max_capacity:
  assumes "encoder_instruction huff t buf = Advance t' n" and "wf_table t"
  shows "dt_max_capacity t' = dt_max_capacity t"
proof -
  have ins: "dt_max_capacity t' = dt_max_capacity t" if "insert_step name val k t = Advance t' n" for name val k
    using that insert_with_ack_floor_Ok [OF assms(2), of name val None t']
    by (auto simp: insert_step_def table_insert_def push_entry_def split: prod.splits sum.splits)
  have "dt_max_capacity t' = dt_max_capacity t" if cap: "capacity_update t buf = Advance t' n"
  proof -
    obtain c where "set_capacity c t = (t', Inr ())"
      using cap by (auto simp: capacity_update_def split: option.splits prod.splits sum.splits)
    then have "t' = apply_op (Op_Set_Capacity c None) t"
      by (simp add: set_capacity_def)
    then show ?thesis
      using apply_op_max_capacity [OF assms(2)] by metis
  qed
  with ins show ?thesis
    using assms(1)
    by (auto simp: encoder_instruction_def insert_name_reference_def insert_literal_name_def duplicate_entry_def Let_def
        split: list.splits option.splits if_splits)
qed

lemma insert_literal_replicates:
  assumes "wf_table (qe_table e)" and "dt_insert_count (qe_table e) < u64_MAX"
    and "valid_utf8 name" and "valid_utf8 val" and "insert_literal_instruction name val e = (e', Inr bs)"
  shows "replicates huff e bs e' \<and> wf_table (qe_table e')
    \<and> dt_insert_count (qe_table e') = dt_insert_count (qe_table e) + 1
    \<and> get_absolute (qe_table e') (dt_insert_count (qe_table e')) = Some (name, val)"
proof -
  note io = insert_literal_instruction_bytes [OF assms(5)]
  then have ins: "insert_with_ack_floor name val (Some (qe_known_received_count e)) (qe_table e) = (qe_table e', Inr ())"
    by blast
  obtain k where k: "dt_insert_count (qe_table e') = dt_insert_count (qe_table e) + 1"
      "evicted (qe_table e') = evicted (qe_table e) + k" "dt_max_capacity (qe_table e') = dt_max_capacity (qe_table e)"
    and get: "\<And>a. get_absolute (qe_table e') a = (if a = dt_insert_count (qe_table e) + 1 then Some (name, val)
        else if evicted (qe_table e) + k < a then get_absolute (qe_table e) a else None)"
    using get_absolute_insert [OF assms(1) ins assms(2)] by metis
  have "\<exists>td'. synced (qe_table e') td' \<and> dt_max_capacity td' = dt_max_capacity td
      \<and> (\<forall>rest. encoder_stream.run huff td (bs @ rest) = encoder_stream.run huff td' rest)"
    if td: "synced (qe_table e) td" for td
  proof -
    obtain td' where td': "synced (qe_table e') td'"
        "\<And>rest. encoder_instruction huff td (bs @ rest) = Advance td' (length bs)"
      using insert_literal_synced [OF td assms(2-5), of huff] by metis
    have "dt_max_capacity td' = dt_max_capacity td"
      using td'(2) [of "[]"] encoder_instruction_max_capacity td by (auto simp: synced_def)
    then show ?thesis
      using td' encoder_stream.run_Advance [of huff td] by (intro exI [of _ td']) simp
  qed
  moreover have "wf_table (qe_table e')"
    using wf_insert [OF assms(1) ins] .
  ultimately show ?thesis
    using k get by (auto simp: replicates_def dest: get_absolute_pos)
qed

lemma announce_capacity_replicates:
  assumes "wf_table (qe_table e)" and "announce_capacity e = Inr (e', bs)"
  shows "replicates huff e bs e' \<and> wf_table (qe_table e') \<and> dt_insert_count (qe_table e') = dt_insert_count (qe_table e)"
proof (cases "dt_insert_count (qe_table e) = 0")
  case False
  then show ?thesis
    using assms replicates_refl by (simp add: announce_capacity_def)
next
  case True
  then have op: "set_capacity_instruction (dt_max_capacity (qe_table e)) e = (e', Inr bs)"
    using assms(2) by (auto simp: announce_capacity_def split: prod.splits sum.splits)
  note io = set_capacity_instruction_bytes [OF op]
  then have set: "set_capacity_with_ack_floor (dt_max_capacity (qe_table e)) (Some (qe_known_received_count e)) (qe_table e)
      = (qe_table e', Inr ())"
    by blast
  then have "qe_table e' = apply_op (Op_Set_Capacity (dt_max_capacity (qe_table e)) (Some (qe_known_received_count e))) (qe_table e)"
    by simp
  then have max: "dt_max_capacity (qe_table e') = dt_max_capacity (qe_table e)"
    using apply_op_max_capacity [OF assms(1)] by metis
  have ic: "dt_insert_count (qe_table e') = dt_insert_count (qe_table e)"
    using set_capacity_insert_count [OF assms(1) set] by simp
  have "\<exists>td'. synced (qe_table e') td' \<and> dt_max_capacity td' = dt_max_capacity td
      \<and> (\<forall>rest. encoder_stream.run huff td (bs @ rest) = encoder_stream.run huff td' rest)"
    if td: "synced (qe_table e) td" for td
  proof -
    obtain td' where td': "synced (qe_table e') td'"
        "\<And>rest. encoder_instruction huff td (bs @ rest) = Advance td' (length bs)"
      using set_capacity_synced [OF td op, of huff] by metis
    have "dt_max_capacity td' = dt_max_capacity td"
      using td'(2) [of "[]"] encoder_instruction_max_capacity td by (auto simp: synced_def)
    then show ?thesis
      using td' encoder_stream.run_Advance [of huff td] by (intro exI [of _ td']) simp
  qed
  then show ?thesis
    using ic max wf_set_capacity [OF assms(1) set] True
    by (auto simp: replicates_def evicted_def dest: get_absolute_pos)
qed

lemma ensure_dynamic_entry_replicates:
  assumes "wf_table (qe_table e)" and "dt_insert_count (qe_table e) < u64_MAX"
    and "valid_utf8 name" and "valid_utf8 val" and "ensure_dynamic_entry name val e es = Inr (e', es', ab)"
  obtains bs where "es' = es @ bs" and "replicates huff e bs e'" and "wf_table (qe_table e')"
    and "dt_insert_count (qe_table e') \<le> dt_insert_count (qe_table e) + 1"
    and "get_absolute (qe_table e') ab = Some (name, val)"
proof (cases "find_absolute name val e")
  case None
  obtain bs where "insert_literal_instruction name val e = (e', Inr bs)" "es' = es @ bs"
      "ab = dt_insert_count (qe_table e')"
    using assms(5) None by (auto simp: ensure_dynamic_entry_def split: prod.splits sum.splits)
  then show ?thesis
    using insert_literal_replicates [OF assms(1-4), of e' bs huff] that by auto
next
  case (Some a)
  then show ?thesis
    using assms(1,5) find_absolute_Some [OF Some] replicates_refl that [of "[]"]
    by (simp add: ensure_dynamic_entry_def)
qed

text \<open>The decoder after reading the encoder-stream part.\<close>

lemma replicates_feed:
  assumes "replicates huff e bs e'" and "synced (qe_table e) (qd_table d)"
  obtains d' where "feed_encoder_stream huff d bs = (d', Inr (length bs))"
    and "synced (qe_table e') (qd_table d')" and "dt_max_capacity (qd_table d') = dt_max_capacity (qd_table d)"
proof -
  obtain td' where td': "synced (qe_table e') td'" "dt_max_capacity td' = dt_max_capacity (qd_table d)"
      "\<forall>rest. encoder_stream.run huff (qd_table d) (bs @ rest) = encoder_stream.run huff td' rest"
    using assms by (auto simp: replicates_def)
  have "encoder_stream.run huff (qd_table d) bs = encoder_stream.run huff td' []"
    using td'(3) [rule_format, of "[]"] by simp
  also have "\<dots> = (td', [], None)"
    by (rule encoder_stream.run_Wait) (simp add: encoder_instruction_def)
  finally have "feed_encoder_stream huff d bs = (d\<lparr>qd_table := td'\<rparr>, Inr (length bs))"
    by (simp add: feed_encoder_stream_def feed_encoder_loop_run)
  then show ?thesis
    using td' that by simp
qed

lemma str_lit_utf8:
  "qstr_ok (str_lit '':method'')" "qstr_ok (str_lit ''CONNECT'')" "qstr_ok (str_lit '':protocol'')"
  "qstr_ok (str_lit ''webtransport'')" "qstr_ok (str_lit '':scheme'')" "qstr_ok (str_lit ''https'')"
  "qstr_ok (str_lit '':authority'')" "qstr_ok (str_lit '':path'')" "qstr_ok (str_lit '':status'')"
  "qstr_ok (str_lit ''200'')"
proof -
  have ascii: "qstr_ok (str_lit s)" if "valid_utf8 (str_lit s)" "length s < 100" for s
    using that by (simp add: qstr_ok_def str_lit_def usize_MAX_def)
  show "qstr_ok (str_lit '':method'')" by (rule ascii) code_simp+
  show "qstr_ok (str_lit ''CONNECT'')" by (rule ascii) code_simp+
  show "qstr_ok (str_lit '':protocol'')" by (rule ascii) code_simp+
  show "qstr_ok (str_lit ''webtransport'')" by (rule ascii) code_simp+
  show "qstr_ok (str_lit '':scheme'')" by (rule ascii) code_simp+
  show "qstr_ok (str_lit ''https'')" by (rule ascii) code_simp+
  show "qstr_ok (str_lit '':authority'')" by (rule ascii) code_simp+
  show "qstr_ok (str_lit '':path'')" by (rule ascii) code_simp+
  show "qstr_ok (str_lit '':status'')" by (rule ascii) code_simp+
  show "qstr_ok (str_lit ''200'')" by (rule ascii) code_simp+
qed

text \<open>A section of indexed lines for live entries, as the dynamic encoders build it.\<close>

lemma decode_lines_indexed_all:
  assumes "\<forall>(ab, f) \<in> set refs. get_absolute t ab = Some f \<and> ab \<le> base" and "base \<le> u64_MAX"
  shows "decode_lines huff t base (concat (map (\<lambda>(ab, f). qint_bytes 0x80 6 (of_nat (base - ab))) refs)) out
    = Inr (out @ map snd refs)"
  using assms(1)
proof (induction refs arbitrary: out)
  case (Cons r refs)
  obtain ab f where r: "r = (ab, f)"
    by (cases r)
  have "decode_lines huff t base (qint_bytes 0x80 6 (of_nat (base - ab))
        @ concat (map (\<lambda>(ab, f). qint_bytes 0x80 6 (of_nat (base - ab))) refs)) out
      = decode_lines huff t base (concat (map (\<lambda>(ab, f). qint_bytes 0x80 6 (of_nat (base - ab))) refs)) (out @ [f])"
    using Cons.prems assms(2) r by (intro decode_lines_indexed) auto
  with Cons r show ?case
    by simp
qed simp

lemma encode_dynamic_indexed_Some:
  "encode_dynamic_indexed ab base out = Some out' \<longleftrightarrow>
     ab \<le> base \<and> out' = out @ qint_bytes 0x80 6 (of_nat (base - ab))"
  by (auto simp: encode_dynamic_indexed_def checked_sub_def wire_simps)

lemma dynamic_section_decodes:
  assumes "synced te (qd_table d)" and "dt_max_capacity (qd_table d) = dt_max_capacity te"
    and "encode_field_section_prefix (dt_insert_count te) (dt_insert_count te) (dt_max_capacity te) [] = Some p"
    and "\<forall>(ab, f) \<in> set refs. get_absolute te ab = Some f" and "refs \<noteq> []"
    and "dt_insert_count te + 3 * (dt_max_capacity te div 32) \<le> u64_MAX"
  shows "decode_field_section huff (p @ concat (map (\<lambda>(ab, f). qint_bytes 0x80 6 (of_nat (dt_insert_count te - ab))) refs)) d
    = Inr (map snd refs, dt_insert_count te)"
proof -
  have "\<forall>(ab, f) \<in> set refs. get_absolute (qd_table d) ab = Some f \<and> ab \<le> dt_insert_count te"
    using assms(4) synced_lookup [OF assms(1)] by (auto dest: get_absolute_pos)
  then have lines: "decode_lines huff (qd_table d) (dt_insert_count te)
      (concat (map (\<lambda>(ab, f). qint_bytes 0x80 6 (of_nat (dt_insert_count te - ab))) refs)) [] = Inr ([] @ map snd refs)"
    using assms(6) by (intro decode_lines_indexed_all) auto
  obtain ab f rs where "refs = (ab, f) # rs"
    using assms(5) by (cases refs) auto
  then have pos: "0 < dt_insert_count te"
    using assms(4) get_absolute_pos [of te ab f] by auto
  have ic: "dt_insert_count (qd_table d) = dt_insert_count te"
    using assms(1) by (simp add: synced_def)
  have pre: "encode_field_section_prefix (dt_insert_count te) (dt_insert_count te) (dt_max_capacity (qd_table d)) [] = Some p"
    and lim: "dt_insert_count te + 3 * (dt_max_capacity (qd_table d) div 32) \<le> u64_MAX"
    using assms(2,3,6) by simp_all
  show ?thesis
    unfolding decode_section_dynamic [OF pre pos ic lim] lines by simp
qed

text \<open>
  A section under construction: the encoder went from \<open>e\<close> to \<open>e'\<close> writing \<open>es\<close>, and each entry collected so
  far is where it was put unless it has been evicted again.
\<close>

definition building ::
    "(bytes \<Rightarrow> bytes option) \<Rightarrow> qpack_encoder \<Rightarrow> (nat \<times> header_field) list \<Rightarrow> bytes \<Rightarrow> qpack_encoder \<Rightarrow> bool" where
  "building huff e refs es e' \<longleftrightarrow>
     replicates huff e es e' \<and> wf_table (qe_table e')
   \<and> dt_insert_count (qe_table e') \<le> dt_insert_count (qe_table e) + length refs
   \<and> (\<forall>(ab, f) \<in> set refs. evicted (qe_table e) < ab
        \<and> (evicted (qe_table e') < ab \<longrightarrow> get_absolute (qe_table e') ab = Some f))"

lemma building_start:
  assumes "wf_table (qe_table e)" and "announce_capacity e = Inr (e', es)"
  shows "building huff e [] es e'"
  using announce_capacity_replicates [OF assms, of huff] by (simp add: building_def)

lemma building_step:
  assumes "building huff e refs es ei" and "dt_insert_count (qe_table e) + length refs < u64_MAX"
    and "valid_utf8 name" and "valid_utf8 val" and "ensure_dynamic_entry name val ei es = Inr (e', es', ab)"
  shows "building huff e (refs @ [(ab, (name, val))]) es' e'"
proof -
  have wf: "wf_table (qe_table ei)" and ic: "dt_insert_count (qe_table ei) < u64_MAX"
    using assms(1,2) by (simp_all add: building_def)
  obtain bs where bs: "es' = es @ bs" "replicates huff ei bs e'" "wf_table (qe_table e')"
      "dt_insert_count (qe_table e') \<le> dt_insert_count (qe_table ei) + 1"
      "get_absolute (qe_table e') ab = Some (name, val)"
    using ensure_dynamic_entry_replicates [OF wf ic assms(3-5), of huff] by metis
  have rep: "replicates huff e es' e'"
    using replicates_trans assms(1) bs(1,2) by (auto simp: building_def)
  have "evicted (qe_table e') < ab"
    using bs(5) get_absolute_eq [OF bs(3)] by (simp split: if_splits)
  moreover have "evicted (qe_table e) \<le> evicted (qe_table e')"
    using rep by (simp add: replicates_def)
  ultimately have new: "evicted (qe_table e) < ab"
    by simp
  have "get_absolute (qe_table e') a = Some f" if "(a, f) \<in> set refs" "evicted (qe_table e') < a" for a f
  proof -
    have "evicted (qe_table ei) < a"
      using bs(2) that(2) by (simp add: replicates_def)
    then have "get_absolute (qe_table ei) a = Some f"
      using assms(1) that(1) by (auto simp: building_def)
    then show ?thesis
      using bs(2) that(2) unfolding replicates_def by blast
  qed
  then show ?thesis
    using rep bs(3-5) new assms(1) by (auto simp: building_def)
qed

lemma building_live:
  assumes "building huff e refs es e'" and "evicted (qe_table e') = evicted (qe_table e)"
  shows "\<forall>(ab, f) \<in> set refs. get_absolute (qe_table e') ab = Some f"
  using assms by (auto simp: building_def)

lemma connect_scratch_Inr:
  assumes "connect_scratch authority path e = Inr (e', h)"
  obtains e1 es1 e2 es2 a1 e3 es3 a2 e4 es4 a3 e5 es5 a4 es6 a5 p where
    "announce_capacity e = Inr (e1, es1)"
    "ensure_dynamic_entry (str_lit '':method'') (str_lit ''CONNECT'') e1 es1 = Inr (e2, es2, a1)"
    "ensure_dynamic_entry (str_lit '':protocol'') (str_lit ''webtransport'') e2 es2 = Inr (e3, es3, a2)"
    "ensure_dynamic_entry (str_lit '':scheme'') (str_lit ''https'') e3 es3 = Inr (e4, es4, a3)"
    "ensure_dynamic_entry (str_lit '':authority'') authority e4 es4 = Inr (e5, es5, a4)"
    "ensure_dynamic_entry (str_lit '':path'') path e5 es5 = Inr (e', es6, a5)"
    "encode_field_section_prefix (dt_insert_count (qe_table e')) (dt_insert_count (qe_table e'))
       (dt_max_capacity (qe_table e')) [] = Some p"
    "h = \<lparr>eh_headers_frame = frame_wrap frame_HEADERS (p @
        concat (map (\<lambda>ab. qint_bytes 0x80 6 (of_nat (dt_insert_count (qe_table e') - ab))) [a1, a2, a3, a4, a5])),
       eh_encoder_stream = es6, eh_ric = dt_insert_count (qe_table e')\<rparr>"
  using assms
  by (auto simp only: connect_scratch_def Let_def ebind_eq_Inr encode_dynamic_indexed_Some ok_or_eq_Inr
      sum.inject prod.inject split_paired_Ex case_prod_conv list.map concat.simps append_assoc append_Nil2)

section \<open>A first request\<close>

text \<open>With room for all entries nothing is evicted, so a fresh encoder always succeeds.\<close>

lemma insert_fits:
  assumes "wf_table t" and "dt_size t + entry_size name val \<le> dt_capacity t"
  shows "insert_with_ack_floor name val fl t = (push_entry name val t, Inr ())"
proof -
  have sz: "entry_size name val < usize_MAX" and size: "dt_size t = total_size (dt_entries t)"
    using assms by (simp_all add: wf_table_def)
  have "evict_loop (entry_size name val) fl t = (t, Inr ())"
  proof (cases "dt_entries t")
    case Nil
    then show ?thesis
      by (simp add: evict_loop.simps [of _ _ t])
  next
    case (Cons e es)
    then show ?thesis
      using evict_loop_step [OF assms(1) sz Cons, of fl] assms(2) size by simp
  qed
  then have "evict_to_fit (entry_size name val) fl t = (t, Inr ())"
    using assms(2) sz by (simp add: evict_to_fit_def sat_add_def)
  then show ?thesis
    using assms(2) by (simp add: insert_with_ack_floor_def)
qed

lemma find_absolute_None:
  assumes "wf_table (qe_table e)" and "(name, val) \<notin> entry_pair ` set (dt_entries (qe_table e))"
  shows "find_absolute name val e = None"
proof -
  have "get_absolute (qe_table e) ab \<noteq> Some (name, val)" for ab
  proof
    assume get: "get_absolute (qe_table e) ab = Some (name, val)"
    let ?i = "ab - evicted (qe_table e) - 1"
    have "?i < length (dt_entries (qe_table e))" "entry_pair (dt_entries (qe_table e) ! ?i) = (name, val)"
      using get assms(1) by (auto simp: get_absolute_eq evicted_def wf_table_def split: if_splits)
    then show False
      using assms(2) by (metis image_eqI nth_mem)
  qed
  then show ?thesis
    by (simp add: find_absolute_def find_None_iff)
qed

lemma ensure_fresh:
  assumes "wf_table (qe_table e)" and "(name, val) \<notin> entry_pair ` set (dt_entries (qe_table e))"
    and "dt_size (qe_table e) + (length name + length val + 32) \<le> dt_capacity (qe_table e)"
    and "dt_insert_count (qe_table e) < u64_MAX"
  shows "\<exists>bs. ensure_dynamic_entry name val e es
      = Inr (e\<lparr>qe_table := push_entry name val (qe_table e)\<rparr>, es @ bs, dt_insert_count (qe_table e) + 1)
    \<and> wf_table (push_entry name val (qe_table e))
    \<and> dt_size (push_entry name val (qe_table e)) = dt_size (qe_table e) + (length name + length val + 32)"
proof -
  have cap: "dt_capacity (qe_table e) < usize_MAX"
    using assms(1) by (simp add: wf_table_def)
  then have sz: "entry_size name val = length name + length val + 32"
    using assms(3) by (simp add: entry_size_def sat_add_def)
  have ins: "insert_with_ack_floor name val fl (qe_table e) = (push_entry name val (qe_table e), Inr ())" for fl
    using assms(1,3) sz by (intro insert_fits) simp_all
  show ?thesis
    using find_absolute_None [OF assms(1,2)] assms(3,4) cap wf_insert [OF assms(1) ins] sz
    by (auto simp: ensure_dynamic_entry_def insert_literal_instruction_def ins Let_def push_entry_def sat_add_def)
qed

lemma str_lit_names:
  "distinct [str_lit '':method'', str_lit '':protocol'', str_lit '':scheme'', str_lit '':authority'', str_lit '':path'']"
  by code_simp

lemma length_str_lit [simp]: "length (str_lit s) = length s"
  by (simp add: str_lit_def)

definition five_entries :: "bytes \<Rightarrow> bytes \<Rightarrow> dyn_entry list" where
  "five_entries authority path =
     [\<lparr>de_name = str_lit '':method'', de_value = str_lit ''CONNECT''\<rparr>,
      \<lparr>de_name = str_lit '':protocol'', de_value = str_lit ''webtransport''\<rparr>,
      \<lparr>de_name = str_lit '':scheme'', de_value = str_lit ''https''\<rparr>,
      \<lparr>de_name = str_lit '':authority'', de_value = authority\<rparr>,
      \<lparr>de_name = str_lit '':path'', de_value = path\<rparr>]"

definition after_connect :: "bytes \<Rightarrow> bytes \<Rightarrow> nat \<Rightarrow> dynamic_table" where
  "after_connect authority path max_capacity =
     \<lparr>dt_entries = five_entries authority path, dt_capacity = max_capacity, dt_max_capacity = max_capacity,
      dt_size = 222 + length authority + length path, dt_insert_count = 5\<rparr>"

lemma announce_fresh:
  assumes "max_capacity < usize_MAX"
  shows "\<exists>bs. announce_capacity (qpack_encoder_new max_capacity)
    = Inr ((qpack_encoder_new max_capacity)\<lparr>qe_table := (dynamic_table_new max_capacity)\<lparr>dt_capacity := max_capacity\<rparr>\<rparr>, bs)"
  using assms
  by (auto simp: announce_capacity_def qpack_encoder_new_def dynamic_table_new_def set_capacity_instruction_def
      set_capacity_with_ack_floor_def evict_to_fit_def sat_add_def
      evict_loop.simps [of 0 "Some 0" "\<lparr>dt_entries = [], dt_capacity = max_capacity, dt_max_capacity = max_capacity, dt_size = 0, dt_insert_count = 0\<rparr>"])

lemma push_entry_fields:
  "dt_entries (push_entry name val t) = dt_entries t @ [\<lparr>de_name = name, de_value = val\<rparr>]"
  "dt_capacity (push_entry name val t) = dt_capacity t"
  "dt_max_capacity (push_entry name val t) = dt_max_capacity t"
  "dt_insert_count t < u64_MAX \<Longrightarrow> dt_insert_count (push_entry name val t) = dt_insert_count t + 1"
  by (simp_all add: push_entry_def sat_add_def)

lemma connect_first:
  assumes "max_capacity < usize_MAX" and "222 + length authority + length path \<le> max_capacity"
  shows "\<exists>h. encode_connect_request_with authority path (qpack_encoder_new max_capacity)
    = (\<lparr>qe_table = after_connect authority path max_capacity, qe_known_received_count = 0\<rparr>, Inr h)"
proof -
  define t0 where "t0 = (dynamic_table_new max_capacity)\<lparr>dt_capacity := max_capacity\<rparr>"
  define t1 where "t1 = push_entry (str_lit '':method'') (str_lit ''CONNECT'') t0"
  define t2 where "t2 = push_entry (str_lit '':protocol'') (str_lit ''webtransport'') t1"
  define t3 where "t3 = push_entry (str_lit '':scheme'') (str_lit ''https'') t2"
  define t4 where "t4 = push_entry (str_lit '':authority'') authority t3"
  define t5 where "t5 = push_entry (str_lit '':path'') path t4"
  define enc where "enc = (\<lambda>t. \<lparr>qe_table = t, qe_known_received_count = 0\<rparr>)"
  note ts = t1_def t2_def t3_def t4_def t5_def
  have lim: "u64_MAX > 100"
    by (simp add: u64_MAX_def)
  have t0: "wf_table t0" "dt_size t0 = 0" "dt_insert_count t0 = 0" "dt_entries t0 = []"
      "dt_capacity t0 = max_capacity" "dt_max_capacity t0 = max_capacity"
    using wf_dynamic_table_new [OF assms(1)] by (auto simp: t0_def wf_table_def dynamic_table_new_def)
  note names = str_lit_names [simplified]
  have step: "\<exists>bs. ensure_dynamic_entry name val (enc t) es = Inr (enc (push_entry name val t), es @ bs, dt_insert_count t + 1)
      \<and> wf_table (push_entry name val t) \<and> dt_size (push_entry name val t) = dt_size t + (length name + length val + 32)"
    if "wf_table t" "(name, val) \<notin> entry_pair ` set (dt_entries t)" "dt_insert_count t < 100"
      "dt_size t + (length name + length val + 32) \<le> dt_capacity t" for name val t es
    using ensure_fresh [of "enc t" name val es] that lim by (simp add: enc_def)
  obtain es0 where s0: "announce_capacity (qpack_encoder_new max_capacity) = Inr (enc t0, es0)"
    using announce_fresh [OF assms(1)] by (auto simp: qpack_encoder_new_def enc_def t0_def)
  obtain b1 where s1: "ensure_dynamic_entry (str_lit '':method'') (str_lit ''CONNECT'') (enc t0) es0 = Inr (enc t1, es0 @ b1, 1)"
      "wf_table t1" "dt_size t1 = 46"
    using step [of t0 "str_lit '':method''" "str_lit ''CONNECT''" es0] t0 assms(2) by (auto simp: t1_def)
  have f1: "dt_insert_count t1 = 1" "dt_capacity t1 = max_capacity" "dt_entries t1 = [\<lparr>de_name = str_lit '':method'', de_value = str_lit ''CONNECT''\<rparr>]"
    using t0 lim by (simp_all add: t1_def push_entry_fields)
  obtain b2 where s2: "ensure_dynamic_entry (str_lit '':protocol'') (str_lit ''webtransport'') (enc t1) (es0 @ b1) = Inr (enc t2, (es0 @ b1) @ b2, 2)"
      "wf_table t2" "dt_size t2 = 99"
    using step [of t1 "str_lit '':protocol''" "str_lit ''webtransport''" "es0 @ b1"] s1 f1 names assms(2)
    by (auto simp: t2_def entry_pair_def)
  have f2: "dt_insert_count t2 = 2" "dt_capacity t2 = max_capacity"
      "dt_entries t2 = take 2 (five_entries authority path)"
    using f1 lim by (simp_all add: t2_def push_entry_fields five_entries_def)
  obtain b3 where s3: "ensure_dynamic_entry (str_lit '':scheme'') (str_lit ''https'') (enc t2) ((es0 @ b1) @ b2) = Inr (enc t3, ((es0 @ b1) @ b2) @ b3, 3)"
      "wf_table t3" "dt_size t3 = 143"
    using step [of t2 "str_lit '':scheme''" "str_lit ''https''" "(es0 @ b1) @ b2"] s2 f2 names assms(2)
    by (auto simp: t3_def entry_pair_def five_entries_def)
  have f3: "dt_insert_count t3 = 3" "dt_capacity t3 = max_capacity"
      "dt_entries t3 = take 3 (five_entries authority path)"
    using f2 lim by (simp_all add: t3_def push_entry_fields five_entries_def)
  obtain b4 where s4: "ensure_dynamic_entry (str_lit '':authority'') authority (enc t3) (((es0 @ b1) @ b2) @ b3) = Inr (enc t4, (((es0 @ b1) @ b2) @ b3) @ b4, 4)"
      "wf_table t4" "dt_size t4 = 185 + length authority"
    using step [of t3 "str_lit '':authority''" authority "((es0 @ b1) @ b2) @ b3"] s3 f3 names assms(2)
    by (auto simp: t4_def entry_pair_def five_entries_def)
  have f4: "dt_insert_count t4 = 4" "dt_capacity t4 = max_capacity"
      "dt_entries t4 = take 4 (five_entries authority path)"
    using f3 lim by (simp_all add: t4_def push_entry_fields five_entries_def)
  obtain b5 where s5: "ensure_dynamic_entry (str_lit '':path'') path (enc t4) ((((es0 @ b1) @ b2) @ b3) @ b4) = Inr (enc t5, ((((es0 @ b1) @ b2) @ b3) @ b4) @ b5, 5)"
      "wf_table t5" "dt_size t5 = 222 + length authority + length path"
    using step [of t4 "str_lit '':path''" path "(((es0 @ b1) @ b2) @ b3) @ b4"] s4 f4 names assms(2)
    by (auto simp: t5_def entry_pair_def five_entries_def)
  have t5: "t5 = after_connect authority path max_capacity"
  proof (rule dynamic_table.equality)
    show "dt_max_capacity t5 = dt_max_capacity (after_connect authority path max_capacity)"
      using t0(6) by (simp add: ts push_entry_fields after_connect_def)
    show "dynamic_table.more t5 = dynamic_table.more (after_connect authority path max_capacity)"
      by simp
  qed (use f4 lim s5(3) in \<open>simp_all add: t5_def push_entry_fields after_connect_def five_entries_def\<close>)
  have "222 div 32 \<le> max_capacity div 32"
    using assms(2) by (intro div_le_mono) simp
  then have "\<exists>h. connect_scratch authority path (qpack_encoder_new max_capacity) = Inr (enc t5, h)"
    by (simp add: connect_scratch_def s0 s1(1) s2(1) s3(1) s4(1) s5(1) [simplified] s1(1) [simplified] s2(1) [simplified] s3(1) [simplified] s4(1) [simplified]
        Let_def encode_field_section_prefix_def encode_required_insert_count_def encode_dynamic_indexed_def
        checked_sub_def t5, simp add: enc_def after_connect_def)
  then show ?thesis
    using assms(2)
    by (auto simp: encode_connect_request_with_def qpack_encoder_new_def dynamic_table_new_def enc_def t5)
qed

section \<open>A request that evicts its own entries\<close>

lemma find_absolute_nth:
  assumes "wf_table (qe_table e)" and "evicted (qe_table e) = 0" and "i < length (dt_entries (qe_table e))"
    and "entry_pair (dt_entries (qe_table e) ! i) = (name, val)"
    and "\<forall>j < i. entry_pair (dt_entries (qe_table e) ! j) \<noteq> (name, val)"
  shows "find_absolute name val e = Some (i + 1)"
proof -
  have ic: "dt_insert_count (qe_table e) = length (dt_entries (qe_table e))"
    using assms(1,2) by (simp add: evicted_def wf_table_def)
  have get: "get_absolute (qe_table e) a = Some (name, val) \<longleftrightarrow>
      0 < a \<and> a \<le> dt_insert_count (qe_table e) \<and> entry_pair (dt_entries (qe_table e) ! (a - 1)) = (name, val)" for a
    using assms(1,2) by (simp add: get_absolute_eq)
  show ?thesis
    unfolding find_absolute_def find_Some_iff
    using assms(3-5) ic get by (intro exI [of _ i]) (auto simp: nth_upt simp del: upt_Suc)
qed

text \<open>An entry cannot be in the peer's table if it and its successors in ours exceed the capacity.\<close>

lemma synced_not_live:
  assumes "synced te td" and "dt_max_capacity td < total_size (dt_entries te) + 32"
  shows "get_absolute td (evicted te) = None"
proof (rule ccontr)
  assume live: "get_absolute td (evicted te) \<noteq> None"
  have wf: "wf_table td" "wf_table te" "dt_insert_count te = dt_insert_count td"
    using assms(1) by (simp_all add: synced_def)
  then have ev: "evicted td < evicted te"
    using live by (auto simp: get_absolute_eq split: if_splits)
  obtain k where k: "dt_entries te = drop k (dt_entries td)"
    using assms(1) by (auto simp: synced_def)
  then have "0 < k" and "0 < length (dt_entries td)"
    using ev wf by (auto simp: evicted_def intro: gr0I)
  then obtain z zs where z: "take k (dt_entries td) = z # zs"
    by (cases "dt_entries td"; cases k) auto
  have "total_size (dt_entries td) = total_size (z # zs) + total_size (dt_entries te)"
    using k z by (metis append_take_drop_id total_size_simps(3))
  moreover have "32 \<le> entry_size (de_name z) (de_value z)"
    by (simp add: entry_size_def sat_add_def usize_MAX_def)
  ultimately show False
    using assms(2) wf(1) by (simp add: wf_table_def)
qed

lemma decode_lines_dead:
  assumes "get_absolute t ab = None" and "ab \<le> base" and "base \<le> u64_MAX"
  shows "decode_lines huff t base (qint_bytes 0x80 6 (of_nat (base - ab)) @ rest) out = Inl Invalid"
proof -
  define w :: u64 where "w = of_nat (base - ab)"
  let ?q = "qint_bytes 0x80 6 w"
  have dec: "qpack_int_decode (?q @ rest) 6 = Some (w, length ?q)"
    by (rule qpack_int_decode_encode) (simp_all add: mask_eq_exp_minus_1)
  have idx: "unat w = base - ab"
    unfolding w_def using assms(3) by (subst unsigned_of_nat) (simp add: u64_MAX_def take_bit_nat_eq_self)
  have "hd (?q @ rest) AND 0x80 \<noteq> 0" "hd (?q @ rest) AND 0x40 = 0"
    using qint_bytes_flag [of 6 _ "0x80" w] by (simp_all add: mask_eq_exp_minus_1)
  then have "decode_field_line huff t base (?q @ rest) = None"
    using assms(1,2) by (simp add: decode_field_line_def indexed_line_def dec idx get_relative_def checked_sub_def)
  then show ?thesis
    unfolding w_def [symmetric] by (simp add: decode_lines.simps [of huff t base "?q @ rest"])
qed

definition second_table :: dynamic_table where
  "second_table =
     \<lparr>dt_entries = tl (five_entries (str_lit ''a'') (str_lit ''/'')) @ [\<lparr>de_name = str_lit '':path'', de_value = str_lit ''/bbbb''\<rparr>],
      dt_capacity = 224, dt_max_capacity = 224, dt_size = 220, dt_insert_count = 6\<rparr>"

abbreviation acked_encoder :: qpack_encoder where
  "acked_encoder \<equiv> \<lparr>qe_table = after_connect (str_lit ''a'') (str_lit ''/'') 224, qe_known_received_count = 5\<rparr>"

lemma five_entries_sizes:
  "map (\<lambda>e. entry_size (de_name e) (de_value e)) (five_entries (str_lit ''a'') (str_lit ''/'')) = [46, 53, 44, 43, 38]"
  by (simp add: five_entries_def entry_size_def sat_add_def usize_MAX_def)

lemma wf_acked: "wf_table (after_connect (str_lit ''a'') (str_lit ''/'') 224)"
  by (simp add: wf_table_def after_connect_def total_size_def five_entries_sizes usize_MAX_def u64_MAX_def)
    (simp add: five_entries_def)

lemma second_insert:
  "insert_with_ack_floor (str_lit '':path'') (str_lit ''/bbbb'') (Some 5) (after_connect (str_lit ''a'') (str_lit ''/'') 224)
     = (second_table, Inr ())"
proof -
  let ?t = "after_connect (str_lit ''a'') (str_lit ''/'') 224"
  obtain e es where es: "five_entries (str_lit ''a'') (str_lit ''/'') = e # es" "es = tl (five_entries (str_lit ''a'') (str_lit ''/''))"
      "entry_size (de_name e) (de_value e) = 46" "total_size es = 178" "es \<noteq> []"
    using five_entries_sizes by (simp add: total_size_def five_entries_def)
  have sz: "entry_size (str_lit '':path'') (str_lit ''/bbbb'') = 42" and lt: "42 < usize_MAX"
    by (simp_all add: entry_size_def sat_add_def usize_MAX_def)
  let ?t1 = "with_entries ?t es"
  obtain x xs where xs: "es = x # xs"
    using es(5) by (cases es) auto
  have ent: "dt_entries ?t = e # es" "dt_capacity ?t = 224" "dt_entries ?t1 = x # xs" "dt_insert_count ?t = 5"
    using es(1) xs by (simp_all add: after_connect_def)
  have len: "length (dt_entries ?t) = 5"
    by (simp add: after_connect_def five_entries_def)
  have wf1: "wf_table ?t1"
    using wf_with_entries_drop [OF wf_acked, of 1] ent(1) by simp
  have "evict_loop 42 (Some 5) ?t = (?t1, Inr ())"
    using evict_loop_step [OF wf_acked lt ent(1), of "Some 5"] evict_loop_step [OF wf1 lt ent(3), of "Some 5"]
      es(3,4) xs ent(2,4) len by (simp add: above_floor_def oldest_absolute_def)
  then have "evict_to_fit 42 (Some 5) ?t = (?t1, Inr ())"
    using es(4) ent(2) lt by (simp add: evict_to_fit_def sat_add_def usize_MAX_def)
  then have "insert_with_ack_floor (str_lit '':path'') (str_lit ''/bbbb'') (Some 5) ?t
      = (push_entry (str_lit '':path'') (str_lit ''/bbbb'') ?t1, Inr ())"
    using ent(2) by (simp add: insert_with_ack_floor_def sz)
  moreover have "push_entry (str_lit '':path'') (str_lit ''/bbbb'') ?t1 = second_table"
    using es(2,4) sz by (simp add: push_entry_def with_entries_def after_connect_def second_table_def sat_add_def usize_MAX_def u64_MAX_def)
  ultimately show ?thesis
    by simp
qed

section \<open>Properties\<close>

text \<open>
  C17. The Required Insert Count survives its modular encoding whenever the decoder has received the
  inserts the section needs and has not moved on by a full table, and also for inserts still to come
  when they lie in the same range of the modulus.
\<close>

theorem required_insert_count_roundtrip:
  assumes "0 < max_capacity div 32" and "0 < ric" and "tot < ric + max_capacity div 32"
    and "tot + 3 * (max_capacity div 32) \<le> u64_MAX"
    and "ric \<le> tot \<or> ric \<le> tot + max_capacity div 32
      \<and> ric div (2 * (max_capacity div 32)) = (tot + max_capacity div 32) div (2 * (max_capacity div 32))"
  shows "\<exists>encoded. encode_required_insert_count ric max_capacity = Some encoded
    \<and> decode_required_insert_count encoded max_capacity tot = Inr ric"
proof -
  have "ric \<le> tot + max_capacity div 32"
    using assms(5) by auto
  from required_insert_count_decode [OF assms(2,1,3) this assms(4)] show ?thesis
    using assms(1,2,5) by (auto simp: encode_required_insert_count_def)
qed

theorem required_insert_count_roundtrip_witness:
  "(0 :: nat) < 4096 div 32 \<and> (0 :: nat) < 300 \<and>
   (\<exists>encoded. encode_required_insert_count 300 4096 = Some encoded
      \<and> decode_required_insert_count encoded 4096 310 = Inr 300)"
  using required_insert_count_roundtrip [of 4096 300 310] by (simp add: u64_MAX_def)

text \<open>
  C22. A section that must wait for inserts can be rejected instead. Take any legal count of inserts
  still to come, at most a table beyond those received. The decoder accepts it exactly when no multiple
  of the modulus lies between it and the largest legal count; otherwise it reports \<open>Invalid\<close>, which
  closes the connection, although the encoder's side of this code produced the encoding.
\<close>

theorem required_insert_count_rejects_blocked:
  assumes "0 < max_capacity div 32" and "tot < ric" and "ric \<le> tot + max_capacity div 32"
    and "tot + 3 * (max_capacity div 32) \<le> u64_MAX"
  shows "\<exists>encoded. encode_required_insert_count ric max_capacity = Some encoded
    \<and> decode_required_insert_count encoded max_capacity tot =
        (if ric < (tot + max_capacity div 32) div (2 * (max_capacity div 32)) * (2 * (max_capacity div 32))
         then Inl Invalid else Inr ric)"
proof -
  let ?m = "2 * (max_capacity div 32)" and ?w = "(tot + max_capacity div 32) div (2 * (max_capacity div 32))"
  have "ric div ?m = ?w \<longleftrightarrow> \<not> ric < ?w * ?m"
    using assms(1) div_le_mono [OF assms(3), of ?m] less_eq_div_iff_mult_less_eq [of ?m ?w ric] by auto
  then show ?thesis
    using required_insert_count_decode [OF _ assms(1) _ assms(3,4)] assms(1,2)
    by (auto simp: encode_required_insert_count_def)
qed

theorem required_insert_count_rejects_blocked_witness:
  "encode_required_insert_count 6 128 = Some 7 \<and> decode_required_insert_count 7 128 5 = Inl Invalid"
  using required_insert_count_rejects_blocked [of 128 5 6] by (simp add: u64_MAX_def encode_required_insert_count_def)

text \<open>
  A literal CONNECT request is understood by every peer: whatever its decoder state, it decodes
  the frame's payload to the five pseudo-headers in order, with the given authority and path.
\<close>

theorem connect_request_literal:
  assumes "qstr_ok authority" and "qstr_ok path"
  shows "\<exists>fields. encode_connect_request authority path = frame_wrap frame_HEADERS fields
    \<and> decode_field_section huff fields d = Inr
        ([(str_lit '':method'', str_lit ''CONNECT''), (str_lit '':protocol'', str_lit ''webtransport''),
          (str_lit '':scheme'', str_lit ''https''), (str_lit '':authority'', authority), (str_lit '':path'', path)], 0)"
proof -
  have lit: "qpack_literal name val out = out @ qpack_literal name val []" for name val out
    by (simp add: wire_simps)
  let ?lines = "qpack_literal (str_lit '':method'') (str_lit ''CONNECT'') [] @
    qpack_literal (str_lit '':protocol'') (str_lit ''webtransport'') [] @
    qpack_literal (str_lit '':scheme'') (str_lit ''https'') [] @
    qpack_literal (str_lit '':authority'') authority [] @ qpack_literal (str_lit '':path'') path [] @ []"
  have "encode_connect_request authority path = frame_wrap frame_HEADERS (0x00 # 0x00 # ?lines)"
    unfolding encode_connect_request_def Let_def
    by (simp only: lit [of _ _ "_ @ _"] lit [of _ _ "_ # _"] append_assoc append_Cons append_Nil append_Nil2)
  moreover have "decode_lines huff (qd_table d) 0 ?lines [] = Inr
        [(str_lit '':method'', str_lit ''CONNECT''), (str_lit '':protocol'', str_lit ''webtransport''),
          (str_lit '':scheme'', str_lit ''https''), (str_lit '':authority'', authority), (str_lit '':path'', path)]"
    by (simp only: decode_lines_literal str_lit_utf8 assms decode_lines_Nil append_Nil append_Cons append_assoc)
  ultimately show ?thesis
    by (metis decode_section_literal ebind_simps(2))
qed

theorem connect_request_literal_witness:
  "qstr_ok (str_lit ''200'') \<and> qstr_ok (str_lit '':path'') \<and>
   (\<exists>fields. encode_connect_request (str_lit ''200'') (str_lit '':path'') = frame_wrap frame_HEADERS fields
      \<and> decode_literal_headers (\<lambda>_. None) fields \<noteq> None)"
  using connect_request_literal [of "str_lit ''200''" "str_lit '':path''" "\<lambda>_. None" qpack_decoder_disabled]
    str_lit_utf8 by (auto simp: decode_literal_headers_def)

text \<open>
  C11. A status response reaches a peer in step: if the peer's decoder is in step with our encoder and
  was created with the same maximal capacity, then after reading the encoder-stream bytes of the
  response it stays in step and decodes the section to exactly the one status field, whether the
  entry was found, newly inserted, or sent as a literal.
\<close>

theorem status_response_delivered:
  assumes "synced (qe_table e) (qd_table d)" and "dt_max_capacity (qd_table d) = dt_max_capacity (qe_table e)"
    and "dt_insert_count (qe_table e) + 1 + 3 * (dt_max_capacity (qe_table e) div 32) \<le> u64_MAX"
    and "qstr_ok status" and "encode_status_response_with status e = (e', Inr h)"
  shows "\<exists>d' fields. feed_encoder_stream huff d (eh_encoder_stream h) = (d', Inr (length (eh_encoder_stream h)))
    \<and> synced (qe_table e') (qd_table d') \<and> eh_headers_frame h = frame_wrap frame_HEADERS fields
    \<and> decode_field_section huff fields d' = Inr ([(str_lit '':status'', status)], eh_ric h)"
proof (cases "dt_max_capacity (qe_table e) = 0")
  case True
  then have h: "e' = e" "eh_encoder_stream h = []" "eh_headers_frame h = encode_status_response status" "eh_ric h = 0"
    using assms(5) by (auto simp: encode_status_response_with_def)
  have "decode_lines huff (qd_table d) 0 (qpack_literal (str_lit '':status'') status [] @ []) []
      = Inr ([] @ [(str_lit '':status'', status)])"
    by (simp only: decode_lines_literal str_lit_utf8 assms(4) decode_lines_Nil)
  then have "decode_field_section huff (0x00 # 0x00 # qpack_literal (str_lit '':status'') status []) d
      = Inr ([(str_lit '':status'', status)], 0)"
    by (simp add: decode_section_literal)
  moreover have "encode_status_response status = frame_wrap frame_HEADERS (0x00 # 0x00 # qpack_literal (str_lit '':status'') status [])"
    by (simp add: encode_status_response_def Let_def wire_simps)
  moreover have "feed_encoder_stream huff d [] = (d, Inr 0)"
    by (simp add: feed_encoder_stream_def feed_encoder_loop.simps [of _ _ "[]" 0])
  ultimately show ?thesis
    using h assms(1)
    by (intro exI [of _ d] exI [of _ "0x00 # 0x00 # qpack_literal (str_lit '':status'') status []"]) simp
next
  case False
  then have "status_scratch status e = Inr (e', h)"
    using assms(5) by (auto simp: encode_status_response_with_def split: sum.splits)
  then obtain e1 es1 es2 ab p where steps: "announce_capacity e = Inr (e1, es1)"
      "ensure_dynamic_entry (str_lit '':status'') status e1 es1 = Inr (e', es2, ab)"
      "encode_field_section_prefix (dt_insert_count (qe_table e')) (dt_insert_count (qe_table e'))
        (dt_max_capacity (qe_table e')) [] = Some p"
      "h = \<lparr>eh_headers_frame = frame_wrap frame_HEADERS (p @ qint_bytes 0x80 6 (of_nat (dt_insert_count (qe_table e') - ab))),
        eh_encoder_stream = es2, eh_ric = dt_insert_count (qe_table e')\<rparr>"
    by (auto simp: status_scratch_def Let_def ebind_eq_Inr encode_dynamic_indexed_Some)
  have wf: "wf_table (qe_table e)" and utf8: "valid_utf8 status" "valid_utf8 (str_lit '':status'')"
    using assms(1,4) str_lit_utf8 by (simp_all add: synced_def qstr_ok_def)
  note ann = announce_capacity_replicates [OF wf steps(1), of huff]
  have "dt_insert_count (qe_table e1) < u64_MAX"
    using ann assms(3) by simp
  then obtain bs where ens: "es2 = es1 @ bs" "replicates huff e1 bs e'"
      "dt_insert_count (qe_table e') \<le> dt_insert_count (qe_table e1) + 1"
      "get_absolute (qe_table e') ab = Some (str_lit '':status'', status)"
    using ensure_dynamic_entry_replicates [OF _ _ utf8(2,1) steps(2), of huff] ann by metis
  have rep: "replicates huff e es2 e'"
    using replicates_trans ann ens(1,2) by blast
  obtain d' where d': "feed_encoder_stream huff d es2 = (d', Inr (length es2))" "synced (qe_table e') (qd_table d')"
      "dt_max_capacity (qd_table d') = dt_max_capacity (qd_table d)"
    using replicates_feed [OF rep assms(1)] by metis
  have max: "dt_max_capacity (qe_table e') = dt_max_capacity (qe_table e)"
    using rep by (simp add: replicates_def)
  have "decode_field_section huff (p @ concat (map (\<lambda>(ab, f). qint_bytes 0x80 6 (of_nat (dt_insert_count (qe_table e') - ab)))
      [(ab, (str_lit '':status'', status))])) d' = Inr (map snd [(ab, (str_lit '':status'', status))], dt_insert_count (qe_table e'))"
    using d'(2,3) max steps(3) ens(3,4) ann assms(2,3) by (intro dynamic_section_decodes) auto
  then show ?thesis
    using d'(1,2) steps(4)
    by (intro exI [of _ d'] exI [of _ "p @ qint_bytes 0x80 6 (of_nat (dt_insert_count (qe_table e') - ab))"]) simp
qed


theorem status_response_delivered_witness:
  "synced (qe_table (qpack_encoder_new 0)) (qd_table qpack_decoder_disabled) \<and> qstr_ok (str_lit ''200'')
   \<and> (\<exists>e' h. encode_status_response_with (str_lit ''200'') (qpack_encoder_new 0) = (e', Inr h)
        \<and> (\<exists>d' fields. eh_headers_frame h = frame_wrap frame_HEADERS fields
             \<and> decode_field_section (\<lambda>_. None) fields d' = Inr ([(str_lit '':status'', str_lit ''200'')], eh_ric h)))"
proof -
  have t: "qe_table (qpack_encoder_new 0) = dynamic_table_new 0" "qd_table qpack_decoder_disabled = dynamic_table_new 0"
    by (simp_all add: qpack_encoder_new_def qpack_decoder_disabled_def qpack_decoder_new_def
        qpack_local_settings_disabled_def usize_try_from_def)
  have sync: "synced (qe_table (qpack_encoder_new 0)) (qd_table qpack_decoder_disabled)"
    unfolding t by (rule synced_new) (simp_all add: usize_MAX_def)
  obtain h where h: "encode_status_response_with (str_lit ''200'') (qpack_encoder_new 0) = (qpack_encoder_new 0, Inr h)"
    by (simp add: encode_status_response_with_def t dynamic_table_new_def)
  have side: "dt_max_capacity (qd_table qpack_decoder_disabled) = dt_max_capacity (qe_table (qpack_encoder_new 0))"
      "dt_insert_count (qe_table (qpack_encoder_new 0)) + 1 + 3 * (dt_max_capacity (qe_table (qpack_encoder_new 0)) div 32) \<le> u64_MAX"
    by (simp_all add: t dynamic_table_new_def u64_MAX_def)
  show ?thesis
    using status_response_delivered [OF sync side str_lit_utf8(10) h, of "\<lambda>_. None"] sync h str_lit_utf8(10) by blast
qed


text \<open>
  C23. A CONNECT request can evict an entry it refers to: with a table that the first request fills
  exactly and whose entries are all acknowledged, a second request with a longer path finds its
  method entry, then evicts it to make room for the path, and still refers to it. Every peer in step
  that has read the stream rejects the section.
\<close>

theorem connect_request_evicts_own_entry:
  "\<exists>h fields. encode_connect_request_with (str_lit ''a'') (str_lit ''/bbbb'') acked_encoder
      = (\<lparr>qe_table = second_table, qe_known_received_count = 5\<rparr>, Inr h)
    \<and> eh_headers_frame h = frame_wrap frame_HEADERS fields
    \<and> (\<forall>huff d. synced second_table (qd_table d) \<longrightarrow> dt_max_capacity (qd_table d) = 224 \<longrightarrow>
          decode_field_section huff fields d = Inl Invalid)"
proof -
  let ?e = acked_encoder and ?e' = "\<lparr>qe_table = second_table, qe_known_received_count = 5\<rparr>"
  let ?t = "after_connect (str_lit ''a'') (str_lit ''/'') 224"
  have ev: "evicted ?t = 0" and ents: "dt_entries ?t = five_entries (str_lit ''a'') (str_lit ''/'')"
    and ic: "dt_insert_count ?t = 5" "dt_max_capacity ?t = 224"
    by (simp_all add: evicted_def after_connect_def five_entries_def)
  have ic': "dt_insert_count second_table = 6" "dt_max_capacity second_table = 224"
    by (simp_all add: second_table_def)
  note names = str_lit_names [simplified]
  have paths: "str_lit ''/bbbb'' \<noteq> str_lit ''/''"
    by code_simp
  have found: "find_absolute (str_lit '':method'') (str_lit ''CONNECT'') ?e = Some 1"
      "find_absolute (str_lit '':protocol'') (str_lit ''webtransport'') ?e = Some 2"
      "find_absolute (str_lit '':scheme'') (str_lit ''https'') ?e = Some 3"
      "find_absolute (str_lit '':authority'') (str_lit ''a'') ?e = Some 4"
    using find_absolute_nth [of ?e 0] find_absolute_nth [of ?e 1] find_absolute_nth [of ?e 2] find_absolute_nth [of ?e 3]
      wf_acked ev ents names by (auto simp: five_entries_def entry_pair_def less_Suc_eq numeral_eq_Suc)
  have new: "find_absolute (str_lit '':path'') (str_lit ''/bbbb'') ?e = None"
    using wf_acked ents names paths by (intro find_absolute_None) (auto simp: five_entries_def entry_pair_def)
  have ins: "insert_literal_instruction (str_lit '':path'') (str_lit ''/bbbb'') ?e
      = (?e', Inr (qpack_int 0x00 7 5 (qpack_int 0x40 5 5 [] @ str_lit '':path'') @ str_lit ''/bbbb''))"
    by (simp add: insert_literal_instruction_def second_insert Let_def)
  define p where "p = qpack_int 0x00 7 0 (qpack_int 0x00 8 7 [])"
  let ?q = "\<lambda>ab. qint_bytes 0x80 6 (of_nat (6 - ab))"
  let ?fields = "p @ ?q 1 @ ?q 2 @ ?q 3 @ ?q 4 @ ?q 6"
  have pre: "encode_field_section_prefix 6 6 224 [] = Some p"
    by (simp add: encode_field_section_prefix_def encode_required_insert_count_def p_def)
  have "connect_scratch (str_lit ''a'') (str_lit ''/bbbb'') ?e = Inr (?e',
      \<lparr>eh_headers_frame = frame_wrap frame_HEADERS ?fields,
       eh_encoder_stream = qpack_int 0x00 7 5 (qpack_int 0x40 5 5 [] @ str_lit '':path'') @ str_lit ''/bbbb'', eh_ric = 6\<rparr>)"
    using found new ins ic ic' pre
    by (simp add: connect_scratch_def announce_capacity_def ensure_dynamic_entry_def Let_def encode_dynamic_indexed_def
        checked_sub_def wire_simps)
  moreover have "decode_field_section huff ?fields d = Inl Invalid"
    if "synced second_table (qd_table d)" "dt_max_capacity (qd_table d) = 224" for huff d
  proof -
    have "total_size (dt_entries second_table) = 220" "evicted second_table = 1"
      using five_entries_sizes
      by (simp_all add: second_table_def evicted_def five_entries_def total_size_def entry_size_def sat_add_def usize_MAX_def)
    then have dead: "get_absolute (qd_table d) 1 = None"
      using synced_not_live [OF that(1)] that(2) by simp
    have "dt_insert_count (qd_table d) = 6"
      using that(1) ic' by (simp add: synced_def)
    moreover have "decode_lines huff (qd_table d) 6 (?q 1 @ ?q 2 @ ?q 3 @ ?q 4 @ ?q 6) [] = Inl Invalid"
      by (rule decode_lines_dead [OF dead]) (simp_all add: u64_MAX_def)
    ultimately show ?thesis
      using decode_section_dynamic [of 6 d p huff "?q 1 @ ?q 2 @ ?q 3 @ ?q 4 @ ?q 6"] pre that(2)
      by (simp add: u64_MAX_def)
  qed
  ultimately show ?thesis
    by (intro exI [of _ "\<lparr>eh_headers_frame = frame_wrap frame_HEADERS ?fields,
       eh_encoder_stream = qpack_int 0x00 7 5 (qpack_int 0x40 5 5 [] @ str_lit '':path'') @ str_lit ''/bbbb'', eh_ric = 6\<rparr>"]
        exI [of _ ?fields]) (simp add: encode_connect_request_with_def after_connect_def)
qed

theorem connect_request_evicts_own_entry_witness:
  "\<exists>h fields d. snd (encode_connect_request_with (str_lit ''a'') (str_lit ''/bbbb'') acked_encoder) = Inr h
     \<and> eh_headers_frame h = frame_wrap frame_HEADERS fields \<and> synced second_table (qd_table d)
     \<and> dt_max_capacity (qd_table d) = 224 \<and> decode_field_section (\<lambda>_. None) fields d = Inl Invalid"
proof -
  let ?d = "\<lparr>qd_table = second_table, qd_max_blocked_streams = 0, qd_known_received_count = 0\<rparr>"
  have "wf_table second_table"
    using wf_insert [OF wf_acked second_insert] .
  then have "synced second_table (qd_table ?d)" and "dt_max_capacity (qd_table ?d) = 224"
    by (auto simp: synced_def second_table_def intro: exI [of _ 0])
  then show ?thesis
    using connect_request_evicts_own_entry by (metis snd_conv)
qed

text \<open>
  The encoder's capacity must come from the peer: an encoder created with a larger capacity than
  the peer's maximum, as the endpoint creates it from its own settings, announces that capacity
  before its first insert, and the peer's decoder rejects the stream.
\<close>

theorem capacity_above_peer_rejected:
  assumes "max_d < max_e" and "max_e < usize_MAX" and "qd_table d = dynamic_table_new max_d"
    and "encode_status_response_with status (qpack_encoder_new max_e) = (e', Inr h)"
  shows "feed_encoder_stream huff d (eh_encoder_stream h) = (d, Inl (Feed_Qpack Invalid))"
proof -
  let ?t = "dynamic_table_new max_e"
  have "status_scratch status (qpack_encoder_new max_e) = Inr (e', h)"
    using assms(1,4)
    by (auto simp: encode_status_response_with_def qpack_encoder_new_def dynamic_table_new_def split: sum.splits)
  then obtain e1 bs es ab where ann: "announce_capacity (qpack_encoder_new max_e) = Inr (e1, bs)"
      and ens: "ensure_dynamic_entry (str_lit '':status'') status e1 bs = Inr (e', es, ab)" and h: "eh_encoder_stream h = es"
    by (auto simp: status_scratch_def Let_def ebind_eq_Inr)
  have "set_capacity_instruction max_e (qpack_encoder_new max_e) = (e1, Inr bs)"
    using ann by (auto simp: announce_capacity_def qpack_encoder_new_def dynamic_table_new_def split: prod.splits sum.splits)
  then have bs: "bs = qint_bytes 0x20 5 (of_nat max_e)"
    using set_capacity_instruction_bytes by blast
  obtain rest where es: "es = bs @ rest"
    using ens by (auto simp: ensure_dynamic_entry_def split: option.splits prod.splits sum.splits)
  have dec: "qpack_int_decode es 5 = Some (of_nat max_e, length bs)"
    unfolding es bs by (rule qpack_int_decode_encode) (simp_all add: mask_eq_exp_minus_1)
  have flags: "hd es AND 0x80 = 0" "hd es AND 0x40 = 0" "hd es AND 0x20 \<noteq> 0" "es \<noteq> []"
    using qint_bytes_flag [of 5 _ "0x20" "of_nat max_e"] by (simp_all add: es bs mask_eq_exp_minus_1)
  have "capacity_update (qd_table d) es = Fail (qd_table d, Feed_Qpack Invalid)"
    using assms(1-3)
    by (simp add: capacity_update_def dec usize_try_from_def unat_of_nat_usize set_capacity_def
        set_capacity_with_ack_floor_def dynamic_table_new_def)
  then have "encoder_instruction huff (qd_table d) es = Fail (qd_table d, Feed_Qpack Invalid)"
    using flags by (cases es) (auto simp: encoder_instruction_def)
  then show ?thesis
    by (simp add: h feed_encoder_stream_def feed_encoder_loop_run encoder_stream.run_Fail)
qed

theorem capacity_above_peer_rejected_witness:
  "(0 :: nat) < 4096 \<and> (4096 :: nat) < usize_MAX \<and> qd_table qpack_decoder_disabled = dynamic_table_new 0
   \<and> (\<exists>e' h. encode_status_response_with (str_lit ''200'') (qpack_encoder_new 4096) = (e', Inr h)
        \<and> feed_encoder_stream (\<lambda>_. None) qpack_decoder_disabled (eh_encoder_stream h)
            = (qpack_decoder_disabled, Inl (Feed_Qpack Invalid)))"
proof -
  let ?t = "(dynamic_table_new 4096)\<lparr>dt_capacity := 4096\<rparr>"
  let ?e = "(qpack_encoder_new 4096)\<lparr>qe_table := ?t\<rparr>"
  have lt: "(4096 :: nat) < usize_MAX" and d: "qd_table qpack_decoder_disabled = dynamic_table_new 0"
    by (simp_all add: usize_MAX_def qpack_decoder_disabled_def qpack_decoder_new_def
        qpack_local_settings_disabled_def usize_try_from_def)
  obtain bs where ann: "announce_capacity (qpack_encoder_new 4096) = Inr (?e, bs)"
    using announce_fresh [OF lt] by blast
  have "wf_table (qe_table ?e)"
    using wf_dynamic_table_new [OF lt] by (simp add: wf_table_def dynamic_table_new_def)
  moreover have "(str_lit '':status'', str_lit ''200'') \<notin> entry_pair ` set (dt_entries (qe_table ?e))"
      "dt_size (qe_table ?e) + (length (str_lit '':status'') + length (str_lit ''200'') + 32) \<le> dt_capacity (qe_table ?e)"
      "dt_insert_count (qe_table ?e) < u64_MAX"
    by (simp_all add: dynamic_table_new_def u64_MAX_def)
  ultimately obtain cs where ens: "ensure_dynamic_entry (str_lit '':status'') (str_lit ''200'') ?e bs
      = Inr (?e\<lparr>qe_table := push_entry (str_lit '':status'') (str_lit ''200'') ?t\<rparr>, bs @ cs, 1)"
    using ensure_fresh [of ?e "str_lit '':status''" "str_lit ''200''" bs] by (auto simp: dynamic_table_new_def)
  have "\<exists>e' h. status_scratch (str_lit ''200'') (qpack_encoder_new 4096) = Inr (e', h)"
    by (simp add: status_scratch_def ann ens [simplified] Let_def, simp add: push_entry_fields dynamic_table_new_def u64_MAX_def
        encode_field_section_prefix_def encode_required_insert_count_def encode_dynamic_indexed_def checked_sub_def)
  then obtain e' h where h: "encode_status_response_with (str_lit ''200'') (qpack_encoder_new 4096) = (e', Inr h)"
    by (auto simp: encode_status_response_with_def qpack_encoder_new_def dynamic_table_new_def)
  show ?thesis
    using capacity_above_peer_rejected [OF _ lt d h, of "\<lambda>_. None"] lt d h by auto
qed

end
