(* ===== verification/Hash_Map.thy ===== *)
theory Hash_Map
  imports Wt_Prelude "HOL-Library.AList" "HOL-Library.Multiset"
begin

text \<open>
  The finite maps of the Rust standard library (\<^verbatim>\<open>HashMap\<close>) as association lists, so that their
  length, \<^verbatim>\<open>retain\<close> and iteration are executable. A map is well formed when no key occurs twice;
  every operation below keeps that. The order of the entries stands for the unspecified iteration
  order; no result of the development depends on it.
\<close>

type_synonym ('k, 'v) hash_map = "('k \<times> 'v) list"

definition hm_ok :: "('k, 'v) hash_map \<Rightarrow> bool" where
  "hm_ok m \<longleftrightarrow> distinct (map fst m)"

abbreviation hm_get :: "('k, 'v) hash_map \<Rightarrow> 'k \<Rightarrow> 'v option" where
  "hm_get \<equiv> map_of"

abbreviation hm_insert :: "'k \<Rightarrow> 'v \<Rightarrow> ('k, 'v) hash_map \<Rightarrow> ('k, 'v) hash_map" where
  "hm_insert \<equiv> AList.update"

abbreviation hm_remove :: "'k \<Rightarrow> ('k, 'v) hash_map \<Rightarrow> ('k, 'v) hash_map" where
  "hm_remove \<equiv> AList.delete"

text \<open>\<^verbatim>\<open>get_mut\<close> followed by an assignment through the reference: nothing if the key is absent.\<close>

definition hm_modify :: "'k \<Rightarrow> ('v \<Rightarrow> 'v) \<Rightarrow> ('k, 'v) hash_map \<Rightarrow> ('k, 'v) hash_map" where
  "hm_modify k f m = map (\<lambda>(k', v). (k', if k' = k then f v else v)) m"

text \<open>\<^verbatim>\<open>retain\<close> with a predicate on the values.\<close>

definition hm_retain :: "('v \<Rightarrow> bool) \<Rightarrow> ('k, 'v) hash_map \<Rightarrow> ('k, 'v) hash_map" where
  "hm_retain P m = filter (\<lambda>(k, v). P v) m"

text \<open>\<^verbatim>\<open>entry(k).or_insert_with(v)\<close>.\<close>

definition hm_or_insert :: "'k \<Rightarrow> 'v \<Rightarrow> ('k, 'v) hash_map \<Rightarrow> ('k, 'v) hash_map" where
  "hm_or_insert k v m = (case hm_get m k of None \<Rightarrow> hm_insert k v m | Some _ \<Rightarrow> m)"

text \<open>\<^verbatim>\<open>get(k).copied().unwrap_or(0)\<close>.\<close>

definition hm_count :: "('k, nat) hash_map \<Rightarrow> 'k \<Rightarrow> nat" where
  "hm_count m k = (case hm_get m k of None \<Rightarrow> 0 | Some n \<Rightarrow> n)"

section \<open>Well-formedness\<close>

lemma hm_ok_Nil [simp]: "hm_ok []"
  by (simp add: hm_ok_def)

lemma hm_ok_insert [simp]: "hm_ok m \<Longrightarrow> hm_ok (hm_insert k v m)"
  by (simp add: hm_ok_def distinct_update)

lemma hm_ok_remove [simp]: "hm_ok m \<Longrightarrow> hm_ok (hm_remove k m)"
  by (simp add: hm_ok_def distinct_delete)

lemma hm_modify_keys [simp]: "map fst (hm_modify k f m) = map fst m"
  by (induction m) (auto simp: hm_modify_def)

lemma hm_ok_modify [simp]: "hm_ok (hm_modify k f m) \<longleftrightarrow> hm_ok m"
  by (simp add: hm_ok_def)

lemma hm_ok_retain [simp]: "hm_ok m \<Longrightarrow> hm_ok (hm_retain P m)"
  by (induction m) (auto simp: hm_ok_def hm_retain_def)

lemma hm_ok_or_insert [simp]: "hm_ok m \<Longrightarrow> hm_ok (hm_or_insert k v m)"
  by (simp add: hm_or_insert_def split: option.splits)

section \<open>Lookup\<close>

lemma hm_get_insert [simp]: "hm_get (hm_insert k v m) k' = (if k' = k then Some v else hm_get m k')"
  by (auto simp: update_conv')

lemma hm_get_remove [simp]: "hm_get (hm_remove k m) k' = (if k' = k then None else hm_get m k')"
  by (auto simp: delete_conv')

lemma hm_get_modify [simp]:
  "hm_get (hm_modify k f m) k' = (if k' = k then map_option f (hm_get m k) else hm_get m k')"
  by (induction m) (auto simp: hm_modify_def)

lemma hm_get_retain [simp]:
  "hm_ok m \<Longrightarrow> hm_get (hm_retain P m) k
     = (case hm_get m k of None \<Rightarrow> None | Some v \<Rightarrow> if P v then Some v else None)"
proof (induction m)
  case (Cons a m)
  then show ?case
    by (cases a) (auto simp: hm_ok_def hm_retain_def map_of_eq_None_iff image_iff split: option.splits)
qed (simp add: hm_retain_def)

lemma hm_get_or_insert [simp]:
  "hm_get (hm_or_insert k v m) k'
     = (if k' = k then Some (case hm_get m k of None \<Rightarrow> v | Some w \<Rightarrow> w) else hm_get m k')"
  by (auto simp: hm_or_insert_def split: option.splits)

section \<open>Size\<close>

lemma length_hm_modify [simp]: "length (hm_modify k f m) = length m"
  by (simp add: hm_modify_def)

lemma length_hm_retain_le: "length (hm_retain P m) \<le> length m"
  by (simp add: hm_retain_def)

lemma length_hm_insert:
  "length (hm_insert k v m) = (if hm_get m k = None then Suc (length m) else length m)"
  by (induction m) auto

lemma length_hm_remove_le: "length (hm_remove k m) \<le> length m"
  by (rule length_delete_le)

lemma length_hm_or_insert:
  "length (hm_or_insert k v m) = (if hm_get m k = None then Suc (length m) else length m)"
  by (auto simp: hm_or_insert_def length_hm_insert split: option.splits)

lemma hm_length_dom: "hm_ok m \<Longrightarrow> length m = card (dom (hm_get m))"
  by (metis dom_map_of_conv_image_fst distinct_card hm_ok_def length_map set_map)

section \<open>Counters\<close>

lemma hm_count_insert [simp]: "hm_count (hm_insert k v m) k' = (if k' = k then v else hm_count m k')"
  by (simp add: hm_count_def)

lemma hm_count_remove [simp]: "hm_count (hm_remove k m) k' = (if k' = k then 0 else hm_count m k')"
  by (simp add: hm_count_def)

lemma hm_count_Nil [simp]: "hm_count [] k = 0"
  by (simp add: hm_count_def)

section \<open>Entries as a multiset\<close>

text \<open>Removing a key takes exactly its entry out of the multiset of the values.\<close>

lemma hm_values_insert_new:
  "hm_get m k = None \<Longrightarrow> mset (map snd (hm_insert k v m)) = add_mset v (mset (map snd m))"
  by (induction m) auto

lemma hm_values_remove:
  "hm_ok m \<Longrightarrow> hm_get m k = Some v \<Longrightarrow>
     add_mset v (mset (map snd (hm_remove k m))) = mset (map snd m)"
proof (induction m)
  case (Cons a m)
  then show ?case
    by (cases a) (auto simp: hm_ok_def delete_idem)
qed simp

lemma hm_values_insert:
  "hm_ok m \<Longrightarrow> mset (map snd (hm_insert k v m)) = add_mset v (mset (map snd (hm_remove k m)))"
proof (induction m)
  case (Cons a m)
  then show ?case
    by (cases a) (auto simp: hm_ok_def delete_idem)
qed simp

lemma hm_get_mem_values: "hm_get m k = Some v \<Longrightarrow> v \<in># mset (map snd m)"
  by (force dest: map_of_SomeD)

end
