(* ===== verification/Wasm_Limits.thy ===== *)
theory Wasm_Limits
  imports Wt_Prelude
begin

text \<open>
  The configured limits of an endpoint and their validation
  (\<^verbatim>\<open>WasmLimits\<close> and \<^verbatim>\<open>WasmRateLimits\<close> of \<^verbatim>\<open>crates/wasm/src/governor.rs\<close>). Errors are the strings
  of the source, as lists of characters.
\<close>

definition HOST_TIMER_MAX_MS :: nat where
  "HOST_TIMER_MAX_MS = 2147483647"

record wasm_limits =
  max_sessions :: nat
  max_handshakes_in_flight :: nat
  max_streams_per_session_bidi :: nat
  max_streams_per_session_uni :: nat
  max_streams_global :: nat
  max_datagram_size :: nat
  max_queued_bytes_global :: nat
  max_queued_bytes_per_session :: nat
  max_queued_bytes_per_stream :: nat
  backpressure_timeout_ms :: nat
  handshake_timeout_ms :: nat
  idle_timeout_ms :: nat

definition wasm_limits_default :: wasm_limits where
  "wasm_limits_default =
     \<lparr>max_sessions = 2000, max_handshakes_in_flight = 200, max_streams_per_session_bidi = 200,
      max_streams_per_session_uni = 200, max_streams_global = 50000, max_datagram_size = 1200,
      max_queued_bytes_global = 512 * 1024 * 1024, max_queued_bytes_per_session = 2 * 1024 * 1024,
      max_queued_bytes_per_stream = 256 * 1024, backpressure_timeout_ms = 5000,
      handshake_timeout_ms = 10000, idle_timeout_ms = 60000\<rparr>"

text \<open>The loops over the named fields: the first offending one is reported.\<close>

fun check_positive :: "(string \<times> nat) list \<Rightarrow> string + unit" where
  "check_positive [] = Inr ()"
| "check_positive ((name, val) # rest) =
     (if val = 0 then Inl (''E_INTERNAL: '' @ name @ '' must be a positive integer'')
      else check_positive rest)"

fun check_timers :: "(string \<times> nat) list \<Rightarrow> string + unit" where
  "check_timers [] = Inr ()"
| "check_timers ((name, val) # rest) =
     (if val = 0 then Inl (''E_INTERNAL: '' @ name @ '' must be a positive integer'')
      else if val > HOST_TIMER_MAX_MS then
        Inl (''E_INTERNAL: '' @ name @ '' exceeds the supported host timer range'')
      else check_timers rest)"

definition wasm_limits_validate :: "wasm_limits \<Rightarrow> string + unit" where
  "wasm_limits_validate l =
     (case check_positive
        [(''maxSessions'', max_sessions l),
         (''maxHandshakesInFlight'', max_handshakes_in_flight l),
         (''maxStreamsPerSessionBidi'', max_streams_per_session_bidi l),
         (''maxStreamsPerSessionUni'', max_streams_per_session_uni l),
         (''maxStreamsGlobal'', max_streams_global l),
         (''maxDatagramSize'', max_datagram_size l),
         (''maxQueuedBytesGlobal'', max_queued_bytes_global l),
         (''maxQueuedBytesPerSession'', max_queued_bytes_per_session l),
         (''maxQueuedBytesPerStream'', max_queued_bytes_per_stream l)] of
        Inl e \<Rightarrow> Inl e
      | Inr _ \<Rightarrow>
        case check_timers
          [(''backpressureTimeoutMs'', backpressure_timeout_ms l),
           (''handshakeTimeoutMs'', handshake_timeout_ms l),
           (''idleTimeoutMs'', idle_timeout_ms l)] of
          Inl e \<Rightarrow> Inl e
        | Inr _ \<Rightarrow>
          if max_queued_bytes_per_stream l > max_queued_bytes_per_session l then
            Inl ''E_INTERNAL: maxQueuedBytesPerStream must be <= maxQueuedBytesPerSession''
          else if max_queued_bytes_per_session l > max_queued_bytes_global l then
            Inl ''E_INTERNAL: maxQueuedBytesPerSession must be <= maxQueuedBytesGlobal''
          else if max_streams_per_session_bidi l > max_streams_global l then
            Inl ''E_INTERNAL: maxStreamsPerSessionBidi must be <= maxStreamsGlobal''
          else if max_streams_per_session_uni l > max_streams_global l then
            Inl ''E_INTERNAL: maxStreamsPerSessionUni must be <= maxStreamsGlobal''
          else if handshake_timeout_ms l > idle_timeout_ms l then
            Inl ''E_INTERNAL: handshakeTimeoutMs must be <= idleTimeoutMs''
          else Inr ())"

record wasm_rate_limits =
  handshakes_per_sec :: nat
  handshakes_burst :: nat
  stream_opens_per_sec :: nat
  stream_opens_burst :: nat
  datagrams_ingress_per_sec :: nat
  datagrams_ingress_burst :: nat

definition wasm_rate_limits_default :: wasm_rate_limits where
  "wasm_rate_limits_default =
     \<lparr>handshakes_per_sec = 20, handshakes_burst = 40, stream_opens_per_sec = 200,
      stream_opens_burst = 400, datagrams_ingress_per_sec = 2000, datagrams_ingress_burst = 5000\<rparr>"

definition wasm_rate_limits_validate :: "wasm_rate_limits \<Rightarrow> string + unit" where
  "wasm_rate_limits_validate r =
     (case check_positive
        [(''rateLimits.handshakesPerSec'', handshakes_per_sec r),
         (''rateLimits.handshakesBurst'', handshakes_burst r),
         (''rateLimits.streamOpensPerSec'', stream_opens_per_sec r),
         (''rateLimits.streamOpensBurst'', stream_opens_burst r),
         (''rateLimits.datagramsIngressPerSec'', datagrams_ingress_per_sec r),
         (''rateLimits.datagramsIngressBurst'', datagrams_ingress_burst r)] of
        Inl e \<Rightarrow> Inl e
      | Inr _ \<Rightarrow>
        if handshakes_burst r < handshakes_per_sec r then
          Inl ''E_INTERNAL: rateLimits.handshakesBurst must be >= rateLimits.handshakesPerSec''
        else if stream_opens_burst r < stream_opens_per_sec r then
          Inl ''E_INTERNAL: rateLimits.streamOpensBurst must be >= rateLimits.streamOpensPerSec''
        else if datagrams_ingress_burst r < datagrams_ingress_per_sec r then
          Inl ''E_INTERNAL: rateLimits.datagramsIngressBurst must be >= rateLimits.datagramsIngressPerSec''
        else Inr ())"

section \<open>What a validated configuration guarantees\<close>

lemma check_positive_ok: "check_positive xs = Inr () \<longleftrightarrow> (\<forall>(n, v)\<in>set xs. 0 < v)"
  by (induction xs rule: check_positive.induct) auto

lemma check_timers_ok: "check_timers xs = Inr () \<longleftrightarrow> (\<forall>(n, v)\<in>set xs. 0 < v \<and> v \<le> HOST_TIMER_MAX_MS)"
  by (induction xs rule: check_timers.induct) auto

lemma sum_unit_cases: "(case x of Inl e \<Rightarrow> Inl e | Inr (_ :: unit) \<Rightarrow> y) = Inr () \<longleftrightarrow> x = Inr () \<and> y = Inr ()"
  by (cases x) auto

text \<open>The conditions in one place, for the components that rely on a validated configuration.\<close>

lemma wasm_limits_validateD:
  assumes "wasm_limits_validate l = Inr ()"
  shows "0 < max_sessions l" and "0 < max_handshakes_in_flight l" and "0 < max_streams_global l"
    and "0 < max_queued_bytes_per_stream l"
    and "max_queued_bytes_per_stream l \<le> max_queued_bytes_per_session l"
    and "max_queued_bytes_per_session l \<le> max_queued_bytes_global l"
    and "max_streams_per_session_bidi l \<le> max_streams_global l"
    and "max_streams_per_session_uni l \<le> max_streams_global l"
    and "0 < idle_timeout_ms l" and "handshake_timeout_ms l \<le> idle_timeout_ms l"
    and "idle_timeout_ms l \<le> HOST_TIMER_MAX_MS"
  using assms unfolding wasm_limits_validate_def sum_unit_cases check_positive_ok check_timers_ok
  by (auto split: if_splits)

lemma wasm_rate_limits_validate_iff:
  "wasm_rate_limits_validate r = Inr () \<longleftrightarrow>
     0 < handshakes_per_sec r \<and> handshakes_per_sec r \<le> handshakes_burst r \<and>
     0 < stream_opens_per_sec r \<and> stream_opens_per_sec r \<le> stream_opens_burst r \<and>
     0 < datagrams_ingress_per_sec r \<and> datagrams_ingress_per_sec r \<le> datagrams_ingress_burst r"
  unfolding wasm_rate_limits_validate_def sum_unit_cases check_positive_ok
  by auto

lemma wasm_limits_default_valid: "wasm_limits_validate wasm_limits_default = Inr ()"
  by (simp add: wasm_limits_validate_def wasm_limits_default_def HOST_TIMER_MAX_MS_def)

lemma wasm_rate_limits_default_valid: "wasm_rate_limits_validate wasm_rate_limits_default = Inr ()"
  by (simp add: wasm_rate_limits_validate_iff wasm_rate_limits_default_def)

end
