(* ===== verification/Rate_Limiter.thy ===== *)
theory Rate_Limiter
  imports Hash_Map Wasm_Limits
begin

text \<open>
  The per-peer rate limiter of the endpoint (\<^verbatim>\<open>PeerRateLimiter\<close> of \<^verbatim>\<open>crates/wasm/src/governor.rs\<close>):
  token buckets per address and per /24 or /64 aggregate, their eviction when idle, and the
  connections that pin them.

  An \<^verbatim>\<open>Instant\<close> is the number of nanoseconds since some origin; the truncating subtraction of
  \<open>nat\<close> is \<^verbatim>\<open>checked_duration_since(..).unwrap_or_default()\<close>. A \<^verbatim>\<open>u32\<close>, \<^verbatim>\<open>u64\<close> or \<^verbatim>\<open>u128\<close> that
  is only added or multiplied with saturation is a \<open>nat\<close> with its maximum written out. The
  \<^verbatim>\<open>expect\<close> calls of \<^verbatim>\<open>check_peer\<close> are the error \<open>Panic\<close>.
\<close>

type_synonym instant = nat

definition RATE_LIMIT_FP_SCALE :: nat where
  "RATE_LIMIT_FP_SCALE = 1000000"

definition MIN_RATE_LIMIT_BUCKET_CAP :: nat where
  "MIN_RATE_LIMIT_BUCKET_CAP = 64"

definition IPV4_AGGREGATE_PREFIX_BITS :: nat where
  "IPV4_AGGREGATE_PREFIX_BITS = 24"

definition IPV6_AGGREGATE_PREFIX_BITS :: nat where
  "IPV6_AGGREGATE_PREFIX_BITS = 64"

definition AGGREGATE_RATE_MULTIPLIER :: nat where
  "AGGREGATE_RATE_MULTIPLIER = 8"

definition u32_MAX :: nat where
  "u32_MAX = 2 ^ 32 - 1"

definition u128_MAX :: nat where
  "u128_MAX = 2 ^ 128 - 1"

section \<open>Dimensions\<close>

datatype rate_limit_dimension = Handshake | StreamOpen | DatagramIngress

fun error_label :: "rate_limit_dimension \<Rightarrow> string" where
  "error_label Handshake = ''handshakes''"
| "error_label StreamOpen = ''streamOpens''"
| "error_label DatagramIngress = ''datagramsIngress''"

record token_bucket_config =
  rate_per_sec :: nat
  burst :: nat

fun bucket_config :: "rate_limit_dimension \<Rightarrow> wasm_rate_limits \<Rightarrow> token_bucket_config" where
  "bucket_config Handshake l = \<lparr>rate_per_sec = handshakes_per_sec l, burst = handshakes_burst l\<rparr>"
| "bucket_config StreamOpen l = \<lparr>rate_per_sec = stream_opens_per_sec l, burst = stream_opens_burst l\<rparr>"
| "bucket_config DatagramIngress l =
     \<lparr>rate_per_sec = datagrams_ingress_per_sec l, burst = datagrams_ingress_burst l\<rparr>"

definition aggregate_bucket_config ::
  "rate_limit_dimension \<Rightarrow> wasm_rate_limits \<Rightarrow> token_bucket_config" where
  "aggregate_bucket_config d l =
     (let config = bucket_config d l in
      \<lparr>rate_per_sec = sat_mul u32_MAX (rate_per_sec config) AGGREGATE_RATE_MULTIPLIER,
       burst = sat_mul u32_MAX (burst config) AGGREGATE_RATE_MULTIPLIER\<rparr>)"

section \<open>Peers and aggregates\<close>

datatype ip_addr = IpV4 u32 | IpV6 u128

record socket_addr =
  sa_ip :: ip_addr
  sa_port :: u16

datatype peer_key = PeerKey ip_addr
datatype prefix_key = PrefixKey ip_addr

text \<open>\<^verbatim>\<open>Ipv6Addr::to_ipv4_mapped\<close>: the addresses \<^verbatim>\<open>::ffff:a.b.c.d\<close>.\<close>

definition to_ipv4_mapped :: "u128 \<Rightarrow> u32 option" where
  "to_ipv4_mapped ip = (if drop_bit 32 ip = 0xFFFF then Some (ucast ip) else None)"

definition from_socket_addr :: "socket_addr \<Rightarrow> peer_key" where
  "from_socket_addr addr =
     (case sa_ip addr of
        IpV4 ip \<Rightarrow> PeerKey (IpV4 ip)
      | IpV6 ip \<Rightarrow>
          (case to_ipv4_mapped ip of
             Some mapped \<Rightarrow> PeerKey (IpV4 mapped)
           | None \<Rightarrow> PeerKey (IpV6 ip)))"

fun aggregate :: "peer_key \<Rightarrow> prefix_key" where
  "aggregate (PeerKey (IpV4 ip)) =
     PrefixKey (IpV4 (ip AND push_bit (32 - IPV4_AGGREGATE_PREFIX_BITS) (NOT 0)))"
| "aggregate (PeerKey (IpV6 ip)) =
     PrefixKey (IpV6 (ip AND push_bit (128 - IPV6_AGGREGATE_PREFIX_BITS) (NOT 0)))"

section \<open>Token buckets\<close>

record token_bucket_state =
  tokens_fp :: nat
  last_refill :: instant

definition token_bucket_new :: "instant \<Rightarrow> token_bucket_config \<Rightarrow> token_bucket_state" where
  "token_bucket_new now config =
     \<lparr>tokens_fp = burst config * RATE_LIMIT_FP_SCALE, last_refill = now\<rparr>"

definition refill_amount :: "nat \<Rightarrow> token_bucket_config \<Rightarrow> nat" where
  "refill_amount elapsed_nanos config =
     sat_mul u128_MAX (sat_mul u128_MAX elapsed_nanos (rate_per_sec config)) RATE_LIMIT_FP_SCALE
       div 1000000000"

definition refill ::
  "instant \<Rightarrow> token_bucket_config \<Rightarrow> token_bucket_state \<Rightarrow> token_bucket_state" where
  "refill now config t =
     (let elapsed = now - last_refill t in
      if elapsed = 0 then t
      else let refill_fp = refill_amount elapsed config in
        if refill_fp = 0 then t
        else t\<lparr>tokens_fp := min (sat_add u128_MAX (tokens_fp t) refill_fp)
                                 (burst config * RATE_LIMIT_FP_SCALE),
               last_refill := now\<rparr>)"

definition peek ::
  "instant \<Rightarrow> token_bucket_config \<Rightarrow> token_bucket_state \<Rightarrow> token_bucket_state \<times> bool" where
  "peek now config t =
     (let t' = refill now config t in (t', tokens_fp t' \<ge> RATE_LIMIT_FP_SCALE))"

definition spend :: "token_bucket_state \<Rightarrow> token_bucket_state" where
  "spend t = t\<lparr>tokens_fp := tokens_fp t - RATE_LIMIT_FP_SCALE\<rparr>"

section \<open>Buckets of a peer or an aggregate\<close>

record peer_bucket =
  handshakes :: token_bucket_state
  stream_opens :: token_bucket_state
  datagrams_ingress :: token_bucket_state
  owner_count :: nat
  last_touched :: instant

definition with_config ::
  "instant \<Rightarrow> wasm_rate_limits
     \<Rightarrow> (rate_limit_dimension \<Rightarrow> wasm_rate_limits \<Rightarrow> token_bucket_config) \<Rightarrow> peer_bucket" where
  "with_config now l config =
     \<lparr>handshakes = token_bucket_new now (config Handshake l),
      stream_opens = token_bucket_new now (config StreamOpen l),
      datagrams_ingress = token_bucket_new now (config DatagramIngress l),
      owner_count = 0, last_touched = now\<rparr>"

definition peer_bucket_new :: "instant \<Rightarrow> wasm_rate_limits \<Rightarrow> peer_bucket" where
  "peer_bucket_new now l = with_config now l bucket_config"

definition peer_bucket_new_aggregate :: "instant \<Rightarrow> wasm_rate_limits \<Rightarrow> peer_bucket" where
  "peer_bucket_new_aggregate now l = with_config now l aggregate_bucket_config"

text \<open>\<^verbatim>\<open>bucket_mut\<close>, as a reader and a writer.\<close>

fun bucket_get :: "rate_limit_dimension \<Rightarrow> peer_bucket \<Rightarrow> token_bucket_state" where
  "bucket_get Handshake b = handshakes b"
| "bucket_get StreamOpen b = stream_opens b"
| "bucket_get DatagramIngress b = datagrams_ingress b"

fun bucket_set :: "rate_limit_dimension \<Rightarrow> token_bucket_state \<Rightarrow> peer_bucket \<Rightarrow> peer_bucket" where
  "bucket_set Handshake t b = b\<lparr>handshakes := t\<rparr>"
| "bucket_set StreamOpen t b = b\<lparr>stream_opens := t\<rparr>"
| "bucket_set DatagramIngress t b = b\<lparr>datagrams_ingress := t\<rparr>"

section \<open>The limiter\<close>

record peer_rate_limiter =
  rate_limits :: wasm_rate_limits
  idle_ttl :: nat
  max_buckets :: nat
  buckets :: "(peer_key, peer_bucket) hash_map"
  prefix_buckets :: "(prefix_key, peer_bucket) hash_map"
  connection_owners :: "(u32, peer_key) hash_map"
  rate_limited_handshake_count :: nat
  rate_limited_stream_open_count :: nat
  rate_limited_datagram_ingress_count :: nat
  rate_limited_by_prefix_count :: nat

datatype check_error = Err string | Panic string

definition bucket_cap :: "wasm_limits \<Rightarrow> nat" where
  "bucket_cap l =
     max (max (sat_mul usize_MAX (max_sessions l) 2) (sat_mul usize_MAX (max_handshakes_in_flight l) 2))
         MIN_RATE_LIMIT_BUCKET_CAP"

text \<open>\<^verbatim>\<open>Duration::from_millis\<close> gives the time to live in nanoseconds.\<close>

definition peer_rate_limiter_new ::
  "wasm_rate_limits \<Rightarrow> wasm_limits \<Rightarrow> string + peer_rate_limiter" where
  "peer_rate_limiter_new r l =
     (case wasm_limits_validate l of
        Inl e \<Rightarrow> Inl e
      | Inr _ \<Rightarrow>
        case wasm_rate_limits_validate r of
          Inl e \<Rightarrow> Inl e
        | Inr _ \<Rightarrow>
          Inr \<lparr>rate_limits = r, idle_ttl = idle_timeout_ms l * 1000000, max_buckets = bucket_cap l,
               buckets = [], prefix_buckets = [], connection_owners = [],
               rate_limited_handshake_count = 0, rate_limited_stream_open_count = 0,
               rate_limited_datagram_ingress_count = 0, rate_limited_by_prefix_count = 0\<rparr>)"

fun bump_counter :: "rate_limit_dimension \<Rightarrow> peer_rate_limiter \<Rightarrow> peer_rate_limiter" where
  "bump_counter Handshake s =
     s\<lparr>rate_limited_handshake_count := sat_add u64_MAX (rate_limited_handshake_count s) 1\<rparr>"
| "bump_counter StreamOpen s =
     s\<lparr>rate_limited_stream_open_count := sat_add u64_MAX (rate_limited_stream_open_count s) 1\<rparr>"
| "bump_counter DatagramIngress s =
     s\<lparr>rate_limited_datagram_ingress_count :=
         sat_add u64_MAX (rate_limited_datagram_ingress_count s) 1\<rparr>"

definition bump_prefix :: "peer_rate_limiter \<Rightarrow> peer_rate_limiter" where
  "bump_prefix s =
     s\<lparr>rate_limited_by_prefix_count := sat_add u64_MAX (rate_limited_by_prefix_count s) 1\<rparr>"

definition live :: "nat \<Rightarrow> instant \<Rightarrow> peer_bucket \<Rightarrow> bool" where
  "live ttl now b \<longleftrightarrow> owner_count b > 0 \<or> now - last_touched b < ttl"

definition evict_idle_zero_owner :: "instant \<Rightarrow> peer_rate_limiter \<Rightarrow> peer_rate_limiter" where
  "evict_idle_zero_owner now s =
     s\<lparr>buckets := hm_retain (live (idle_ttl s) now) (buckets s),
       prefix_buckets := hm_retain (live (idle_ttl s) now) (prefix_buckets s)\<rparr>"

definition ensure_bucket ::
  "instant \<Rightarrow> peer_key \<Rightarrow> rate_limit_dimension \<Rightarrow> peer_rate_limiter
     \<Rightarrow> peer_rate_limiter \<times> (check_error + unit)" where
  "ensure_bucket now peer d s =
     (let s = evict_idle_zero_owner now s in
      if hm_get (buckets s) peer = None \<and> length (buckets s) \<ge> max_buckets s then
        (bump_counter d s, Inl (Err ''E_RATE_LIMITED: peer rate limit bucket capacity reached''))
      else
        (s\<lparr>buckets := hm_or_insert peer (peer_bucket_new now (rate_limits s)) (buckets s)\<rparr>, Inr ()))"

definition ensure_prefix_bucket ::
  "instant \<Rightarrow> prefix_key \<Rightarrow> rate_limit_dimension \<Rightarrow> peer_rate_limiter
     \<Rightarrow> peer_rate_limiter \<times> (check_error + unit)" where
  "ensure_prefix_bucket now prefix d s =
     (if hm_get (prefix_buckets s) prefix = None \<and> length (prefix_buckets s) \<ge> max_buckets s then
        (bump_prefix (bump_counter d s),
         Inl (Err ''E_RATE_LIMITED: peer prefix rate limit bucket capacity reached''))
      else
        (s\<lparr>prefix_buckets :=
             hm_or_insert prefix (peer_bucket_new_aggregate now (rate_limits s)) (prefix_buckets s)\<rparr>,
         Inr ()))"

text \<open>
  The two halves of a check on one of the bucket maps: touch, refill and peek the bucket of a key,
  and charge it. \<open>None\<close> is the panic of \<^verbatim>\<open>expect\<close>.
\<close>

definition peek_at ::
  "instant \<Rightarrow> rate_limit_dimension \<Rightarrow> token_bucket_config \<Rightarrow> 'k \<Rightarrow> ('k, peer_bucket) hash_map
     \<Rightarrow> (('k, peer_bucket) hash_map \<times> bool) option" where
  "peek_at now d config k m =
     (case hm_get m k of
        None \<Rightarrow> None
      | Some b \<Rightarrow>
          (case peek now config (bucket_get d b) of
             (t, ready) \<Rightarrow> Some (hm_insert k (bucket_set d t (b\<lparr>last_touched := now\<rparr>)) m, ready)))"

definition spend_at ::
  "rate_limit_dimension \<Rightarrow> 'k \<Rightarrow> ('k, peer_bucket) hash_map \<Rightarrow> ('k, peer_bucket) hash_map option" where
  "spend_at d k m =
     (case hm_get m k of
        None \<Rightarrow> None
      | Some b \<Rightarrow> Some (hm_insert k (bucket_set d (spend (bucket_get d b)) b) m))"

definition charge_both ::
  "peer_key \<Rightarrow> rate_limit_dimension \<Rightarrow> peer_rate_limiter
     \<Rightarrow> peer_rate_limiter \<times> (check_error + unit)" where
  "charge_both peer d s =
     (case spend_at d peer (buckets s) of
        None \<Rightarrow> (s, Inl (Panic ''bucket just ensured''))
      | Some m \<Rightarrow>
        (case spend_at d (aggregate peer) (prefix_buckets s) of
           None \<Rightarrow> (s\<lparr>buckets := m\<rparr>, Inl (Panic ''prefix bucket just ensured''))
         | Some m' \<Rightarrow> (s\<lparr>buckets := m, prefix_buckets := m'\<rparr>, Inr ())))"

definition reject ::
  "rate_limit_dimension \<Rightarrow> bool \<Rightarrow> peer_rate_limiter \<Rightarrow> peer_rate_limiter \<times> (check_error + unit)" where
  "reject d prefix_ready s =
     (let s = bump_counter d s in
      if \<not> prefix_ready then
        (bump_prefix s,
         Inl (Err (''E_RATE_LIMITED: '' @ error_label d
                   @ '' rate limit reached for the peer's network prefix'')))
      else (s, Inl (Err (''E_RATE_LIMITED: '' @ error_label d @ '' rate limit reached''))))"

definition check_ensured ::
  "instant \<Rightarrow> peer_key \<Rightarrow> rate_limit_dimension \<Rightarrow> peer_rate_limiter
     \<Rightarrow> peer_rate_limiter \<times> (check_error + unit)" where
  "check_ensured now peer d s =
     (case peek_at now d (bucket_config d (rate_limits s)) peer (buckets s) of
        None \<Rightarrow> (s, Inl (Panic ''bucket just ensured''))
      | Some (m, peer_ready) \<Rightarrow>
        (case peek_at now d (aggregate_bucket_config d (rate_limits s)) (aggregate peer)
                (prefix_buckets s) of
           None \<Rightarrow> (s\<lparr>buckets := m\<rparr>, Inl (Panic ''prefix bucket just ensured''))
         | Some (m', prefix_ready) \<Rightarrow>
           (let s = s\<lparr>buckets := m, prefix_buckets := m'\<rparr> in
            if peer_ready \<and> prefix_ready then charge_both peer d s else reject d prefix_ready s)))"

definition check_peer ::
  "instant \<Rightarrow> peer_key \<Rightarrow> rate_limit_dimension \<Rightarrow> peer_rate_limiter
     \<Rightarrow> peer_rate_limiter \<times> (check_error + unit)" where
  "check_peer now peer d s =
     (case ensure_bucket now peer d s of
        (s, Inl e) \<Rightarrow> (s, Inl e)
      | (s, Inr _) \<Rightarrow>
        (case ensure_prefix_bucket now (aggregate peer) d s of
           (s, Inl e) \<Rightarrow> (s, Inl e)
         | (s, Inr _) \<Rightarrow> check_ensured now peer d s))"

definition check ::
  "instant \<Rightarrow> socket_addr \<Rightarrow> rate_limit_dimension \<Rightarrow> peer_rate_limiter
     \<Rightarrow> peer_rate_limiter \<times> (check_error + unit)" where
  "check now src d s = check_peer now (from_socket_addr src) d s"

definition check_connection ::
  "instant \<Rightarrow> u32 \<Rightarrow> rate_limit_dimension \<Rightarrow> peer_rate_limiter
     \<Rightarrow> peer_rate_limiter \<times> (check_error + unit)" where
  "check_connection now conn d s =
     (case hm_get (connection_owners s) conn of
        None \<Rightarrow> (s, Inl (Err (''E_INTERNAL: missing peer ownership for '' @ error_label d
                              @ '' rate limiting'')))
      | Some peer \<Rightarrow> check_peer now peer d s)"

definition own :: "instant \<Rightarrow> peer_bucket \<Rightarrow> peer_bucket" where
  "own now b = b\<lparr>owner_count := sat_add usize_MAX (owner_count b) 1, last_touched := now\<rparr>"

definition disown :: "instant \<Rightarrow> peer_bucket \<Rightarrow> peer_bucket" where
  "disown now b = b\<lparr>owner_count := owner_count b - 1, last_touched := now\<rparr>"

definition decrement_owner :: "peer_key \<Rightarrow> instant \<Rightarrow> peer_rate_limiter \<Rightarrow> peer_rate_limiter" where
  "decrement_owner peer now s =
     evict_idle_zero_owner now
       (s\<lparr>buckets := hm_modify peer (disown now) (buckets s),
          prefix_buckets := hm_modify (aggregate peer) (disown now) (prefix_buckets s)\<rparr>)"

definition release_connection :: "u32 \<Rightarrow> instant \<Rightarrow> peer_rate_limiter \<Rightarrow> peer_rate_limiter" where
  "release_connection conn now s =
     (case hm_get (connection_owners s) conn of
        None \<Rightarrow> s
      | Some peer \<Rightarrow>
          decrement_owner peer now (s\<lparr>connection_owners := hm_remove conn (connection_owners s)\<rparr>))"

definition attach_connection ::
  "u32 \<Rightarrow> socket_addr \<Rightarrow> instant \<Rightarrow> peer_rate_limiter
     \<Rightarrow> peer_rate_limiter \<times> (check_error + unit)" where
  "attach_connection conn src now s =
     (let s = release_connection conn now s;
          peer = from_socket_addr src in
      case ensure_bucket now peer Handshake s of
        (s, Inl e) \<Rightarrow> (s, Inl e)
      | (s, Inr _) \<Rightarrow>
        (case ensure_prefix_bucket now (aggregate peer) Handshake
                (s\<lparr>buckets := hm_modify peer (own now) (buckets s)\<rparr>) of
           (s, Inl e) \<Rightarrow> (s, Inl e)
         | (s, Inr _) \<Rightarrow>
           (s\<lparr>prefix_buckets := hm_modify (aggregate peer) (own now) (prefix_buckets s),
              connection_owners := hm_insert conn peer (connection_owners s)\<rparr>, Inr ())))"

definition clear_limiter :: "peer_rate_limiter \<Rightarrow> peer_rate_limiter" where
  "clear_limiter s = s\<lparr>buckets := [], prefix_buckets := [], connection_owners := []\<rparr>"

record rate_limit_snapshot =
  bucket_count :: nat
  prefix_bucket_count :: nat
  snap_handshake_count :: nat
  snap_stream_open_count :: nat
  snap_datagram_ingress_count :: nat
  snap_by_prefix_count :: nat

definition limiter_snapshot :: "peer_rate_limiter \<Rightarrow> rate_limit_snapshot" where
  "limiter_snapshot s =
     \<lparr>bucket_count = length (buckets s), prefix_bucket_count = length (prefix_buckets s),
      snap_handshake_count = rate_limited_handshake_count s,
      snap_stream_open_count = rate_limited_stream_open_count s,
      snap_datagram_ingress_count = rate_limited_datagram_ingress_count s,
      snap_by_prefix_count = rate_limited_by_prefix_count s\<rparr>"

end
