(* ===== verification/Rate_Limiter_Safety.thy ===== *)
theory Rate_Limiter_Safety
  imports Rate_Limiter
begin

text \<open>
  What the rate limiter enforces: sequences of limiter operations and the bound on the requests
  they admit per peer and per aggregate.
\<close>

section \<open>Sequences of operations\<close>

datatype limiter_op =
    Check socket_addr rate_limit_dimension
  | Check_Connection u32 rate_limit_dimension
  | Attach u32 socket_addr
  | Release u32

fun limiter_step :: "instant \<times> limiter_op \<Rightarrow> peer_rate_limiter
    \<Rightarrow> peer_rate_limiter \<times> (check_error + unit)" where
  "limiter_step (now, Check src d) s = check now src d s"
| "limiter_step (now, Check_Connection conn d) s = check_connection now conn d s"
| "limiter_step (now, Attach conn src) s = attach_connection conn src now s"
| "limiter_step (now, Release conn) s = (release_connection conn now s, Inr ())"

text \<open>The peer and the dimension an operation asks about.\<close>

fun asked :: "limiter_op \<Rightarrow> peer_rate_limiter \<Rightarrow> (peer_key \<times> rate_limit_dimension) option" where
  "asked (Check src d) s = Some (from_socket_addr src, d)"
| "asked (Check_Connection conn d) s =
     (case hm_get (connection_owners s) conn of None \<Rightarrow> None | Some p \<Rightarrow> Some (p, d))"
| "asked (Attach conn src) s = None"
| "asked (Release conn) s = None"

fun limiter_run :: "(instant \<times> limiter_op) list \<Rightarrow> peer_rate_limiter \<Rightarrow> peer_rate_limiter" where
  "limiter_run [] s = s"
| "limiter_run (x # xs) s = limiter_run xs (fst (limiter_step x s))"

text \<open>The requests a sequence of operations admits, in order.\<close>

fun admitted :: "(instant \<times> limiter_op) list \<Rightarrow> peer_rate_limiter
    \<Rightarrow> (peer_key \<times> rate_limit_dimension) list" where
  "admitted [] s = []"
| "admitted (x # xs) s =
     (case limiter_step x s of
        (s', Inr _) \<Rightarrow> (case asked (snd x) s of None \<Rightarrow> [] | Some pd \<Rightarrow> [pd]) @ admitted xs s'
      | (s', Inl _) \<Rightarrow> admitted xs s')"

abbreviation nanos :: nat where
  "nanos \<equiv> 1000000000"

section \<open>One token bucket\<close>

text \<open>
  A bucket is covered for \<open>n\<close> admitted requests since \<open>t0\<close> when what they cost and what is left
  are paid for by one burst and the refill up to the last refill time.
\<close>

definition covered ::
  "token_bucket_config \<Rightarrow> instant \<Rightarrow> nat \<Rightarrow> token_bucket_state \<Rightarrow> bool" where
  "covered c t0 n t \<longleftrightarrow> t0 \<le> last_refill t \<and>
     n * RATE_LIMIT_FP_SCALE * nanos + tokens_fp t * nanos
       \<le> burst c * RATE_LIMIT_FP_SCALE * nanos + rate_per_sec c * RATE_LIMIT_FP_SCALE * (last_refill t - t0)"

lemma refill_amount_le:
  "refill_amount e c * nanos \<le> rate_per_sec c * RATE_LIMIT_FP_SCALE * e"
proof -
  have "refill_amount e c * nanos
      \<le> sat_mul u128_MAX (sat_mul u128_MAX e (rate_per_sec c)) RATE_LIMIT_FP_SCALE"
    unfolding refill_amount_def by (rule div_times_less_eq_dividend)
  also have "\<dots> \<le> sat_mul u128_MAX e (rate_per_sec c) * RATE_LIMIT_FP_SCALE"
    by (simp add: sat_mul_def)
  also have "\<dots> \<le> e * rate_per_sec c * RATE_LIMIT_FP_SCALE"
    by (intro mult_right_mono) (simp_all add: sat_mul_def)
  finally show ?thesis
    by (simp add: mult_ac)
qed

lemma covered_refill:
  assumes "covered c t0 n t"
  shows "covered c t0 n (refill now c t)"
proof -
  let ?e = "now - last_refill t"
  have "covered c t0 n (t\<lparr>tokens_fp := min (sat_add u128_MAX (tokens_fp t) (refill_amount ?e c))
            (burst c * RATE_LIMIT_FP_SCALE), last_refill := now\<rparr>)" if "?e \<noteq> 0"
  proof -
    have "(min (sat_add u128_MAX (tokens_fp t) (refill_amount ?e c)) (burst c * RATE_LIMIT_FP_SCALE)) * nanos
        \<le> (tokens_fp t + refill_amount ?e c) * nanos"
      by (intro mult_right_mono) (simp_all add: sat_add_def)
    moreover have "rate_per_sec c * RATE_LIMIT_FP_SCALE * (now - t0)
        = rate_per_sec c * RATE_LIMIT_FP_SCALE * ?e
          + rate_per_sec c * RATE_LIMIT_FP_SCALE * (last_refill t - t0)"
      using assms that by (simp add: covered_def flip: distrib_left)
    ultimately show ?thesis
      using assms that refill_amount_le [of ?e c] by (simp add: covered_def distrib_right)
  qed
  then show ?thesis
    using assms by (simp add: refill_def Let_def)
qed

lemma covered_spend:
  assumes "covered c t0 n t" and "RATE_LIMIT_FP_SCALE \<le> tokens_fp t"
  shows "covered c t0 (Suc n) (spend t)"
proof -
  have "RATE_LIMIT_FP_SCALE * nanos + (tokens_fp t - RATE_LIMIT_FP_SCALE) * nanos = tokens_fp t * nanos"
    using assms(2) by (simp flip: distrib_right)
  then show ?thesis
    using assms(1) by (simp add: covered_def spend_def distrib_right)
qed

lemma covered_bound:
  assumes "covered c t0 n t"
  shows "n * nanos \<le> burst c * nanos + rate_per_sec c * (last_refill t - t0)"
proof -
  have "RATE_LIMIT_FP_SCALE * (n * nanos)
      \<le> RATE_LIMIT_FP_SCALE * (burst c * nanos + rate_per_sec c * (last_refill t - t0))"
    using assms by (simp add: covered_def distrib_left mult_ac)
  then show ?thesis
    by (simp add: RATE_LIMIT_FP_SCALE_def)
qed

lemma last_refill_refill: "last_refill (refill now c t) = last_refill t \<or> last_refill (refill now c t) = now"
  by (simp add: refill_def Let_def)

section \<open>One entry of a bucket map\<close>

text \<open>
  \<open>covers c ttl\<close>: a bucket that idles for the time to live would have been refilled anyway, so
  that dropping it gives nothing away. \<open>paid\<close> is the accounting of one entry, present or evicted.
\<close>

definition covers :: "token_bucket_config \<Rightarrow> nat \<Rightarrow> bool" where
  "covers c ttl \<longleftrightarrow> burst c * nanos \<le> rate_per_sec c * ttl"

definition paid ::
  "token_bucket_config \<Rightarrow> rate_limit_dimension \<Rightarrow> instant \<Rightarrow> instant \<Rightarrow> nat \<Rightarrow> peer_bucket option
     \<Rightarrow> bool" where
  "paid c d t0 now n e \<longleftrightarrow> t0 \<le> now \<and>
     (case e of
        None \<Rightarrow> n * nanos \<le> rate_per_sec c * (now - t0)
      | Some b \<Rightarrow> covered c t0 n (bucket_get d b) \<and> last_refill (bucket_get d b) \<le> last_touched b
          \<and> last_touched b \<le> now)"

lemma bucket_get_set [simp]:
  "bucket_get d (bucket_set d' t b) = (if d = d' then t else bucket_get d b)"
  by (cases d; cases d') simp_all

lemma bucket_set_fields [simp]:
  "owner_count (bucket_set d t b) = owner_count b" "last_touched (bucket_set d t b) = last_touched b"
  by (cases d; simp)+

lemma bucket_get_touch [simp]:
  "bucket_get d (b\<lparr>last_touched := x\<rparr>) = bucket_get d b"
  "bucket_get d (own now b) = bucket_get d b" "bucket_get d (disown now b) = bucket_get d b"
  by (cases d; simp add: own_def disown_def)+

lemma own_fields [simp]:
  "last_touched (own now b) = now" "last_touched (disown now b) = now"
  "owner_count (disown now b) = owner_count b - 1"
  "owner_count (own now b) = sat_add usize_MAX (owner_count b) 1"
  by (simp_all add: own_def disown_def)

lemma with_config_fields [simp]:
  "bucket_get d (with_config now l f) = token_bucket_new now (f d l)"
  "owner_count (with_config now l f) = 0" "last_touched (with_config now l f) = now"
  by (cases d; simp add: with_config_def)+

lemma paid_later:
  assumes "paid c d t0 now n e" and "now \<le> now'"
  shows "paid c d t0 now' n e"
proof -
  have "rate_per_sec c * (now - t0) \<le> rate_per_sec c * (now' - t0)"
    using assms(2) by (intro mult_left_mono) auto
  then have "n * nanos \<le> rate_per_sec c * (now' - t0)" if "n * nanos \<le> rate_per_sec c * (now - t0)"
    using that by (rule order_trans [rotated])
  then show ?thesis
    using assms by (auto simp: paid_def split: option.splits)
qed

lemma paid_evict:
  assumes "paid c d t0 now n (Some b)" and "now \<le> now'" and "\<not> live ttl now' b" and "covers c ttl"
  shows "paid c d t0 now' n None"
proof -
  let ?r = "last_refill (bucket_get d b)"
  from assms have cov: "covered c t0 n (bucket_get d b)" and "?r + ttl \<le> now'" and "t0 \<le> ?r"
    by (auto simp: paid_def live_def covered_def)
  then have "rate_per_sec c * (ttl + (?r - t0)) \<le> rate_per_sec c * (now' - t0)"
    by (intro mult_left_mono) auto
  moreover have "n * nanos \<le> burst c * nanos + rate_per_sec c * (?r - t0)"
    by (rule covered_bound [OF cov])
  ultimately have "n * nanos \<le> rate_per_sec c * (now' - t0)"
    using assms(4) by (simp add: covers_def distrib_left)
  then show ?thesis
    using assms by (simp add: paid_def)
qed

lemma paid_fresh:
  assumes "paid c d t0 now n None" and "f d l = c"
  shows "paid c d t0 now n (Some (with_config now l f))"
proof -
  have "RATE_LIMIT_FP_SCALE * (n * nanos) \<le> RATE_LIMIT_FP_SCALE * (rate_per_sec c * (now - t0))"
    using assms(1) by (intro mult_left_mono) (auto simp: paid_def)
  then show ?thesis
    using assms by (simp add: paid_def covered_def token_bucket_new_def mult_ac)
qed

lemma paid_bound:
  assumes "paid c d t0 now n e"
  shows "n * nanos \<le> burst c * nanos + rate_per_sec c * (now - t0)"
proof (cases e)
  case None
  then show ?thesis
    using assms by (simp add: paid_def)
next
  case (Some b)
  then have "n * nanos \<le> burst c * nanos + rate_per_sec c * (last_refill (bucket_get d b) - t0)"
    using assms by (intro covered_bound) (simp add: paid_def)
  also have "\<dots> \<le> burst c * nanos + rate_per_sec c * (now - t0)"
    using assms Some by (intro add_left_mono mult_left_mono) (auto simp: paid_def)
  finally show ?thesis .
qed

section \<open>The bucket maps\<close>

definition pool_paid ::
  "token_bucket_config \<Rightarrow> nat \<Rightarrow> rate_limit_dimension \<Rightarrow> instant \<Rightarrow> instant \<Rightarrow> ('k \<Rightarrow> nat)
     \<Rightarrow> ('k, peer_bucket) hash_map \<Rightarrow> bool" where
  "pool_paid c ttl d t0 now n m \<longleftrightarrow>
     hm_ok m \<and> (covers c ttl \<longrightarrow> (\<forall>k. paid c d t0 now (n k) (hm_get m k)))"

named_theorems pool_intros \<open>operations on a bucket map keep its accounting\<close>

lemma pool_paid_later:
  "pool_paid c ttl d t0 now n m \<Longrightarrow> now \<le> now' \<Longrightarrow> pool_paid c ttl d t0 now' n m"
  unfolding pool_paid_def using paid_later by blast

lemma pool_paid_retain [pool_intros]:
  assumes "pool_paid c ttl d t0 now n m" and "now \<le> now'"
  shows "pool_paid c ttl d t0 now' n (hm_retain (live ttl now') m)"
  unfolding pool_paid_def
proof (intro conjI impI allI)
  show "hm_ok (hm_retain (live ttl now') m)"
    using assms by (simp add: pool_paid_def)
  fix k
  assume c: "covers c ttl"
  then have p: "paid c d t0 now (n k) (hm_get m k)"
    using assms by (simp add: pool_paid_def)
  show "paid c d t0 now' (n k) (hm_get (hm_retain (live ttl now') m) k)"
  proof (cases "hm_get m k")
    case None
    then show ?thesis
      using paid_later [OF p assms(2)] assms(1) by (simp add: pool_paid_def)
  next
    case (Some b)
    then show ?thesis
      using paid_later [OF p assms(2)] paid_evict [OF p [unfolded Some] assms(2) _ c] assms(1)
      by (simp add: pool_paid_def)
  qed
qed

lemma pool_paid_or_insert [pool_intros]:
  assumes "pool_paid c ttl d t0 now n m" and "f d l = c"
  shows "pool_paid c ttl d t0 now n (hm_or_insert k (with_config now l f) m)"
  using assms(1) paid_fresh [of c d t0 now "n k" f l, OF _ assms(2)]
  by (auto simp: pool_paid_def split: option.splits; metis)

lemma paid_touch:
  assumes "paid c d t0 now n (Some b)" and "bucket_get d b' = bucket_get d b" and "last_touched b' = now"
  shows "paid c d t0 now n (Some b')"
  using assms by (auto simp: paid_def)

lemma pool_paid_own [pool_intros]:
  assumes "pool_paid c ttl d t0 now n m"
  shows "pool_paid c ttl d t0 now n (hm_modify k (own now) m)"
    and "pool_paid c ttl d t0 now n (hm_modify k (disown now) m)"
proof -
  have "paid c d t0 now (n k) (map_option (own now) (hm_get m k)) \<and>
      paid c d t0 now (n k) (map_option (disown now) (hm_get m k))" if "covers c ttl"
    using assms that
    by (cases "hm_get m k") (auto simp: pool_paid_def dest!: spec [of _ k] intro: paid_touch)
  then show "pool_paid c ttl d t0 now n (hm_modify k (own now) m)"
    and "pool_paid c ttl d t0 now n (hm_modify k (disown now) m)"
    using assms by (auto simp: pool_paid_def)
qed

lemma paid_peek:
  assumes "paid c d t0 now n (Some b)" and "d' = d \<Longrightarrow> c' = c"
  shows "paid c d t0 now n (Some (bucket_set d' (refill now c' (bucket_get d' b)) (b\<lparr>last_touched := now\<rparr>)))"
  using assms covered_refill [of c t0 n "bucket_get d b" now] last_refill_refill [of now c "bucket_get d b"]
  by (auto simp: paid_def)

lemma pool_paid_peek_at:
  assumes "pool_paid c ttl d t0 now n m" and "d' = d \<Longrightarrow> c' = c"
    and "peek_at now d' c' k m = Some (m', ready)"
  shows "pool_paid c ttl d t0 now n m'"
    and "\<exists>b. hm_get m' k = Some b \<and> (ready \<longleftrightarrow> RATE_LIMIT_FP_SCALE \<le> tokens_fp (bucket_get d' b))"
proof -
  from assms(3) obtain b where b: "hm_get m k = Some b"
    and m': "m' = hm_insert k (bucket_set d' (refill now c' (bucket_get d' b)) (b\<lparr>last_touched := now\<rparr>)) m"
    and r: "ready \<longleftrightarrow> RATE_LIMIT_FP_SCALE \<le> tokens_fp (refill now c' (bucket_get d' b))"
    by (auto simp: peek_at_def peek_def Let_def split: option.splits)
  show "pool_paid c ttl d t0 now n m'"
    using assms(1) paid_peek [of c d t0 now "n k" b d' c'] assms(2) b
    by (auto simp: pool_paid_def m') metis
  show "\<exists>b. hm_get m' k = Some b \<and> (ready \<longleftrightarrow> RATE_LIMIT_FP_SCALE \<le> tokens_fp (bucket_get d' b))"
    using r by (simp add: m')
qed

lemma paid_spend:
  assumes "paid c d t0 now n (Some b)" and "RATE_LIMIT_FP_SCALE \<le> tokens_fp (bucket_get d b)"
  shows "paid c d t0 now (Suc n) (Some (bucket_set d (spend (bucket_get d b)) b))"
  using assms covered_spend by (simp add: paid_def) (simp add: spend_def)

lemma pool_paid_spend_at:
  assumes "pool_paid c ttl d t0 now n m" and "spend_at d' k m = Some m'"
    and "\<exists>b. hm_get m k = Some b \<and> RATE_LIMIT_FP_SCALE \<le> tokens_fp (bucket_get d' b)"
  shows "pool_paid c ttl d t0 now (if d' = d then n(k := Suc (n k)) else n) m'"
proof -
  from assms(2,3) obtain b where b: "hm_get m k = Some b"
    and m': "m' = hm_insert k (bucket_set d' (spend (bucket_get d' b)) b) m"
    and tok: "RATE_LIMIT_FP_SCALE \<le> tokens_fp (bucket_get d' b)"
    by (auto simp: spend_at_def split: option.splits)
  have p: "paid c d t0 now (n k) (Some b)" if "covers c ttl"
    using assms(1) b that unfolding pool_paid_def by metis
  then have "paid c d t0 now (if d' = d then Suc (n k) else n k)
      (Some (bucket_set d' (spend (bucket_get d' b)) b))" if "covers c ttl"
    using that paid_spend [of c d t0 now "n k" b] tok by (auto simp: paid_def)
  then show ?thesis
    using assms(1) by (auto simp: pool_paid_def m')
qed

section \<open>The limiter\<close>

definition paid_up ::
  "rate_limit_dimension \<Rightarrow> instant \<Rightarrow> instant \<Rightarrow> (peer_key \<Rightarrow> nat) \<Rightarrow> (prefix_key \<Rightarrow> nat)
     \<Rightarrow> peer_rate_limiter \<Rightarrow> bool" where
  "paid_up d t0 now f g s \<longleftrightarrow>
     pool_paid (bucket_config d (rate_limits s)) (idle_ttl s) d t0 now f (buckets s) \<and>
     pool_paid (aggregate_bucket_config d (rate_limits s)) (idle_ttl s) d t0 now g (prefix_buckets s)"

lemma bump_fields [simp]:
  "buckets (bump_counter d s) = buckets s" "prefix_buckets (bump_counter d s) = prefix_buckets s"
  "connection_owners (bump_counter d s) = connection_owners s"
  "rate_limits (bump_counter d s) = rate_limits s" "idle_ttl (bump_counter d s) = idle_ttl s"
  "max_buckets (bump_counter d s) = max_buckets s"
  by (cases d; simp)+

lemma bump_prefix_fields [simp]:
  "buckets (bump_prefix s) = buckets s" "prefix_buckets (bump_prefix s) = prefix_buckets s"
  "connection_owners (bump_prefix s) = connection_owners s"
  "rate_limits (bump_prefix s) = rate_limits s" "idle_ttl (bump_prefix s) = idle_ttl s"
  "max_buckets (bump_prefix s) = max_buckets s"
  by (simp_all add: bump_prefix_def)

lemma paid_up_bump [simp]:
  "paid_up d t0 now f g (bump_counter d' s) = paid_up d t0 now f g s"
  "paid_up d t0 now f g (bump_prefix s) = paid_up d t0 now f g s"
  by (simp_all add: paid_up_def)

lemma paid_up_evict [pool_intros]:
  "paid_up d t0 now f g s \<Longrightarrow> now \<le> now' \<Longrightarrow> paid_up d t0 now' f g (evict_idle_zero_owner now' s)"
  by (auto simp: paid_up_def evict_idle_zero_owner_def intro: pool_intros)

lemma paid_up_ensure_bucket:
  assumes "ensure_bucket now' p d' s = (s', r)" and "paid_up d t0 now f g s" and "now \<le> now'"
  shows "paid_up d t0 now' f g s'"
  using assms paid_up_evict [OF assms(2,3)]
  by (auto simp: ensure_bucket_def Let_def split: if_splits)
    (auto simp: paid_up_def peer_bucket_new_def intro!: pool_intros)

lemma paid_up_ensure_prefix_bucket:
  assumes "ensure_prefix_bucket now q d' s = (s', r)" and "paid_up d t0 now f g s"
  shows "paid_up d t0 now f g s'"
  using assms
  by (auto simp: ensure_prefix_bucket_def Let_def split: if_splits)
    (auto simp: paid_up_def peer_bucket_new_aggregate_def intro!: pool_intros)

lemma paid_up_charge_both:
  assumes "charge_both p d' s = (s', r)" and "paid_up d t0 now f g s"
    and "\<exists>b. hm_get (buckets s) p = Some b \<and> RATE_LIMIT_FP_SCALE \<le> tokens_fp (bucket_get d' b)"
    and "\<exists>b. hm_get (prefix_buckets s) (aggregate p) = Some b
            \<and> RATE_LIMIT_FP_SCALE \<le> tokens_fp (bucket_get d' b)"
  shows "r = Inr ()" and "paid_up d t0 now (if d' = d then f(p := Suc (f p)) else f)
      (if d' = d then g(aggregate p := Suc (g (aggregate p))) else g) s'"
proof -
  from assms(3,4) obtain m m' where m: "spend_at d' p (buckets s) = Some m"
    and m': "spend_at d' (aggregate p) (prefix_buckets s) = Some m'"
    by (auto simp: spend_at_def)
  then show "r = Inr ()"
    using assms(1) by (simp add: charge_both_def)
  have "s' = s\<lparr>buckets := m, prefix_buckets := m'\<rparr>"
    using assms(1) m m' by (simp add: charge_both_def)
  then show "paid_up d t0 now (if d' = d then f(p := Suc (f p)) else f)
      (if d' = d then g(aggregate p := Suc (g (aggregate p))) else g) s'"
    using assms(2) pool_paid_spend_at [OF _ m assms(3)] pool_paid_spend_at [OF _ m' assms(4)]
    by (simp add: paid_up_def)
qed

text \<open>What an answer adds to the counts of a peer and of its aggregate.\<close>

definition tally :: "bool \<Rightarrow> 'k \<Rightarrow> ('k \<Rightarrow> nat) \<Rightarrow> 'k \<Rightarrow> nat" where
  "tally ok k f = (if ok then f(k := Suc (f k)) else f)"

lemma paid_up_check_ensured:
  assumes "check_ensured now p d' s = (s', r)" and "paid_up d t0 now f g s"
  shows "paid_up d t0 now (tally (r = Inr () \<and> d' = d) p f)
      (tally (r = Inr () \<and> d' = d) (aggregate p) g) s'"
proof (cases "peek_at now d' (bucket_config d' (rate_limits s)) p (buckets s)")
  case None
  then show ?thesis
    using assms by (auto simp: check_ensured_def tally_def)
next
  case (Some a)
  then obtain m rp where m: "peek_at now d' (bucket_config d' (rate_limits s)) p (buckets s) = Some (m, rp)"
    by (cases a) auto
  note pm = pool_paid_peek_at [OF assms(2) [unfolded paid_up_def, THEN conjunct1] _ m]
  show ?thesis
  proof (cases "peek_at now d' (aggregate_bucket_config d' (rate_limits s)) (aggregate p) (prefix_buckets s)")
    case None
    then show ?thesis
      using assms m pm by (auto simp: check_ensured_def tally_def paid_up_def)
  next
    case (Some a')
    then obtain m' rq where m': "peek_at now d' (aggregate_bucket_config d' (rate_limits s))
        (aggregate p) (prefix_buckets s) = Some (m', rq)"
      by (cases a') auto
    note qm = pool_paid_peek_at [OF assms(2) [unfolded paid_up_def, THEN conjunct2] _ m']
    let ?s = "s\<lparr>buckets := m, prefix_buckets := m'\<rparr>"
    have up: "paid_up d t0 now f g ?s"
      using pm(1) qm(1) by (simp add: paid_up_def)
    show ?thesis
    proof (cases "rp \<and> rq")
      case True
      then have "charge_both p d' ?s = (s', r)"
        using assms(1) m m' by (simp add: check_ensured_def)
      from paid_up_charge_both [OF this up] True pm(2) qm(2) show ?thesis
        by (auto simp: tally_def)
    next
      case False
      then show ?thesis
        using assms(1) m m' up by (auto simp: check_ensured_def reject_def Let_def tally_def split: if_splits)
    qed
  qed
qed

lemma paid_up_check_peer:
  assumes "check_peer now' p d' s = (s', r)" and "paid_up d t0 now f g s" and "now \<le> now'"
  shows "paid_up d t0 now' (tally (r = Inr () \<and> d' = d) p f)
      (tally (r = Inr () \<and> d' = d) (aggregate p) g) s'"
proof -
  obtain s1 r1 where 1: "ensure_bucket now' p d' s = (s1, r1)"
    by fastforce
  obtain s2 r2 where 2: "ensure_prefix_bucket now' (aggregate p) d' s1 = (s2, r2)"
    by fastforce
  have up1: "paid_up d t0 now' f g s1"
    by (rule paid_up_ensure_bucket [OF 1 assms(2,3)])
  have up2: "paid_up d t0 now' f g s2"
    by (rule paid_up_ensure_prefix_bucket [OF 2 up1])
  show ?thesis
    using assms(1) 1 2 up1 up2 paid_up_check_ensured [OF _ up2, of p d' s' r]
    by (auto simp: check_peer_def tally_def split: sum.splits)
qed

lemma paid_up_owner_update [simp]:
  "paid_up d t0 now f g (s\<lparr>connection_owners := x\<rparr>) = paid_up d t0 now f g s"
  by (simp add: paid_up_def)

lemma paid_up_later: "paid_up d t0 now f g s \<Longrightarrow> now \<le> now' \<Longrightarrow> paid_up d t0 now' f g s"
  by (auto simp: paid_up_def intro: pool_paid_later)

lemma paid_up_decrement_owner:
  assumes "paid_up d t0 now f g s"
  shows "paid_up d t0 now f g (decrement_owner p now s)"
  unfolding decrement_owner_def using assms
  by (intro paid_up_evict [where now = now]) (auto simp: paid_up_def intro: pool_intros)

lemma paid_up_release_connection:
  assumes "paid_up d t0 now f g s" and "now \<le> now'"
  shows "paid_up d t0 now' f g (release_connection conn now' s)"
  using paid_up_later [OF assms]
  by (auto simp: release_connection_def split: option.splits intro: paid_up_decrement_owner)

lemma paid_up_attach_connection:
  assumes "attach_connection conn src now' s = (s', r)" and "paid_up d t0 now f g s" and "now \<le> now'"
  shows "paid_up d t0 now' f g s'"
proof -
  let ?p = "from_socket_addr src"
  let ?s0 = "release_connection conn now' s"
  obtain s1 r1 where 1: "ensure_bucket now' ?p Handshake ?s0 = (s1, r1)"
    by fastforce
  let ?s1 = "s1\<lparr>buckets := hm_modify ?p (own now') (buckets s1)\<rparr>"
  obtain s2 r2 where 2: "ensure_prefix_bucket now' (aggregate ?p) Handshake ?s1 = (s2, r2)"
    by fastforce
  have up1: "paid_up d t0 now' f g s1"
    by (rule paid_up_ensure_bucket [OF 1 paid_up_release_connection [OF assms(2,3)]]) simp
  then have "paid_up d t0 now' f g ?s1"
    by (auto simp: paid_up_def intro: pool_intros)
  then have up2: "paid_up d t0 now' f g s2"
    by (rule paid_up_ensure_prefix_bucket [OF 2])
  show ?thesis
    using assms(1) 1 2 up1 up2
    by (auto simp: attach_connection_def Let_def paid_up_def split: sum.splits intro: pool_intros)
qed

text \<open>The requests among \<open>xs\<close> in dimension \<open>d\<close> that count for a key.\<close>

definition requests :: "(peer_key \<Rightarrow> 'k) \<Rightarrow> rate_limit_dimension
    \<Rightarrow> (peer_key \<times> rate_limit_dimension) list \<Rightarrow> 'k \<Rightarrow> nat" where
  "requests key d xs k = length (filter (\<lambda>(p, d'). key p = k \<and> d' = d) xs)"

lemma requests_simps:
  "requests key d [] k = 0"
  "requests key d (xs @ ys) k = requests key d xs k + requests key d ys k"
  "requests key d [(p, d')] k = (if key p = k \<and> d' = d then 1 else 0)"
  by (simp_all add: requests_def)

lemma paid_up_step:
  assumes "limiter_step x s = (s', r)" and "paid_up d t0 now f g s" and "now \<le> fst x"
  defines "new \<equiv> (case r of Inl _ \<Rightarrow> [] | Inr _ \<Rightarrow> (case asked (snd x) s of None \<Rightarrow> [] | Some pd \<Rightarrow> [pd]))"
  shows "paid_up d t0 (fst x) (\<lambda>p. f p + requests id d new p) (\<lambda>q. g q + requests aggregate d new q) s'"
proof -
  obtain now' oper where x: "x = (now', oper)"
    by fastforce
  have check: "paid_up d t0 now' (\<lambda>p. f p + requests id d new p) (\<lambda>q. g q + requests aggregate d new q) s'"
    if "check_peer now' p d' s = (s', r)" and "asked oper s = Some (p, d')" for p d'
  proof -
    have "tally (r = Inr () \<and> d' = d) p f = (\<lambda>p. f p + requests id d new p)"
      and "tally (r = Inr () \<and> d' = d) (aggregate p) g = (\<lambda>q. g q + requests aggregate d new q)"
      using that(2) by (cases r; auto simp: tally_def new_def x requests_simps)+
    then show ?thesis
      using paid_up_check_peer [OF that(1) assms(2)] assms(3) x by simp
  qed
  have none: ?thesis if "paid_up d t0 now' f g s'" and "asked oper s = None"
    using that x by (cases r) (simp_all add: new_def requests_simps)
  show ?thesis
  proof (cases oper)
    case (Check src d')
    with check [of "from_socket_addr src" d'] assms(1) x show ?thesis
      by (simp add: check_def)
  next
    case (Check_Connection conn d')
    with check [of "the (hm_get (connection_owners s) conn)" d'] none assms x
      paid_up_later [OF assms(2), of now'] show ?thesis
      by (cases "hm_get (connection_owners s) conn") (auto simp: check_connection_def)
  next
    case (Attach conn src)
    with none paid_up_attach_connection [OF _ assms(2), of conn src now' s' r] assms x show ?thesis
      by simp
  next
    case (Release conn)
    with none paid_up_release_connection [OF assms(2), of now' conn] assms x show ?thesis
      by simp
  qed
qed

lemma paid_up_run:
  assumes "paid_up d t0 now f g s" and "sorted (now # map fst xs)"
  shows "paid_up d t0 (last (now # map fst xs)) (\<lambda>p. f p + requests id d (admitted xs s) p)
      (\<lambda>q. g q + requests aggregate d (admitted xs s) q) (limiter_run xs s)"
  using assms
proof (induction xs arbitrary: s now f g)
  case (Cons x xs)
  obtain s' r where st: "limiter_step x s = (s', r)"
    by fastforce
  note up = paid_up_step [OF st Cons.prems(1)]
  show ?case
    using Cons.IH [OF up] Cons.prems(2) st
    by (cases r) (auto simp: requests_simps add.assoc split: option.splits)
qed (simp add: requests_simps)

lemma paid_up_new:
  assumes "peer_rate_limiter_new rl l = Inr s"
  shows "paid_up d t0 t0 (\<lambda>_. 0) (\<lambda>_. 0) s"
  using assms
  by (auto simp: peer_rate_limiter_new_def paid_up_def pool_paid_def paid_def split: sum.splits)

text \<open>No operation changes the configuration.\<close>

definition config_of :: "peer_rate_limiter \<Rightarrow> wasm_rate_limits \<times> nat \<times> nat" where
  "config_of s = (rate_limits s, idle_ttl s, max_buckets s)"

named_theorems config_simps \<open>operations keep the configuration\<close>

lemma config_evict [config_simps]: "config_of (evict_idle_zero_owner now s) = config_of s"
  by (simp add: config_of_def evict_idle_zero_owner_def)

lemma config_ensure_bucket [config_simps]: "config_of (fst (ensure_bucket now p d s)) = config_of s"
  by (simp add: config_of_def ensure_bucket_def evict_idle_zero_owner_def Let_def)

lemma config_ensure_prefix_bucket [config_simps]:
  "config_of (fst (ensure_prefix_bucket now q d s)) = config_of s"
  by (simp add: config_of_def ensure_prefix_bucket_def)

lemma config_check_ensured [config_simps]: "config_of (fst (check_ensured now p d s)) = config_of s"
  by (auto simp: config_of_def check_ensured_def charge_both_def reject_def Let_def split: option.splits)

lemma config_check_peer [config_simps]: "config_of (fst (check_peer now p d s)) = config_of s"
proof -
  obtain s1 r1 where 1: "ensure_bucket now p d s = (s1, r1)"
    by fastforce
  obtain s2 r2 where 2: "ensure_prefix_bucket now (aggregate p) d s1 = (s2, r2)"
    by fastforce
  have "config_of s1 = config_of s" and "config_of s2 = config_of s1"
    using config_ensure_bucket [of now p d s] config_ensure_prefix_bucket [of now "aggregate p" d s1] 1 2
    by simp_all
  then show ?thesis
    using 1 2 by (auto simp: check_peer_def config_check_ensured split: sum.splits)
qed

lemma config_release_connection [config_simps]: "config_of (release_connection conn now s) = config_of s"
  by (auto simp: release_connection_def decrement_owner_def config_simps split: option.splits)
    (simp add: config_of_def)

lemma config_attach_connection [config_simps]:
  "config_of (fst (attach_connection conn src now s)) = config_of s"
proof -
  let ?p = "from_socket_addr src"
  obtain s1 r1 where 1: "ensure_bucket now ?p Handshake (release_connection conn now s) = (s1, r1)"
    by fastforce
  obtain s2 r2 where 2: "ensure_prefix_bucket now (aggregate ?p) Handshake
      (s1\<lparr>buckets := hm_modify ?p (own now) (buckets s1)\<rparr>) = (s2, r2)"
    by fastforce
  have "config_of s1 = config_of s" and "config_of s2 = config_of s1"
    using config_ensure_bucket [of now ?p Handshake "release_connection conn now s"] 1 2
      config_ensure_prefix_bucket [of now "aggregate ?p" Handshake
        "s1\<lparr>buckets := hm_modify ?p (own now) (buckets s1)\<rparr>"]
    by (simp_all add: config_simps) (simp add: config_of_def)
  then show ?thesis
    using 1 2 by (auto simp: attach_connection_def Let_def config_of_def split: sum.splits)
qed

lemma config_step [config_simps]: "config_of (fst (limiter_step x s)) = config_of s"
  by (cases "(x, s)" rule: limiter_step.cases)
    (auto simp: check_def check_connection_def config_simps split: option.splits)

lemma config_run [config_simps]: "config_of (limiter_run xs s) = config_of s"
  by (induction xs arbitrary: s) (simp_all add: config_simps)

section \<open>The admitted rate\<close>

lemma paid_up_admitted:
  assumes "peer_rate_limiter_new rl l = Inr s" and "sorted (t0 # map fst xs)"
  shows "covers (bucket_config d rl) (idle_timeout_ms l * 1000000) \<Longrightarrow>
      paid (bucket_config d rl) d t0 (last (t0 # map fst xs)) (requests id d (admitted xs s) p)
        (hm_get (buckets (limiter_run xs s)) p)"
    and "covers (aggregate_bucket_config d rl) (idle_timeout_ms l * 1000000) \<Longrightarrow>
      paid (aggregate_bucket_config d rl) d t0 (last (t0 # map fst xs))
        (requests aggregate d (admitted xs s) q) (hm_get (prefix_buckets (limiter_run xs s)) q)"
proof -
  have "config_of s = (rl, idle_timeout_ms l * 1000000, bucket_cap l)"
    using assms(1) by (auto simp: peer_rate_limiter_new_def config_of_def split: sum.splits)
  then have cfg: "rate_limits (limiter_run xs s) = rl"
    "idle_ttl (limiter_run xs s) = idle_timeout_ms l * 1000000"
    using config_run [of xs s] by (simp_all add: config_of_def)
  note up = paid_up_run [OF paid_up_new [OF assms(1)] assms(2), of d, unfolded paid_up_def pool_paid_def cfg]
  show "covers (bucket_config d rl) (idle_timeout_ms l * 1000000) \<Longrightarrow>
      paid (bucket_config d rl) d t0 (last (t0 # map fst xs)) (requests id d (admitted xs s) p)
        (hm_get (buckets (limiter_run xs s)) p)"
    and "covers (aggregate_bucket_config d rl) (idle_timeout_ms l * 1000000) \<Longrightarrow>
      paid (aggregate_bucket_config d rl) d t0 (last (t0 # map fst xs))
        (requests aggregate d (admitted xs s) q) (hm_get (prefix_buckets (limiter_run xs s)) q)"
    using up by simp_all
qed

text \<open>
  C24. Take a fresh limiter and any sequence of checks, attachments and releases at times that do
  not decrease. If one idle time to live refills a full burst, then in every dimension the number
  of requests admitted for one peer address is at most the burst plus the rate times the elapsed
  time, whatever buckets were evicted and created again in between.
\<close>

theorem rate_limit_enforced:
  assumes "peer_rate_limiter_new rl l = Inr s" and "sorted (t0 # map fst xs)"
    and "covers (bucket_config d rl) (idle_timeout_ms l * 1000000)"
  shows "requests id d (admitted xs s) p * nanos
      \<le> burst (bucket_config d rl) * nanos
        + rate_per_sec (bucket_config d rl) * (last (t0 # map fst xs) - t0)"
  using paid_up_admitted(1) [OF assms] by (rule paid_bound)

abbreviation host_a :: socket_addr where
  "host_a \<equiv> \<lparr>sa_ip = IpV4 0x0A000001, sa_port = 5\<rparr>"

abbreviation host_b :: socket_addr where
  "host_b \<equiv> \<lparr>sa_ip = IpV4 0x0A000002, sa_port = 6\<rparr>"

theorem rate_limit_enforced_witness:
  "\<exists>s. peer_rate_limiter_new wasm_rate_limits_default wasm_limits_default = Inr s \<and>
     requests id Handshake (admitted [(0, Check host_a Handshake), (9, Check host_b Handshake)] s)
       (from_socket_addr host_a) * nanos \<le> 40 * nanos + 20 * 9"
proof -
  obtain s where s: "peer_rate_limiter_new wasm_rate_limits_default wasm_limits_default = Inr s"
    by (simp add: peer_rate_limiter_new_def wasm_limits_default_valid wasm_rate_limits_default_valid)
  have "covers (bucket_config Handshake wasm_rate_limits_default)
      (idle_timeout_ms wasm_limits_default * 1000000)"
    by (simp add: covers_def wasm_rate_limits_default_def wasm_limits_default_def)
  from rate_limit_enforced [OF s _ this, of 0
      "[(0, Check host_a Handshake), (9, Check host_b Handshake)]" "from_socket_addr host_a"]
  show ?thesis
    using s by (simp add: wasm_rate_limits_default_def)
qed

text \<open>
  The same holds for a /24 or /64 aggregate: all its addresses together are admitted at most
  the aggregate burst plus the aggregate rate times the elapsed time, however many addresses of the
  block the requests are spread over.
\<close>

theorem prefix_rate_limit_enforced:
  assumes "peer_rate_limiter_new rl l = Inr s" and "sorted (t0 # map fst xs)"
    and "covers (aggregate_bucket_config d rl) (idle_timeout_ms l * 1000000)"
  shows "requests aggregate d (admitted xs s) q * nanos
      \<le> burst (aggregate_bucket_config d rl) * nanos
        + rate_per_sec (aggregate_bucket_config d rl) * (last (t0 # map fst xs) - t0)"
  using paid_up_admitted(2) [OF assms] by (rule paid_bound)

theorem prefix_rate_limit_enforced_witness:
  "\<exists>s. peer_rate_limiter_new wasm_rate_limits_default wasm_limits_default = Inr s \<and>
     requests aggregate Handshake
       (admitted [(0, Check host_a Handshake), (9, Check host_b Handshake)] s)
       (aggregate (from_socket_addr host_a)) * nanos \<le> 320 * nanos + 160 * 9"
proof -
  obtain s where s: "peer_rate_limiter_new wasm_rate_limits_default wasm_limits_default = Inr s"
    by (simp add: peer_rate_limiter_new_def wasm_limits_default_valid wasm_rate_limits_default_valid)
  have cfg: "aggregate_bucket_config Handshake wasm_rate_limits_default = \<lparr>rate_per_sec = 160, burst = 320\<rparr>"
    by (simp add: aggregate_bucket_config_def wasm_rate_limits_default_def sat_mul_def u32_MAX_def
        AGGREGATE_RATE_MULTIPLIER_def)
  then have "covers (aggregate_bucket_config Handshake wasm_rate_limits_default)
      (idle_timeout_ms wasm_limits_default * 1000000)"
    by (simp add: covers_def wasm_limits_default_def)
  from prefix_rate_limit_enforced [OF s _ this, of 0
      "[(0, Check host_a Handshake), (9, Check host_b Handshake)]" "aggregate (from_socket_addr host_a)"]
  show ?thesis
    using s cfg by simp
qed

lemmas limiter_eval =
  check_def check_peer_def ensure_bucket_def ensure_prefix_bucket_def check_ensured_def
  charge_both_def peek_at_def spend_at_def evict_idle_zero_owner_def hm_retain_def hm_or_insert_def
  peer_bucket_new_def peer_bucket_new_aggregate_def with_config_def token_bucket_new_def
  peek_def refill_def spend_def live_def Let_def aggregate_bucket_config_def
  RATE_LIMIT_FP_SCALE_def AGGREGATE_RATE_MULTIPLIER_def sat_mul_def u32_MAX_def

text \<open>
  C25. Without that condition the bound fails, and validation accepts such a configuration: with
  an idle timeout of one millisecond, a rate of one handshake per second and a burst of two, four
  handshakes of one address are admitted within one millisecond, because the idle bucket is
  evicted and the next request finds a fresh, full one.
\<close>

theorem idle_eviction_refills:
  "\<exists>rl l s xs.
     peer_rate_limiter_new rl l = Inr s \<and> sorted (0 # map fst xs) \<and>
     handshakes_per_sec rl = 1 \<and> handshakes_burst rl = 2 \<and> last (0 # map fst xs) = 1000000 \<and>
     requests id Handshake (admitted xs s) (from_socket_addr host_a) = 4"
proof -
  let ?rl = "wasm_rate_limits_default\<lparr>handshakes_per_sec := 1, handshakes_burst := 2\<rparr>"
  let ?l = "wasm_limits_default\<lparr>handshake_timeout_ms := 1, idle_timeout_ms := 1\<rparr>"
  let ?c = "Check host_a Handshake"
  let ?xs = "[(0, ?c), (0, ?c), (1000000, ?c), (1000000, ?c)]"
  have "wasm_limits_validate ?l = Inr ()" and "wasm_rate_limits_validate ?rl = Inr ()"
    by (simp_all add: wasm_limits_validate_def wasm_limits_default_def HOST_TIMER_MAX_MS_def
        wasm_rate_limits_validate_iff wasm_rate_limits_default_def)
  then obtain s where s: "peer_rate_limiter_new ?rl ?l = Inr s"
    by (simp add: peer_rate_limiter_new_def)
  then have st: "rate_limits s = ?rl" "idle_ttl s = 1000000" "64 \<le> max_buckets s"
    "buckets s = []" "prefix_buckets s = []"
    by (auto simp: peer_rate_limiter_new_def bucket_cap_def MIN_RATE_LIMIT_BUCKET_CAP_def
        split: sum.splits)
  let ?a = "(from_socket_addr host_a, Handshake)"
  have "admitted ?xs s = [?a, ?a, ?a, ?a]"
    using st
    by (simp add: limiter_eval wasm_rate_limits_default_def)
  then have "requests id Handshake (admitted ?xs s) (from_socket_addr host_a) = 4"
    by (simp add: requests_def)
  with s show ?thesis
    by (intro exI [of _ ?rl] exI [of _ ?l] exI [of _ s] exI [of _ ?xs])
      (simp add: wasm_rate_limits_default_def)
qed

end
