(* ===== verification/Rate_Limiter_Book.thy ===== *)
theory Rate_Limiter_Book
  imports Rate_Limiter_Safety
begin

text \<open>
  The bookkeeping of the rate limiter: its bucket maps stay within their capacity, owner counts
  are exact, nothing panics, and an exhausted bucket recovers.
\<close>

section \<open>Bookkeeping\<close>

text \<open>
  \<open>owned\<close>: the owner counts of a bucket map. \<open>linked X\<close>: every aggregate bucket outside \<open>X\<close> has a
  peer bucket of the aggregate that is pinned or was touched last together with it. That is why the
  aggregate map never outgrows the peer map.
\<close>

definition owned :: "('k, peer_bucket) hash_map \<Rightarrow> 'k multiset \<Rightarrow> bool" where
  "owned m os \<longleftrightarrow> (\<forall>k. (case hm_get m k of None \<Rightarrow> 0 | Some b \<Rightarrow> owner_count b) = count os k)"

definition linked :: "prefix_key set \<Rightarrow> peer_rate_limiter \<Rightarrow> bool" where
  "linked X s \<longleftrightarrow>
     (\<forall>q b. hm_get (prefix_buckets s) q = Some b \<longrightarrow> q \<notin> X \<longrightarrow>
        (\<exists>p b'. aggregate p = q \<and> hm_get (buckets s) p = Some b'
            \<and> (0 < owner_count b' \<or> last_touched b' = last_touched b)))"

definition shape :: "prefix_key set \<Rightarrow> peer_rate_limiter \<Rightarrow> bool" where
  "shape X s \<longleftrightarrow> hm_ok (buckets s) \<and> hm_ok (prefix_buckets s) \<and>
     length (buckets s) \<le> max_buckets s \<and> length (prefix_buckets s) \<le> max_buckets s \<and> linked X s"

definition book :: "prefix_key set \<Rightarrow> peer_key multiset \<Rightarrow> peer_rate_limiter \<Rightarrow> bool" where
  "book X os s \<longleftrightarrow> shape X s \<and> owned (buckets s) os \<and>
     owned (prefix_buckets s) (image_mset aggregate os)"

definition limiter_ok :: "peer_rate_limiter \<Rightarrow> bool" where
  "limiter_ok s \<longleftrightarrow> hm_ok (connection_owners s) \<and> book {} (mset (map snd (connection_owners s))) s"

abbreviation prefix_capacity_error :: check_error where
  "prefix_capacity_error \<equiv> Err ''E_RATE_LIMITED: peer prefix rate limit bucket capacity reached''"

text \<open>An answer that is neither a panic nor the error for a full aggregate map.\<close>

definition handled :: "check_error + unit \<Rightarrow> bool" where
  "handled r \<longleftrightarrow> (\<forall>e. r \<noteq> Inl (Panic e)) \<and> r \<noteq> Inl prefix_capacity_error"

lemma handled_Inr [simp]: "handled (Inr u)"
  by (simp add: handled_def)

lemma linkedE:
  assumes "linked X s" and "hm_get (prefix_buckets s) q = Some b" and "q \<notin> X"
  obtains p b' where "aggregate p = q" "hm_get (buckets s) p = Some b'"
    "0 < owner_count b' \<or> last_touched b' = last_touched b"
  using assms unfolding linked_def by blast

lemma owned_at: "owned m os \<Longrightarrow> (case hm_get m k of None \<Rightarrow> 0 | Some b \<Rightarrow> owner_count b) = count os k"
  by (simp add: owned_def)

lemma owned_pos:
  assumes "owned m os" and "k \<in># os"
  obtains b where "hm_get m k = Some b" and "owner_count b = count os k"
  using owned_at [OF assms(1), of k] assms(2) by (cases "hm_get m k") (auto simp: not_in_iff [symmetric])

lemma owned_get: "owned m os \<Longrightarrow> hm_get m k = Some b \<Longrightarrow> owner_count b = count os k"
  using owned_at [of m os k] by simp

lemma owned_retain:
  assumes "owned m os" and "hm_ok m"
  shows "owned (hm_retain (live ttl now) m) os"
proof -
  have "(case hm_get (hm_retain (live ttl now) m) k of None \<Rightarrow> 0 | Some b \<Rightarrow> owner_count b) = count os k"
    for k
    using assms by (cases "hm_get m k") (auto simp: owned_def live_def dest: spec [of _ k])
  then show ?thesis
    by (simp add: owned_def)
qed

lemma owned_or_insert:
  assumes "owned m os"
  shows "owned (hm_or_insert k (with_config now l f) m) os"
proof -
  have "(case hm_get (hm_or_insert k (with_config now l f) m) k' of None \<Rightarrow> 0 | Some b \<Rightarrow> owner_count b)
      = count os k'" for k'
    using owned_at [OF assms, of k'] by (cases "hm_get m k'") auto
  then show ?thesis
    by (simp add: owned_def)
qed

lemma book_evict:
  assumes "book {} os s"
  shows "book {} os (evict_idle_zero_owner now s)"
proof -
  let ?s = "evict_idle_zero_owner now s"
  have ok: "hm_ok (buckets s)" "hm_ok (prefix_buckets s)" and lk: "linked {} s"
    and own: "owned (buckets s) os" "owned (prefix_buckets s) (image_mset aggregate os)"
    using assms by (simp_all add: book_def shape_def)
  have "linked {} ?s"
    unfolding linked_def
  proof (intro allI impI)
    fix q b
    assume "hm_get (prefix_buckets ?s) q = Some b"
    then have q: "hm_get (prefix_buckets s) q = Some b" and l: "live (idle_ttl s) now b"
      using ok by (auto simp: evict_idle_zero_owner_def split: option.splits if_splits)
    have ret: "hm_get (buckets ?s) p = Some b'" if "hm_get (buckets s) p = Some b'" "live (idle_ttl s) now b'"
      for p b'
      using that ok by (simp add: evict_idle_zero_owner_def)
    show "\<exists>p b'. aggregate p = q \<and> hm_get (buckets ?s) p = Some b'
        \<and> (0 < owner_count b' \<or> last_touched b' = last_touched b)"
    proof (cases "0 < owner_count b")
      case True
      then have "q \<in># image_mset aggregate os"
        using owned_get [OF own(2) q] by simp
      then obtain p where p: "p \<in># os" "aggregate p = q"
        by auto
      from owned_pos [OF own(1) p(1)] obtain b' where "hm_get (buckets s) p = Some b'" "0 < owner_count b'"
        using p(1) by (metis count_greater_zero_iff)
      with ret p show ?thesis
        by (metis live_def)
    next
      case False
      obtain p b' where p: "aggregate p = q" "hm_get (buckets s) p = Some b'"
        "0 < owner_count b' \<or> last_touched b' = last_touched b"
        using linkedE [OF lk q] by auto
      then have "live (idle_ttl s) now b'"
        using l False by (auto simp: live_def)
      with ret p show ?thesis
        by blast
    qed
  qed
  then show ?thesis
    using assms ok own
    by (auto simp: book_def shape_def owned_retain evict_idle_zero_owner_def
        intro: order_trans [OF length_hm_retain_le])
qed

lemma book_bump [simp]:
  "book X os (bump_counter d s) = book X os s" "book X os (bump_prefix s) = book X os s"
  "book X os (s\<lparr>connection_owners := c\<rparr>) = book X os s"
  by (simp_all add: book_def shape_def linked_def)

lemma linked_or_insert:
  "linked X s \<Longrightarrow> linked X (s\<lparr>buckets := hm_or_insert p b (buckets s)\<rparr>)"
  unfolding linked_def by (fastforce split: option.splits)

lemma book_ensure_bucket:
  assumes "ensure_bucket now p d s = (s', r)" and "book {} os s"
  shows "book {} os s'" and "connection_owners s' = connection_owners s"
    and "r = Inr () \<Longrightarrow> hm_get (buckets s') p \<noteq> None"
    and "handled r"
proof -
  have ev: "book {} os (evict_idle_zero_owner now s)"
    by (rule book_evict [OF assms(2)])
  have "connection_owners (evict_idle_zero_owner now s) = connection_owners s"
    by (simp add: evict_idle_zero_owner_def)
  with assms(1) show "connection_owners s' = connection_owners s"
    and "r = Inr () \<Longrightarrow> hm_get (buckets s') p \<noteq> None"
    by (auto simp: ensure_bucket_def Let_def split: if_splits)
  show "handled r"
    using assms(1) by (auto simp: ensure_bucket_def Let_def handled_def split: if_splits)
  show "book {} os s'"
    using assms(1) ev
    by (auto simp: ensure_bucket_def Let_def split: if_splits)
      (auto simp: book_def shape_def linked_or_insert peer_bucket_new_def owned_or_insert length_hm_or_insert)
qed

text \<open>The aggregate map has room whenever the peer's own bucket is there.\<close>

lemma prefix_room:
  assumes "shape {} s" and "hm_get (buckets s) p \<noteq> None"
    and "hm_get (prefix_buckets s) (aggregate p) = None"
  shows "length (prefix_buckets s) < max_buckets s"
proof -
  have sub: "insert (aggregate p) (dom (hm_get (prefix_buckets s))) \<subseteq> aggregate ` dom (hm_get (buckets s))"
    using assms(1,2) by (auto simp: shape_def linked_def) (metis domI image_eqI)
  have "Suc (length (prefix_buckets s)) = card (insert (aggregate p) (dom (hm_get (prefix_buckets s))))"
    using assms(1,3) by (simp add: shape_def hm_length_dom domIff finite_dom_map_of)
  also have "\<dots> \<le> card (aggregate ` dom (hm_get (buckets s)))"
    by (rule card_mono [OF _ sub]) (simp add: finite_dom_map_of)
  also have "\<dots> \<le> card (dom (hm_get (buckets s)))"
    by (rule card_image_le) (simp add: finite_dom_map_of)
  also have "\<dots> \<le> max_buckets s"
    using assms(1) by (simp add: shape_def flip: hm_length_dom)
  finally show ?thesis
    by simp
qed

lemma shape_ensure_prefix_bucket:
  assumes "ensure_prefix_bucket now (aggregate p) d s = (s', r)" and "shape {} s"
    and "hm_get (buckets s) p \<noteq> None"
  shows "r = Inr ()" and "shape {aggregate p} s'" and "hm_get (prefix_buckets s') (aggregate p) \<noteq> None"
    and "buckets s' = buckets s" and "connection_owners s' = connection_owners s"
    and "owned (prefix_buckets s) os \<Longrightarrow> owned (prefix_buckets s') os"
proof -
  have s': "r = Inr () \<and> s' = s\<lparr>prefix_buckets := hm_or_insert (aggregate p)
      (peer_bucket_new_aggregate now (rate_limits s)) (prefix_buckets s)\<rparr>"
    using assms(1) prefix_room [OF assms(2,3)]
    by (auto simp: ensure_prefix_bucket_def split: if_splits)
  then show "r = Inr ()" and "hm_get (prefix_buckets s') (aggregate p) \<noteq> None"
    and "buckets s' = buckets s" and "connection_owners s' = connection_owners s"
    and "owned (prefix_buckets s) os \<Longrightarrow> owned (prefix_buckets s') os"
    by (auto simp: peer_bucket_new_aggregate_def owned_or_insert)
  show "shape {aggregate p} s'"
    using s' assms(2) prefix_room [OF assms(2,3)]
    by (auto simp: shape_def linked_def length_hm_or_insert split: if_splits)
qed

text \<open>One entry of a map was touched at \<open>now\<close>; its owner count changed by \<open>f\<close>.\<close>

definition retouched ::
  "instant \<Rightarrow> (nat \<Rightarrow> nat) \<Rightarrow> 'k \<Rightarrow> ('k, peer_bucket) hash_map \<Rightarrow> ('k, peer_bucket) hash_map \<Rightarrow> bool" where
  "retouched now f k m m' \<longleftrightarrow>
     (hm_ok m \<longrightarrow> hm_ok m') \<and> length m' = length m \<and> (\<forall>k'. k' \<noteq> k \<longrightarrow> hm_get m' k' = hm_get m k') \<and>
     (\<exists>b b'. hm_get m k = Some b \<and> hm_get m' k = Some b' \<and> owner_count b' = f (owner_count b)
        \<and> last_touched b' = now)"

lemma retouched_peek_at:
  "peek_at now d c k m = Some (m', ready) \<Longrightarrow> retouched now id k m m'"
  by (auto simp: peek_at_def retouched_def length_hm_insert split: option.splits prod.splits)

lemma peek_at_present:
  assumes "hm_get m k \<noteq> None"
  obtains m' ready where "peek_at now d c k m = Some (m', ready)"
  using assms by (force simp: peek_at_def peek_def Let_def)

lemma retouched_spend_at:
  "retouched now f k m m' \<Longrightarrow> spend_at d k m' = Some m'' \<Longrightarrow> retouched now f k m m''"
  by (auto simp: spend_at_def retouched_def length_hm_insert split: option.splits)

lemma retouched_modify:
  assumes "hm_get m k \<noteq> None"
  shows "retouched now (\<lambda>n. sat_add usize_MAX n 1) k m (hm_modify k (own now) m)"
    and "retouched now (\<lambda>n. n - 1) k m (hm_modify k (disown now) m)"
  using assms by (auto simp: retouched_def)

text \<open>A peer and its aggregate touched at the same time are linked again.\<close>

lemma shape_retouched:
  assumes "shape {aggregate p} s" and "retouched now f p (buckets s) m"
    and "retouched now g (aggregate p) (prefix_buckets s) m'"
  shows "shape {} (s\<lparr>buckets := m, prefix_buckets := m'\<rparr>)"
proof -
  let ?s = "s\<lparr>buckets := m, prefix_buckets := m'\<rparr>"
  have "linked {} ?s"
    unfolding linked_def
  proof (intro allI impI)
    fix q b
    assume q: "hm_get (prefix_buckets ?s) q = Some b"
    show "\<exists>p b'. aggregate p = q \<and> hm_get (buckets ?s) p = Some b'
        \<and> (0 < owner_count b' \<or> last_touched b' = last_touched b)"
    proof (cases "q = aggregate p")
      case True
      then show ?thesis
        using assms(2,3) q by (auto simp: retouched_def)
    next
      case False
      then have "hm_get (prefix_buckets s) q = Some b"
        using assms(3) q by (simp add: retouched_def)
      then obtain p' b' where p': "aggregate p' = q" "hm_get (buckets s) p' = Some b'"
        "0 < owner_count b' \<or> last_touched b' = last_touched b"
        using assms(1) False linkedE [of "{aggregate p}" s q b] by (auto simp: shape_def)
      then have "hm_get m p' = Some b'"
        using assms(2) False by (auto simp: retouched_def)
      with p' show ?thesis
        by auto
    qed
  qed
  then show ?thesis
    using assms by (auto simp: shape_def retouched_def)
qed

lemma owned_retouched:
  assumes "owned m os" and "retouched now f k m m'" and "f (count os k) = count os' k"
    and "\<And>k'. k' \<noteq> k \<Longrightarrow> count os' k' = count os k'"
  shows "owned m' os'"
proof -
  have "(case hm_get m' k' of None \<Rightarrow> 0 | Some b \<Rightarrow> owner_count b) = count os' k'" for k'
    using owned_at [OF assms(1), of k'] assms(2,3,4) by (cases "k' = k") (auto simp: retouched_def)
  then show ?thesis
    by (simp add: owned_def)
qed

lemma book_reject:
  assumes "reject d b s = (s', r)"
  shows "book X os s' = book X os s" and "connection_owners s' = connection_owners s"
    and "handled r"
proof -
  have s': "s' = (if b then bump_counter d s else bump_prefix (bump_counter d s))"
    and r: "r = Inl (Err (''E_RATE_LIMITED: '' @ error_label d @
        (if b then '' rate limit reached'' else '' rate limit reached for the peer's network prefix'')))"
    using assms by (auto simp: reject_def Let_def split: if_splits)
  show "book X os s' = book X os s" and "connection_owners s' = connection_owners s"
    by (simp_all add: s')
  show "handled r"
    by (cases d) (simp_all add: handled_def r)
qed

lemma book_check_ensured:
  assumes "check_ensured now p d s = (s', r)" and "shape {aggregate p} s"
    and "owned (buckets s) os" and "owned (prefix_buckets s) (image_mset aggregate os)"
    and "hm_get (buckets s) p \<noteq> None" and "hm_get (prefix_buckets s) (aggregate p) \<noteq> None"
  shows "book {} os s'" and "connection_owners s' = connection_owners s" and "handled r"
proof -
  obtain m rp where m: "peek_at now d (bucket_config d (rate_limits s)) p (buckets s) = Some (m, rp)"
    using peek_at_present [OF assms(5)] .
  obtain m' rq where m': "peek_at now d (aggregate_bucket_config d (rate_limits s)) (aggregate p)
      (prefix_buckets s) = Some (m', rq)"
    using peek_at_present [OF assms(6)] .
  note t = retouched_peek_at [OF m] retouched_peek_at [OF m']
  obtain n where n: "spend_at d p m = Some n"
    using t(1) by (auto simp: retouched_def spend_at_def)
  obtain n' where n': "spend_at d (aggregate p) m' = Some n'"
    using t(2) by (auto simp: retouched_def spend_at_def)
  have bk: "book {} os (s\<lparr>buckets := x, prefix_buckets := y\<rparr>)"
    if "retouched now id p (buckets s) x" and "retouched now id (aggregate p) (prefix_buckets s) y" for x y
    using shape_retouched [OF assms(2) that] owned_retouched [OF assms(3) that(1), of os]
      owned_retouched [OF assms(4) that(2), of "image_mset aggregate os"]
    by (simp add: book_def)
  have "book {} os (s\<lparr>buckets := m, prefix_buckets := m'\<rparr>)" "book {} os (s\<lparr>buckets := n, prefix_buckets := n'\<rparr>)"
    using bk t retouched_spend_at [OF t(1) n] retouched_spend_at [OF t(2) n'] by blast+
  moreover have "s' = s\<lparr>buckets := n, prefix_buckets := n'\<rparr> \<and> r = Inr () \<or>
      reject d rq (s\<lparr>buckets := m, prefix_buckets := m'\<rparr>) = (s', r)"
    using assms(1) m m' n n' by (auto simp: check_ensured_def charge_both_def Let_def split: if_splits)
  ultimately show "book {} os s'" and "connection_owners s' = connection_owners s" and "handled r"
    using book_reject [of d rq "s\<lparr>buckets := m, prefix_buckets := m'\<rparr>" s' r] by auto
qed

lemma book_check_peer:
  assumes "check_peer now p d s = (s', r)" and "book {} os s"
  shows "book {} os s'" and "connection_owners s' = connection_owners s" and "handled r"
proof -
  obtain s1 r1 where 1: "ensure_bucket now p d s = (s1, r1)"
    by fastforce
  note b1 = book_ensure_bucket [OF 1 assms(2)]
  obtain s2 r2 where 2: "ensure_prefix_bucket now (aggregate p) d s1 = (s2, r2)"
    by fastforce
  have "book {} os s' \<and> connection_owners s' = connection_owners s \<and> handled r"
  proof (cases r1)
    case (Inl e1)
    then show ?thesis
      using assms(1) 1 b1 by (simp add: check_peer_def)
  next
    case (Inr u)
    then have room: "shape {} s1" "hm_get (buckets s1) p \<noteq> None"
      using b1 by (simp_all add: book_def)
    note b2 = shape_ensure_prefix_bucket [OF 2 room]
    then have "check_ensured now p d s2 = (s', r)"
      using assms(1) 1 2 Inr by (simp add: check_peer_def)
    from book_check_ensured [OF this b2(2), of os] b2 b1 room show ?thesis
      by (simp add: book_def)
  qed
  then show "book {} os s'" and "connection_owners s' = connection_owners s" and "handled r"
    by blast+
qed

lemma shape_mono: "shape {} s \<Longrightarrow> shape X s"
  by (auto simp: shape_def linked_def)

lemma book_decrement_owner:
  assumes "book {} os s" and "p \<in># os"
  shows "book {} (os - {#p#}) (decrement_owner p now s)"
proof -
  let ?m = "hm_modify p (disown now) (buckets s)"
  let ?m' = "hm_modify (aggregate p) (disown now) (prefix_buckets s)"
  have own: "owned (buckets s) os" "owned (prefix_buckets s) (image_mset aggregate os)"
    and sh: "shape {aggregate p} s"
    using assms(1) by (simp_all add: book_def shape_mono)
  have "hm_get (buckets s) p \<noteq> None"
    by (rule owned_pos [OF own(1) assms(2)]) simp
  moreover have "hm_get (prefix_buckets s) (aggregate p) \<noteq> None"
    by (rule owned_pos [OF own(2), of "aggregate p"]) (use assms(2) in simp_all)
  ultimately have "hm_get (buckets s) p \<noteq> None" "hm_get (prefix_buckets s) (aggregate p) \<noteq> None"
    by simp_all
  note t = retouched_modify(2) [OF this(1), of now] retouched_modify(2) [OF this(2), of now]
  have img: "image_mset aggregate os = add_mset (aggregate p) (image_mset aggregate (os - {#p#}))"
    using assms(2) by (metis image_mset_add_mset insert_DiffM)
  have "owned ?m (os - {#p#})"
    by (rule owned_retouched [OF own(1) t(1)]) simp_all
  moreover have "owned ?m' (image_mset aggregate (os - {#p#}))"
    by (rule owned_retouched [OF own(2) t(2)]) (simp_all add: img)
  ultimately have "book {} (os - {#p#}) (s\<lparr>buckets := ?m, prefix_buckets := ?m'\<rparr>)"
    using shape_retouched [OF sh t] by (simp add: book_def)
  then show ?thesis
    unfolding decrement_owner_def by (rule book_evict)
qed

lemma connection_owners_decrement [simp]:
  "connection_owners (decrement_owner p now s) = connection_owners s"
  by (simp add: decrement_owner_def evict_idle_zero_owner_def)

lemma limiter_ok_release_connection:
  assumes "limiter_ok s"
  shows "limiter_ok (release_connection conn now s)"
    and "hm_get (connection_owners (release_connection conn now s)) conn = None"
    and "length (connection_owners (release_connection conn now s)) \<le> length (connection_owners s)"
proof -
  let ?c = "connection_owners s"
  have rm: "mset (map snd (hm_remove conn ?c)) = mset (map snd ?c) - {#p#}" if "hm_get ?c conn = Some p" for p
    using hm_values_remove [of ?c conn p] assms that by (metis limiter_ok_def add_mset_remove_trivial)
  show "limiter_ok (release_connection conn now s)"
  proof (cases "hm_get ?c conn")
    case (Some p)
    have "book {} (mset (map snd ?c) - {#p#})
        (decrement_owner p now (s\<lparr>connection_owners := hm_remove conn ?c\<rparr>))"
      using assms hm_get_mem_values [OF Some] by (intro book_decrement_owner) (simp_all add: limiter_ok_def)
    then show ?thesis
      using assms Some rm [OF Some] by (simp add: release_connection_def limiter_ok_def)
  qed (use assms in \<open>simp add: release_connection_def\<close>)
  show "hm_get (connection_owners (release_connection conn now s)) conn = None"
    and "length (connection_owners (release_connection conn now s)) \<le> length ?c"
    by (auto simp: release_connection_def length_hm_remove_le split: option.splits)
qed

lemma shape_own:
  assumes "shape {} s"
  shows "shape {} (s\<lparr>buckets := hm_modify p (own now) (buckets s)\<rparr>)"
proof -
  let ?s = "s\<lparr>buckets := hm_modify p (own now) (buckets s)\<rparr>"
  have "linked {} ?s"
    unfolding linked_def
  proof (intro allI impI)
    fix q b
    assume "hm_get (prefix_buckets ?s) q = Some b"
    then obtain p' b' where p': "aggregate p' = q" "hm_get (buckets s) p' = Some b'"
      "0 < owner_count b' \<or> last_touched b' = last_touched b"
      using assms linkedE [of "{}" s q b] by (auto simp: shape_def)
    then show "\<exists>p b'. aggregate p = q \<and> hm_get (buckets ?s) p = Some b'
        \<and> (0 < owner_count b' \<or> last_touched b' = last_touched b)"
      by (intro exI [of _ p'] exI [of _ "if p' = p then own now b' else b'"])
        (auto simp: sat_add_def usize_MAX_def)
  qed
  then show ?thesis
    using assms by (simp add: shape_def)
qed

lemma retouched_same:
  "hm_get m k = Some b \<Longrightarrow> last_touched b = now \<Longrightarrow> retouched now id k m m"
  by (auto simp: retouched_def)

lemma book_attach:
  assumes "book {} os s" and "hm_get (buckets s) p \<noteq> None" and "size os < usize_MAX"
    and "ensure_prefix_bucket now (aggregate p) d (s\<lparr>buckets := hm_modify p (own now) (buckets s)\<rparr>) = (s2, r)"
  shows "r = Inr ()" and "connection_owners s2 = connection_owners s"
    and "book {} (add_mset p os)
      (s2\<lparr>prefix_buckets := hm_modify (aggregate p) (own now) (prefix_buckets s2)\<rparr>)"
proof -
  let ?s = "s\<lparr>buckets := hm_modify p (own now) (buckets s)\<rparr>"
  have own: "owned (buckets s) os" "owned (prefix_buckets s) (image_mset aggregate os)"
    and sh: "shape {} s"
    using assms(1) by (simp_all add: book_def)
  note e = shape_ensure_prefix_bucket [OF assms(4) shape_own [OF sh]]
  have p': "hm_get (buckets ?s) p \<noteq> None"
    using assms(2) by simp
  show "r = Inr ()" and "connection_owners s2 = connection_owners s"
    using e p' by simp_all
  note t1 = retouched_modify(1) [OF assms(2), of now]
    and t2 = retouched_modify(1) [OF e(3) [OF p'], of now]
  have cnt: "count os p < usize_MAX" "count (image_mset aggregate os) (aggregate p) < usize_MAX"
    using assms(3) count_le_size [of os p] count_le_size [of "image_mset aggregate os" "aggregate p"]
    by simp_all
  have "owned (hm_modify p (own now) (buckets s)) (add_mset p os)"
    by (rule owned_retouched [OF own(1) t1]) (use cnt in \<open>simp_all add: sat_add_def\<close>)
  moreover have "owned (hm_modify (aggregate p) (own now) (prefix_buckets s2)) (image_mset aggregate (add_mset p os))"
    by (rule owned_retouched [OF e(6) [OF p'] t2]) (use own cnt in \<open>simp_all add: sat_add_def\<close>)
  moreover obtain b where "hm_get (buckets s2) p = Some b" "last_touched b = now"
    using e(4) [OF p'] p' by auto
  then have "shape {} (s2\<lparr>prefix_buckets := hm_modify (aggregate p) (own now) (prefix_buckets s2)\<rparr>)"
    using shape_retouched [OF e(2) [OF p'] retouched_same t2] by simp
  ultimately show "book {} (add_mset p os)
      (s2\<lparr>prefix_buckets := hm_modify (aggregate p) (own now) (prefix_buckets s2)\<rparr>)"
    using e(4) [OF p'] by (simp add: book_def)
qed

lemma limiter_ok_attach_connection:
  assumes "attach_connection conn src now s = (s', r)" and "limiter_ok s"
    and "length (connection_owners s) < usize_MAX"
  shows "limiter_ok s' \<and> length (connection_owners s') \<le> Suc (length (connection_owners s)) \<and> handled r"
proof -
  let ?p = "from_socket_addr src"
  let ?s0 = "release_connection conn now s"
  let ?os = "mset (map snd (connection_owners ?s0))"
  note rel = limiter_ok_release_connection [OF assms(2), of conn now]
  have bk: "book {} ?os ?s0" and ok: "hm_ok (connection_owners ?s0)"
    using rel(1) by (simp_all add: limiter_ok_def)
  obtain s1 r1 where 1: "ensure_bucket now ?p Handshake ?s0 = (s1, r1)"
    by fastforce
  note b1 = book_ensure_bucket [OF 1 bk]
  obtain s2 r2 where 2: "ensure_prefix_bucket now (aggregate ?p) Handshake
      (s1\<lparr>buckets := hm_modify ?p (own now) (buckets s1)\<rparr>) = (s2, r2)"
    by fastforce
  show ?thesis
  proof (cases r1)
    case (Inl e1)
    then have "s' = s1" and "r = r1"
      using assms(1) 1 by (simp_all add: attach_connection_def Let_def)
    then show ?thesis
      using b1(1,2,4) ok rel(3) by (simp add: limiter_ok_def)
  next
    case (Inr u)
    then have sz: "size ?os < usize_MAX" and p: "hm_get (buckets s1) ?p \<noteq> None"
      using b1(3) assms(3) rel(3) by simp_all
    note b2 = book_attach [OF b1(1) p sz 2]
    have s': "s' = s2\<lparr>prefix_buckets := hm_modify (aggregate ?p) (own now) (prefix_buckets s2),
        connection_owners := hm_insert conn ?p (connection_owners ?s0)\<rparr>" and r: "r = Inr ()"
      using assms(1) 1 2 Inr b1(2) b2(1,2) by (simp_all add: attach_connection_def Let_def)
    have "limiter_ok s'"
      using ok b2(3) hm_values_insert_new [OF rel(2), of ?p]
      unfolding limiter_ok_def s' book_bump by simp
    then show ?thesis
      using r rel(2,3) by (simp add: s' length_hm_insert)
  qed
qed

lemma limiter_ok_step:
  assumes "limiter_ok s" and "length (connection_owners s) < usize_MAX"
  shows "limiter_ok (fst (limiter_step x s))"
    and "length (connection_owners (fst (limiter_step x s))) \<le> Suc (length (connection_owners s))"
    and "handled (snd (limiter_step x s))"
proof -
  obtain now oper where x: "x = (now, oper)"
    by fastforce
  let ?good = "\<lambda>y. limiter_ok (fst y) \<and>
      length (connection_owners (fst y)) \<le> Suc (length (connection_owners s)) \<and> handled (snd y)"
  have chk: "?good (check_peer now p d s)" for p d
    using book_check_peer [of now p d s _ _ "mset (map snd (connection_owners s))", OF prod.collapse [symmetric]]
      assms(1)
    by (simp add: limiter_ok_def)
  have "?good (limiter_step x s)"
  proof (cases oper)
    case (Check src d)
    then show ?thesis
      using chk [of "from_socket_addr src" d] x by (simp add: check_def)
  next
    case (Check_Connection conn d)
    then show ?thesis
      using chk [of _ d] x assms(1) by (cases "hm_get (connection_owners s) conn") 
        (simp_all add: check_connection_def handled_def)
  next
    case (Attach conn src)
    then show ?thesis
      using limiter_ok_attach_connection [OF prod.collapse [symmetric] assms, of conn src now] x by simp
  next
    case (Release conn)
    then show ?thesis
      using limiter_ok_release_connection [OF assms(1), of conn now] x by simp
  qed
  then show "limiter_ok (fst (limiter_step x s))"
    and "length (connection_owners (fst (limiter_step x s))) \<le> Suc (length (connection_owners s))"
    and "handled (snd (limiter_step x s))"
    by blast+
qed

lemma limiter_ok_run:
  assumes "limiter_ok s" and "length (connection_owners s) + length xs \<le> usize_MAX"
  shows "limiter_ok (limiter_run xs s)"
    and "length (connection_owners (limiter_run xs s)) \<le> length (connection_owners s) + length xs"
  using assms
proof (induction xs arbitrary: s)
  case (Cons x xs)
  {
    case 1
    then show ?case
      using limiter_ok_step(1,2) [of s x] Cons.IH(1) [of "fst (limiter_step x s)"] by simp
  next
    case 2
    then show ?case
      using limiter_ok_step(1,2) [of s x] Cons.IH(2) [of "fst (limiter_step x s)"] by simp
  }
qed simp_all

lemma limiter_ok_new:
  assumes "peer_rate_limiter_new rl l = Inr s"
  shows "limiter_ok s" and "connection_owners s = []"
  using assms
  by (auto simp: peer_rate_limiter_new_def limiter_ok_def book_def shape_def linked_def owned_def split: sum.splits)

text \<open>
  C26. After any sequence of fewer than $2^{32}$ operations both bucket maps are within the
  bucket capacity, and the owner count of every address and of every aggregate is exactly the
  number of attached connections it pins; a bucket with attached connections is present.
\<close>

theorem limiter_consistent:
  assumes "peer_rate_limiter_new rl l = Inr s" and "length xs \<le> usize_MAX"
  defines "s' \<equiv> limiter_run xs s"
  shows "length (buckets s') \<le> bucket_cap l \<and> length (prefix_buckets s') \<le> bucket_cap l \<and>
      (\<forall>p. (case hm_get (buckets s') p of None \<Rightarrow> 0 | Some b \<Rightarrow> owner_count b)
         = length (filter (\<lambda>(c, p'). p' = p) (connection_owners s'))) \<and>
      (\<forall>q. (case hm_get (prefix_buckets s') q of None \<Rightarrow> 0 | Some b \<Rightarrow> owner_count b)
         = length (filter (\<lambda>(c, p'). aggregate p' = q) (connection_owners s')))"
proof -
  have ok: "limiter_ok s'"
    using limiter_ok_run [OF limiter_ok_new(1) [OF assms(1)]] assms(2) limiter_ok_new(2) [OF assms(1)]
    by (simp add: s'_def)
  have "max_buckets s' = bucket_cap l"
    using config_run [of xs s] assms(1)
    by (auto simp: s'_def config_of_def peer_rate_limiter_new_def split: sum.splits)
  moreover have "count (mset (map snd c)) p = length (filter (\<lambda>(c, p'). p' = p) c)"
    and "count (image_mset aggregate (mset (map snd c))) q = length (filter (\<lambda>(c, p'). aggregate p' = q) c)"
    for c :: "(u32, peer_key) hash_map" and p q
    by (induction c) auto
  ultimately show ?thesis
    using ok by (simp add: limiter_ok_def book_def shape_def owned_def)
qed

text \<open>Two peers for concrete runs.\<close>

definition host_a :: socket_addr where
  "host_a = \<lparr>sa_ip = IpV4 0x0A000001, sa_port = 443\<rparr>"

definition host_b :: socket_addr where
  "host_b = \<lparr>sa_ip = IpV4 0x0A000002, sa_port = 443\<rparr>"

lemma default_limiter:
  obtains s where "peer_rate_limiter_new wasm_rate_limits_default wasm_limits_default = Inr s"
  by (simp add: peer_rate_limiter_new_def wasm_limits_default_valid wasm_rate_limits_default_valid)

theorem limiter_consistent_witness:
  "\<exists>s. peer_rate_limiter_new wasm_rate_limits_default wasm_limits_default = Inr s \<and>
     length (buckets (limiter_run [(0, Attach 1 host_a), (1, Attach 2 host_b), (2, Release 1)] s))
       \<le> bucket_cap wasm_limits_default"
proof (rule default_limiter)
  fix s
  assume s: "peer_rate_limiter_new wasm_rate_limits_default wasm_limits_default = Inr s"
  show ?thesis
    using limiter_consistent [OF s, of "[(0, Attach 1 host_a), (1, Attach 2 host_b), (2, Release 1)]"] s
    by (simp add: usize_MAX_def)
qed

text \<open>
  C27. In such a state no operation panics, and the error for a full aggregate map is never
  returned: the aggregate map always has room for the aggregate of a peer that has its own bucket.
\<close>

theorem limiter_never_panics:
  assumes "peer_rate_limiter_new rl l = Inr s" and "length xs < usize_MAX"
  shows "snd (limiter_step x (limiter_run xs s)) \<noteq> Inl (Panic e) \<and>
      snd (limiter_step x (limiter_run xs s)) \<noteq> Inl prefix_capacity_error"
proof -
  have "limiter_ok (limiter_run xs s)" and "length (connection_owners (limiter_run xs s)) < usize_MAX"
    using limiter_ok_run [OF limiter_ok_new(1) [OF assms(1)], of xs] assms(2) limiter_ok_new(2) [OF assms(1)]
    by simp_all
  then show ?thesis
    using limiter_ok_step(3) unfolding handled_def by blast
qed

theorem limiter_never_panics_witness:
  "\<exists>s. peer_rate_limiter_new wasm_rate_limits_default wasm_limits_default = Inr s \<and>
     snd (limiter_step (3, Check_Connection 1 StreamOpen) (limiter_run [(0, Attach 1 host_a)] s))
       \<noteq> Inl (Panic ''bucket just ensured'')"
proof (rule default_limiter)
  fix s
  assume s: "peer_rate_limiter_new wasm_rate_limits_default wasm_limits_default = Inr s"
  have "length [(0, Attach 1 host_a)] < usize_MAX"
    by (simp add: usize_MAX_def)
  from limiter_never_panics [OF s this] s show ?thesis
    by blast
qed

section \<open>Recovery\<close>

lemma refill_recovers:
  assumes "last_refill t + nanos \<le> now" and "0 < rate_per_sec c" and "0 < burst c"
  shows "RATE_LIMIT_FP_SCALE \<le> tokens_fp (refill now c t)"
proof -
  let ?e = "now - last_refill t"
  have "nanos \<le> ?e"
    using assms(1) by simp
  then have "nanos * 1 \<le> ?e * rate_per_sec c"
    using assms(2) by (intro mult_mono) auto
  then have "nanos * RATE_LIMIT_FP_SCALE
      \<le> sat_mul u128_MAX (sat_mul u128_MAX ?e (rate_per_sec c)) RATE_LIMIT_FP_SCALE"
    by (simp add: sat_mul_def RATE_LIMIT_FP_SCALE_def u128_MAX_def)
  then have "RATE_LIMIT_FP_SCALE \<le> refill_amount ?e c"
    by (simp add: refill_amount_def less_eq_div_iff_mult_less_eq)
  then have "RATE_LIMIT_FP_SCALE \<le> sat_add u128_MAX (tokens_fp t) (refill_amount ?e c)"
    and "refill_amount ?e c \<noteq> 0"
    by (simp_all add: sat_add_def RATE_LIMIT_FP_SCALE_def u128_MAX_def)
  moreover have "RATE_LIMIT_FP_SCALE \<le> burst c * RATE_LIMIT_FP_SCALE"
    using assms(3) by simp
  ultimately show ?thesis
    using \<open>nanos \<le> ?e\<close> by (auto simp: refill_def Let_def)
qed

lemma bucket_config_pos:
  assumes "wasm_rate_limits_validate rl = Inr ()"
  shows "0 < rate_per_sec (bucket_config d rl)" and "0 < burst (bucket_config d rl)"
    and "0 < rate_per_sec (aggregate_bucket_config d rl)" and "0 < burst (aggregate_bucket_config d rl)"
  using assms
  by (cases d; simp add: wasm_rate_limits_validate_iff aggregate_bucket_config_def Let_def sat_mul_def
      u32_MAX_def AGGREGATE_RATE_MULTIPLIER_def)+

text \<open>A bucket that is absent, fresh or has not been refilled for a second has a token.\<close>

definition rested :: "rate_limit_dimension \<Rightarrow> instant \<Rightarrow> peer_bucket option \<Rightarrow> bool" where
  "rested d now e \<longleftrightarrow> (case e of None \<Rightarrow> True | Some b \<Rightarrow> last_refill (bucket_get d b) + nanos \<le> now)"

lemma ready_after_rest:
  assumes "rested d now (hm_get m k)" and "f d l = c" and "0 < rate_per_sec c" and "0 < burst c"
    and "peek_at now d c k (hm_or_insert k (with_config now l f) m) = Some (m', ready)"
  shows "ready"
  using assms refill_recovers [of "bucket_get d (the (hm_get m k))" now c]
  by (cases "hm_get m k")
    (auto simp: rested_def peek_at_def peek_def Let_def refill_def token_bucket_new_def)

lemma rested_retain: "rested d now (hm_get m k) \<Longrightarrow> hm_ok m \<Longrightarrow> rested d now (hm_get (hm_retain P m) k)"
  by (auto simp: rested_def split: option.splits)

lemma retain_room:
  assumes "hm_ok m" and "hm_get m k \<noteq> None \<or> length m < n" and "length m \<le> n"
  shows "hm_get (hm_retain P m) k \<noteq> None \<or> length (hm_retain P m) < n"
proof (cases "hm_get m k")
  case None
  then show ?thesis
    using assms(2) length_hm_retain_le [of P m] by auto
next
  case (Some b)
  have "length (hm_retain P m) < length m" if "\<not> P b"
    unfolding hm_retain_def
    by (rule length_filter_less [OF map_of_SomeD [OF Some]]) (simp add: that)
  then show ?thesis
    using assms Some by (cases "P b") auto
qed

lemma check_ensured_ready:
  assumes "peek_at now d (bucket_config d (rate_limits s)) p (buckets s) = Some (m, True)"
    and "peek_at now d (aggregate_bucket_config d (rate_limits s)) (aggregate p) (prefix_buckets s)
      = Some (m', True)"
  shows "snd (check_ensured now p d s) = Inr ()"
  using assms retouched_peek_at [OF assms(1)] retouched_peek_at [OF assms(2)]
  by (auto simp: check_ensured_def charge_both_def spend_at_def Let_def retouched_def)

lemma check_peer_recovers:
  assumes "limiter_ok s" and "wasm_rate_limits_validate (rate_limits s) = Inr ()"
    and "hm_get (buckets s) p \<noteq> None \<or> length (buckets s) < max_buckets s"
    and "rested d now (hm_get (buckets s) p)" and "rested d now (hm_get (prefix_buckets s) (aggregate p))"
  shows "snd (check_peer now p d s) = Inr ()"
proof -
  let ?e = "evict_idle_zero_owner now s"
  let ?s1 = "?e\<lparr>buckets := hm_or_insert p (peer_bucket_new now (rate_limits s)) (buckets ?e)\<rparr>"
  let ?s2 = "?s1\<lparr>prefix_buckets := hm_or_insert (aggregate p)
      (peer_bucket_new_aggregate now (rate_limits s)) (prefix_buckets ?e)\<rparr>"
  have ok: "hm_ok (buckets s)" "hm_ok (prefix_buckets s)" "length (buckets s) \<le> max_buckets s"
    and bk: "book {} (mset (map snd (connection_owners s))) s"
    using assms(1) by (auto simp: limiter_ok_def book_def shape_def)
  have 1: "ensure_bucket now p d s = (?s1, Inr ())"
    using retain_room [OF ok(1) assms(3) ok(3), of "live (idle_ttl s) now"]
    by (auto simp: ensure_bucket_def Let_def evict_idle_zero_owner_def)
  from book_ensure_bucket [OF 1 bk] have "shape {} ?s1" and "hm_get (buckets ?s1) p \<noteq> None"
    by (simp_all add: book_def)
  from prefix_room [OF this] have 2: "ensure_prefix_bucket now (aggregate p) d ?s1 = (?s2, Inr ())"
    by (auto simp: ensure_prefix_bucket_def evict_idle_zero_owner_def)
  obtain m r where m: "peek_at now d (bucket_config d (rate_limits s)) p (buckets ?s2) = Some (m, r)"
    by (rule peek_at_present [of "buckets ?s2" p]) auto
  obtain m' r' where m': "peek_at now d (aggregate_bucket_config d (rate_limits s)) (aggregate p)
      (prefix_buckets ?s2) = Some (m', r')"
    by (rule peek_at_present [of "prefix_buckets ?s2" "aggregate p"]) auto
  let ?live = "live (idle_ttl s) now"
  have "r"
  proof (rule ready_after_rest [where f = bucket_config and l = "rate_limits s"])
    show "rested d now (hm_get (hm_retain ?live (buckets s)) p)"
      by (rule rested_retain [OF assms(4) ok(1)])
    show "peek_at now d (bucket_config d (rate_limits s)) p
        (hm_or_insert p (with_config now (rate_limits s) bucket_config) (hm_retain ?live (buckets s))) = Some (m, r)"
      using m by (simp add: evict_idle_zero_owner_def peer_bucket_new_def)
  qed (use bucket_config_pos [OF assms(2)] in simp_all)
  moreover have "r'"
  proof (rule ready_after_rest [where f = aggregate_bucket_config and l = "rate_limits s"])
    show "rested d now (hm_get (hm_retain ?live (prefix_buckets s)) (aggregate p))"
      by (rule rested_retain [OF assms(5) ok(2)])
    show "peek_at now d (aggregate_bucket_config d (rate_limits s)) (aggregate p)
        (hm_or_insert (aggregate p) (with_config now (rate_limits s) aggregate_bucket_config)
          (hm_retain ?live (prefix_buckets s))) = Some (m', r')"
      using m' by (simp add: evict_idle_zero_owner_def peer_bucket_new_aggregate_def)
  qed (use bucket_config_pos [OF assms(2)] in simp_all)
  ultimately have "snd (check_ensured now p d ?s2) = Inr ()"
    using m m' by (intro check_ensured_ready) (simp_all add: evict_idle_zero_owner_def)
  then show ?thesis
    by (simp only: check_peer_def 1 2 prod.case sum.case)
qed

text \<open>
  A limited peer recovers: in every state the limiter reaches, a peer whose own bucket and
  aggregate bucket were last refilled at least one second ago is admitted again, provided it has a
  bucket or the bucket map has room for one.
\<close>

theorem limited_peer_recovers:
  assumes "peer_rate_limiter_new rl l = Inr s" and "length xs \<le> usize_MAX"
    and "hm_get (buckets (limiter_run xs s)) p \<noteq> None \<or> length (buckets (limiter_run xs s)) < bucket_cap l"
    and "rested d now (hm_get (buckets (limiter_run xs s)) p)"
    and "rested d now (hm_get (prefix_buckets (limiter_run xs s)) (aggregate p))"
  shows "snd (check_peer now p d (limiter_run xs s)) = Inr ()"
proof -
  have cfg: "config_of s = (rl, idle_timeout_ms l * 1000000, bucket_cap l)"
    and v: "wasm_rate_limits_validate rl = Inr ()"
    using assms(1) by (auto simp: peer_rate_limiter_new_def config_of_def split: sum.splits)
  have "limiter_ok (limiter_run xs s)"
    using limiter_ok_run [OF limiter_ok_new(1) [OF assms(1)]] assms(2) limiter_ok_new(2) [OF assms(1)]
    by simp
  then show ?thesis
    using assms(3-5) v cfg config_run [of xs s] by (intro check_peer_recovers) (simp_all add: config_of_def)
qed

theorem limited_peer_recovers_witness:
  "\<exists>s. peer_rate_limiter_new wasm_rate_limits_default wasm_limits_default = Inr s \<and>
     snd (check_peer nanos (from_socket_addr host_a) Handshake
       (limiter_run [(0, Check host_a Handshake)] s)) = Inr ()"
proof (rule default_limiter)
  fix s
  assume s: "peer_rate_limiter_new wasm_rate_limits_default wasm_limits_default = Inr s"
  then have "buckets s = []" "prefix_buckets s = []" "rate_limits s = wasm_rate_limits_default"
    "64 \<le> max_buckets s"
    by (auto simp: peer_rate_limiter_new_def bucket_cap_def MIN_RATE_LIMIT_BUCKET_CAP_def split: sum.splits)
  then have "\<exists>b. hm_get (buckets (limiter_run [(0, Check host_a Handshake)] s)) (from_socket_addr host_a) = Some b
        \<and> last_refill (bucket_get Handshake b) = 0"
    and "\<exists>b. hm_get (prefix_buckets (limiter_run [(0, Check host_a Handshake)] s))
          (aggregate (from_socket_addr host_a)) = Some b \<and> last_refill (bucket_get Handshake b) = 0"
    by (simp_all add: limiter_eval wasm_rate_limits_default_def)
  then show ?thesis
    using limited_peer_recovers [OF s, of "[(0, Check host_a Handshake)]" "from_socket_addr host_a" Handshake nanos] s
    by (auto simp: rested_def usize_MAX_def)
qed

end
