(* ===== verification/Event.thy ===== *)
theory Event
  imports Varint
begin

text \<open>
  The events the bridge hands to JavaScript and their wire form
  (\<^verbatim>\<open>WtEvent\<close> of \<^verbatim>\<open>crates/wasm/src/event.rs\<close>). A \<^verbatim>\<open>u32\<close> field is a \<open>32 word\<close> and widened by
  \<open>ucast\<close> where the code says \<^verbatim>\<open>as u64\<close>; the length of a \<^verbatim>\<open>Vec\<close> is a \<open>nat\<close>.
\<close>

datatype wt_event =
    Connected u32
  | SessionEstablished u32 u64
  | Datagram u32 u64 bytes
  | ConnectionClosed u32 u32
  | StreamOpened u32 u64 u32 bool
  | StreamData u32 u32 bool bytes
  | StreamReset u32 u32 u32
  | StreamStopped u32 u32 u32
  | SessionClosed u32 u64 u32 bytes
  | SessionDraining u32 u64

definition tag_CONNECTED :: byte where "tag_CONNECTED = 1"
definition tag_SESSION_ESTABLISHED :: byte where "tag_SESSION_ESTABLISHED = 2"
definition tag_DATAGRAM :: byte where "tag_DATAGRAM = 3"
definition tag_CLOSED :: byte where "tag_CLOSED = 4"
definition tag_STREAM_OPENED :: byte where "tag_STREAM_OPENED = 5"
definition tag_STREAM_DATA :: byte where "tag_STREAM_DATA = 6"
definition tag_STREAM_RESET :: byte where "tag_STREAM_RESET = 7"
definition tag_STREAM_STOPPED :: byte where "tag_STREAM_STOPPED = 8"
definition tag_SESSION_CLOSED :: byte where "tag_SESSION_CLOSED = 9"
definition tag_SESSION_DRAINING :: byte where "tag_SESSION_DRAINING = 10"

lemmas tag_defs =
  tag_CONNECTED_def tag_SESSION_ESTABLISHED_def tag_DATAGRAM_def tag_CLOSED_def
  tag_STREAM_OPENED_def tag_STREAM_DATA_def tag_STREAM_RESET_def tag_STREAM_STOPPED_def
  tag_SESSION_CLOSED_def tag_SESSION_DRAINING_def

definition event_varint_width :: "u64 \<Rightarrow> nat" where
  "event_varint_width val =
     (if val < 0x40 then 1 else if val < 0x4000 then 2 else if val < 0x40000000 then 4 else 8)"

fun event_conn :: "wt_event \<Rightarrow> u32" where
  "event_conn (Connected conn) = conn"
| "event_conn (SessionEstablished conn _) = conn"
| "event_conn (Datagram conn _ _) = conn"
| "event_conn (ConnectionClosed conn _) = conn"
| "event_conn (StreamOpened conn _ _ _) = conn"
| "event_conn (StreamData conn _ _ _) = conn"
| "event_conn (StreamReset conn _ _) = conn"
| "event_conn (StreamStopped conn _ _) = conn"
| "event_conn (SessionClosed conn _ _ _) = conn"
| "event_conn (SessionDraining conn _) = conn"

text \<open>\<^verbatim>\<open>host_token.unwrap_or(0) as u64\<close>, and \<^verbatim>\<open>len() as u64\<close>.\<close>

definition token_or_zero :: "u32 option \<Rightarrow> u64" where
  "token_or_zero host_token = (case host_token of None \<Rightarrow> 0 | Some t \<Rightarrow> ucast t)"

definition len_u64 :: "bytes \<Rightarrow> u64" where
  "len_u64 data = word_of_nat (length data)"

text \<open>The additions of \<^verbatim>\<open>encoded_capacity_hint\<close>, in order; each saturates.\<close>

fun capacity_parts :: "wt_event \<Rightarrow> u32 option \<Rightarrow> nat list" where
  "capacity_parts (Connected _) tok = []"
| "capacity_parts (SessionEstablished _ sid) tok = [event_varint_width sid]"
| "capacity_parts (Datagram _ sid data) tok =
     [event_varint_width sid, event_varint_width (len_u64 data), length data,
      event_varint_width (token_or_zero tok)]"
| "capacity_parts (ConnectionClosed _ code) tok = [event_varint_width (ucast code)]"
| "capacity_parts (StreamOpened _ sid stream _) tok =
     [event_varint_width sid, event_varint_width (ucast stream), 1]"
| "capacity_parts (StreamData _ stream _ data) tok =
     [event_varint_width (ucast stream), 1, event_varint_width (len_u64 data), length data,
      event_varint_width (token_or_zero tok)]"
| "capacity_parts (StreamReset _ stream code) tok =
     [event_varint_width (ucast stream), event_varint_width (ucast code)]"
| "capacity_parts (StreamStopped _ stream code) tok =
     [event_varint_width (ucast stream), event_varint_width (ucast code)]"
| "capacity_parts (SessionClosed _ sid code reason) tok =
     [event_varint_width sid, event_varint_width (ucast code), event_varint_width (len_u64 reason),
      length reason]"
| "capacity_parts (SessionDraining _ sid) tok = [event_varint_width sid]"

definition encoded_capacity_hint :: "wt_event \<Rightarrow> u32 option \<Rightarrow> nat" where
  "encoded_capacity_hint event host_token =
     foldl (sat_add usize_MAX)
       (sat_add usize_MAX 1 (event_varint_width (ucast (event_conn event))))
       (capacity_parts event host_token)"

fun encode_with_host_token :: "wt_event \<Rightarrow> u32 option \<Rightarrow> bytes" where
  "encode_with_host_token (Connected conn) tok =
     varint_encode (ucast conn) [tag_CONNECTED]"
| "encode_with_host_token (SessionEstablished conn sid) tok =
     varint_encode sid (varint_encode (ucast conn) [tag_SESSION_ESTABLISHED])"
| "encode_with_host_token (Datagram conn sid data) tok =
     varint_encode (token_or_zero tok)
       (varint_encode (len_u64 data)
          (varint_encode sid (varint_encode (ucast conn) [tag_DATAGRAM])) @ data)"
| "encode_with_host_token (ConnectionClosed conn code) tok =
     varint_encode (ucast code) (varint_encode (ucast conn) [tag_CLOSED])"
| "encode_with_host_token (StreamOpened conn sid stream bidi) tok =
     varint_encode (ucast stream) (varint_encode sid (varint_encode (ucast conn) [tag_STREAM_OPENED]))
       @ [if bidi then 1 else 0]"
| "encode_with_host_token (StreamData conn stream fin data) tok =
     varint_encode (token_or_zero tok)
       (varint_encode (len_u64 data)
          (varint_encode (ucast stream) (varint_encode (ucast conn) [tag_STREAM_DATA])
             @ [if fin then 1 else 0]) @ data)"
| "encode_with_host_token (StreamReset conn stream code) tok =
     varint_encode (ucast code)
       (varint_encode (ucast stream) (varint_encode (ucast conn) [tag_STREAM_RESET]))"
| "encode_with_host_token (StreamStopped conn stream code) tok =
     varint_encode (ucast code)
       (varint_encode (ucast stream) (varint_encode (ucast conn) [tag_STREAM_STOPPED]))"
| "encode_with_host_token (SessionClosed conn sid code reason) tok =
     varint_encode (len_u64 reason)
       (varint_encode (ucast code)
          (varint_encode sid (varint_encode (ucast conn) [tag_SESSION_CLOSED]))) @ reason"
| "encode_with_host_token (SessionDraining conn sid) tok =
     varint_encode sid (varint_encode (ucast conn) [tag_SESSION_DRAINING])"

definition event_encode :: "wt_event \<Rightarrow> bytes" where
  "event_encode event = encode_with_host_token event None"

section \<open>The capacity hint\<close>

lemma event_varint_width_eq: "event_varint_width v = length (varint_bytes v)"
  by (simp add: event_varint_width_def length_varint_bytes varint_width_def)

lemma foldl_sat_add: "a \<le> limit \<Longrightarrow> foldl (sat_add limit) a xs = min (a + sum_list xs) limit"
  by (induction xs arbitrary: a) (auto simp: sat_add_def)

text \<open>
  The capacity reserved for an encoded event is exactly the length of the encoding, capped
  at the maximum of \<^verbatim>\<open>usize\<close>: an event that fits in memory is written without growing its buffer.
\<close>

theorem encoded_capacity_exact:
  "encoded_capacity_hint event host_token
     = min (length (encode_with_host_token event host_token)) usize_MAX"
proof -
  let ?w = "event_varint_width (ucast (event_conn event))"
  have "sat_add usize_MAX 1 ?w = 1 + ?w" and "1 + ?w \<le> usize_MAX"
    by (simp_all add: sat_add_def usize_MAX_def event_varint_width_def)
  then have "encoded_capacity_hint event host_token
      = min (1 + ?w + sum_list (capacity_parts event host_token)) usize_MAX"
    by (simp add: encoded_capacity_hint_def foldl_sat_add)
  also have "1 + ?w + sum_list (capacity_parts event host_token)
      = length (encode_with_host_token event host_token)"
    by (cases event) (simp_all add: event_varint_width_eq varint_encode_eq)
  finally show ?thesis .
qed

end
