(* ===== verification/Event_Host.thy ===== *)
theory Event_Host
  imports Event "HOL-Library.Log_Nat"
begin

text \<open>
  The JavaScript side of the event wire (\<^verbatim>\<open>packages/webtransport/src/backend-wasm.ts\<close>): decoding of
  polled events, their dispatch to callbacks, and the round trip with the Rust encoder.

  A JavaScript number that holds an integer is a \<open>nat\<close>; additions that may leave the safe integers
  round to 53 significant bits, ties to even, as IEEE doubles do. A \<^verbatim>\<open>bigint\<close> is a \<open>nat\<close>. A string
  is the list of its UTF-8 bytes. A \<^verbatim>\<open>Uint8Array\<close> is a byte list; \<open>null\<close> is \<open>None\<close>.
\<close>

section \<open>JavaScript numbers and text\<close>

definition js_round :: "nat \<Rightarrow> nat" where
  "js_round n =
     (if n < 2 ^ 53 then n
      else let e = floorlog 2 n - 53;
               q = n div 2 ^ e;
               r = n mod 2 ^ e
           in if 2 * r < 2 ^ e \<or> (2 * r = 2 ^ e \<and> even q) then q * 2 ^ e else (q + 1) * 2 ^ e)"

definition MAX_SAFE_INTEGER :: nat where
  "MAX_SAFE_INTEGER = 2 ^ 53 - 1"

text \<open>
  \<^verbatim>\<open>TextDecoder.decode\<close> with its default options: a byte order mark in front is dropped, and every
  maximal ill-formed subsequence becomes one replacement character.
\<close>

definition utf8_bad_len :: "bytes \<Rightarrow> nat" where
  "utf8_bad_len bs =
     (case bs of
        a # b # cs \<Rightarrow>
          if 0xE0 \<le> a \<and> a \<le> 0xEF \<and> utf8_second3 a b then 2
          else if 0xF0 \<le> a \<and> a \<le> 0xF4 \<and> utf8_second4 a b then
            (case cs of c # _ \<Rightarrow> if utf8_cont c then 3 else 2 | [] \<Rightarrow> 2)
          else 1
      | _ \<Rightarrow> 1)"

function utf8_lossy :: "bytes \<Rightarrow> bytes" where
  "utf8_lossy bs =
     (if bs = [] then []
      else if utf8_char_len bs = 0 then [0xEF, 0xBF, 0xBD] @ utf8_lossy (drop (utf8_bad_len bs) bs)
      else take (utf8_char_len bs) bs @ utf8_lossy (drop (utf8_char_len bs) bs))"
  by pat_completeness auto
termination
  by (relation "measure length") (auto simp: utf8_bad_len_def split: list.splits)

declare utf8_lossy.simps [simp del]

definition has_bom :: "bytes \<Rightarrow> bool" where
  "has_bom bs \<longleftrightarrow> take 3 bs = [0xEF, 0xBB, 0xBF]"

definition text_decode :: "bytes \<Rightarrow> bytes" where
  "text_decode bs = utf8_lossy (if has_bom bs then drop 3 bs else bs)"

section \<open>Decoding events\<close>

definition decodeVarintSafe :: "bytes \<Rightarrow> nat \<Rightarrow> (nat \<times> nat) option" where
  "decodeVarintSafe buf off =
     (if off \<ge> length buf then None
      else
        let first = unat (buf ! off);
            len = 2 ^ (first div 64) in
        if off + len > length buf then None
        else Some (foldl (\<lambda>v i. js_round (v * 256 + unat (buf ! (off + i)))) (first mod 64) [1..<len],
                   off + len))"

definition decodeVarintBig :: "bytes \<Rightarrow> nat \<Rightarrow> (nat \<times> nat) option" where
  "decodeVarintBig buf off =
     (if off \<ge> length buf then None
      else
        let first = unat (buf ! off);
            len = 2 ^ (first div 64) in
        if off + len > length buf then None
        else Some (foldl (\<lambda>v i. v * 256 + unat (buf ! (off + i))) (first mod 64) [1..<len], off + len))"

definition requireSafeSessionId :: "nat \<Rightarrow> nat option" where
  "requireSafeSessionId sessionId = (if sessionId > MAX_SAFE_INTEGER then None else Some sessionId)"

datatype decoded_wasm_event =
    D_connected nat
  | D_session_established nat nat
  | D_datagram nat nat bytes "nat option"
  | D_closed nat nat
  | D_session_closed nat nat nat bytes
  | D_session_draining nat nat
  | D_stream_opened nat nat nat bool
  | D_stream_data nat nat bytes bool "nat option"
  | D_stream_reset nat nat nat
  | D_stream_stopped nat nat nat
  | D_unknown nat

text \<open>\<^verbatim>\<open>ev.subarray(off, off + len)\<close>, and the trailing host token of a payload event.\<close>

definition subarray :: "bytes \<Rightarrow> nat \<Rightarrow> nat \<Rightarrow> bytes" where
  "subarray ev off len = take len (drop off ev)"

definition decodeHostToken :: "bytes \<Rightarrow> nat \<Rightarrow> nat option option" where
  "decodeHostToken ev off =
     (if off < length ev then
        (case decodeVarintSafe ev off of
           None \<Rightarrow> None
         | Some (t, _) \<Rightarrow> Some (if t > 0 then Some t else None))
      else Some None)"

definition decodeWasmEvent :: "bytes \<Rightarrow> decoded_wasm_event option" where
  "decodeWasmEvent ev =
     (case ev of
        [] \<Rightarrow> None
      | tag # _ \<Rightarrow>
        (case decodeVarintSafe ev 1 of
           None \<Rightarrow> None
         | Some (conn, off) \<Rightarrow>
           if tag = tag_CONNECTED then Some (D_connected conn)
           else if tag = tag_SESSION_ESTABLISHED then
             (case decodeVarintBig ev off of
                None \<Rightarrow> None
              | Some (sid, _) \<Rightarrow>
                  map_option (\<lambda>sessionId. D_session_established conn sessionId) (requireSafeSessionId sid))
           else if tag = tag_DATAGRAM then
             (case decodeVarintBig ev off of
                None \<Rightarrow> None
              | Some (sid, off) \<Rightarrow>
                (case decodeVarintSafe ev off of
                   None \<Rightarrow> None
                 | Some (len, off) \<Rightarrow>
                   if off + len > length ev then None
                   else case decodeHostToken ev (off + len) of
                     None \<Rightarrow> None
                   | Some hostToken \<Rightarrow>
                       map_option (\<lambda>sessionId. D_datagram conn sessionId (subarray ev off len) hostToken)
                         (requireSafeSessionId sid)))
           else if tag = tag_CLOSED then
             (case decodeVarintSafe ev off of
                None \<Rightarrow> None
              | Some (code, _) \<Rightarrow> Some (D_closed conn code))
           else if tag = tag_SESSION_CLOSED then
             (case decodeVarintBig ev off of
                None \<Rightarrow> None
              | Some (sid, off) \<Rightarrow>
                (case decodeVarintSafe ev off of
                   None \<Rightarrow> None
                 | Some (code, off) \<Rightarrow>
                   (case decodeVarintSafe ev off of
                      None \<Rightarrow> None
                    | Some (len, off) \<Rightarrow>
                      if off + len > length ev then None
                      else map_option
                        (\<lambda>sessionId. D_session_closed conn sessionId code (text_decode (subarray ev off len)))
                        (requireSafeSessionId sid))))
           else if tag = tag_SESSION_DRAINING then
             (case decodeVarintBig ev off of
                None \<Rightarrow> None
              | Some (sid, _) \<Rightarrow>
                  map_option (\<lambda>sessionId. D_session_draining conn sessionId) (requireSafeSessionId sid))
           else if tag = tag_STREAM_OPENED then
             (case decodeVarintBig ev off of
                None \<Rightarrow> None
              | Some (sid, off) \<Rightarrow>
                (case decodeVarintSafe ev off of
                   None \<Rightarrow> None
                 | Some (stream, off) \<Rightarrow>
                   if off \<ge> length ev then None
                   else map_option (\<lambda>sessionId. D_stream_opened conn sessionId stream (ev ! off = 1))
                     (requireSafeSessionId sid)))
           else if tag = tag_STREAM_DATA then
             (case decodeVarintSafe ev off of
                None \<Rightarrow> None
              | Some (stream, off) \<Rightarrow>
                if off \<ge> length ev then None
                else case decodeVarintSafe ev (off + 1) of
                  None \<Rightarrow> None
                | Some (len, off') \<Rightarrow>
                  if off' + len > length ev then None
                  else case decodeHostToken ev (off' + len) of
                    None \<Rightarrow> None
                  | Some hostToken \<Rightarrow>
                      Some (D_stream_data conn stream (subarray ev off' len) (ev ! off = 1) hostToken))
           else if tag = tag_STREAM_RESET then
             (case decodeVarintSafe ev off of
                None \<Rightarrow> None
              | Some (stream, off) \<Rightarrow>
                (case decodeVarintSafe ev off of
                   None \<Rightarrow> None
                 | Some (code, _) \<Rightarrow> Some (D_stream_reset conn stream code)))
           else if tag = tag_STREAM_STOPPED then
             (case decodeVarintSafe ev off of
                None \<Rightarrow> None
              | Some (stream, off) \<Rightarrow>
                (case decodeVarintSafe ev off of
                   None \<Rightarrow> None
                 | Some (code, _) \<Rightarrow> Some (D_stream_stopped conn stream code)))
           else Some (D_unknown (unat tag))))"

section \<open>Dispatch\<close>

text \<open>
  What \<^verbatim>\<open>dispatchDecodedWasmEvent\<close> does with the callback of an event: whether it was called with
  the event, which host tokens were released, and whether an exception leaves the dispatch.
\<close>

datatype callback = Absent | Returns | Throws

record dispatch_result =
  delivered :: bool
  released :: "nat list"
  rethrown :: bool

definition dispatch_payload :: "callback \<Rightarrow> nat option \<Rightarrow> dispatch_result" where
  "dispatch_payload cb hostToken =
     (case cb of
        Returns \<Rightarrow> \<lparr>delivered = True, released = [], rethrown = False\<rparr>
      | Throws \<Rightarrow>
          \<lparr>delivered = True, released = (case hostToken of None \<Rightarrow> [] | Some t \<Rightarrow> [t]), rethrown = True\<rparr>
      | Absent \<Rightarrow>
          \<lparr>delivered = False, released = (case hostToken of None \<Rightarrow> [] | Some t \<Rightarrow> [t]), rethrown = False\<rparr>)"

fun dispatchDecodedWasmEvent :: "callback \<Rightarrow> decoded_wasm_event option \<Rightarrow> dispatch_result" where
  "dispatchDecodedWasmEvent cb None = \<lparr>delivered = False, released = [], rethrown = False\<rparr>"
| "dispatchDecodedWasmEvent cb (Some (D_datagram _ _ _ hostToken)) = dispatch_payload cb hostToken"
| "dispatchDecodedWasmEvent cb (Some (D_stream_data _ _ _ _ hostToken)) = dispatch_payload cb hostToken"
| "dispatchDecodedWasmEvent cb (Some (D_unknown _)) = \<lparr>delivered = False, released = [], rethrown = False\<rparr>"
| "dispatchDecodedWasmEvent cb (Some _) =
     \<lparr>delivered = (cb \<noteq> Absent), released = [], rethrown = (cb = Throws)\<rparr>"

section \<open>The two varint decoders agree\<close>

lemma foldl_be_nat: "foldl (\<lambda>v b. v * 256 + unat b) v bs = v * 256 ^ length bs + be_nat bs"
  by (induction bs arbitrary: v) (simp_all add: algebra_simps)

lemma foldl_js_exact:
  assumes "foldl (\<lambda>v i. v * 256 + f i) v xs < 2 ^ 53"
  shows "foldl (\<lambda>v i. js_round (v * 256 + f i)) v xs = foldl (\<lambda>v i. v * 256 + f i) v xs"
  using assms
proof (induction xs arbitrary: v)
  case (Cons x xs)
  have grow: "w \<le> foldl (\<lambda>v i. v * 256 + f i) w ys" for w ys
  proof (induction ys arbitrary: w)
    case (Cons y ys)
    have "w \<le> w * 256 + f y"
      by simp
    also have "\<dots> \<le> foldl (\<lambda>v i. v * 256 + f i) w (y # ys)"
      using Cons by simp
    finally show ?case .
  qed simp
  have "js_round (v * 256 + f x) = v * 256 + f x"
    using grow [of "v * 256 + f x" xs] Cons.prems by (simp add: js_round_def)
  then show ?case
    using Cons by simp
qed simp

lemma map_nth_drop:
  assumes "off + len \<le> length buf"
  shows "map (\<lambda>i. buf ! (off + i)) [1..<len] = drop 1 (take len (drop off buf))"
  using assms by (intro nth_equalityI) (auto simp del: upt_Suc)

lemma decodeVarintBig_eq:
  "decodeVarintBig buf off = map_option (\<lambda>(v, n). (unat v, off + n)) (varint_decode (drop off buf))"
proof (cases "off < length buf")
  case True
  define first where "first = buf ! off"
  define len :: nat where "len = 2 ^ unat (drop_bit 6 first)"
  have d: "drop off buf = first # drop (Suc off) buf"
    using True by (simp add: first_def Cons_nth_drop_Suc)
  have len': "2 ^ (unat first div 64) = len"
    by (simp add: len_def unat_drop_bit)
  have "unat first div 64 \<le> 3"
    using unat_byte_less [of first] by simp
  then have len8: "len \<le> 8"
    using power_increasing [of "unat first div 64" 3 "2::nat"] by (simp add: len' [symmetric])
  have top: "unat (first AND 0x3f) = unat first mod 64"
    using unat_and_mask [of first 6] by (simp add: mask_eq_exp_minus_1)
  have "foldl (\<lambda>v i. v * 256 + unat (buf ! (off + i))) (unat first mod 64) [1..<len]
      = unat (foldl shift_in (ucast (first AND 0x3f)) (drop 1 (take len (drop off buf))))"
    if "off + len \<le> length buf"
  proof -
    let ?bs = "drop 1 (take len (drop off buf))"
    have "foldl (\<lambda>v i. v * 256 + unat (buf ! (off + i))) (unat first mod 64) [1..<len]
        = foldl (\<lambda>v b. v * 256 + unat b) (unat first mod 64) ?bs"
      unfolding map_nth_drop [OF that, symmetric] by (simp add: foldl_map)
    also have "\<dots> = unat (foldl shift_in (ucast (first AND 0x3f)) ?bs)"
      using len8 by (subst unat_foldl_shift_in [where k = 6]) (auto simp: top foldl_be_nat)
    finally show ?thesis .
  qed
  then show ?thesis
    using True d len'
    by (auto simp: decodeVarintBig_def varint_decode_def Let_def first_def [symmetric] len_def [symmetric])
qed (simp add: decodeVarintBig_def varint_decode_def)

definition safe_value :: "bytes \<Rightarrow> nat \<Rightarrow> nat" where
  "safe_value buf off = fst (the (decodeVarintSafe buf off))"

lemma decodeVarintSafe_eq:
  "decodeVarintSafe buf off =
     map_option (\<lambda>(v, n). (if unat v < 2 ^ 53 then unat v else safe_value buf off, off + n))
       (varint_decode (drop off buf))"
proof -
  have "decodeVarintSafe buf off = map_option (\<lambda>(v, n). (safe_value buf off, n)) (decodeVarintBig buf off)"
    by (auto simp: safe_value_def decodeVarintSafe_def decodeVarintBig_def Let_def)
  moreover have "safe_value buf off = v" if "decodeVarintBig buf off = Some (v, n)" "v < 2 ^ 53" for v n
    using that foldl_js_exact [of "\<lambda>i. unat (buf ! (off + i))"]
    by (auto simp: safe_value_def decodeVarintSafe_def decodeVarintBig_def Let_def split: if_splits)
  ultimately show ?thesis
    by (cases "varint_decode (drop off buf)") (auto simp: decodeVarintBig_eq)
qed

lemma varint_ok_ucast [simp]: "varint_ok (ucast (c :: u32))" "unat (c :: u32) < 9007199254740992"
  and unat_ucast_u32 [simp]: "unat (ucast (c :: u32) :: u64) = unat c"
proof -
  have "unat c < 2 ^ 32"
    using unsigned_less [of c, where ?'a = nat] by simp
  then show "unat (ucast c :: u64) = unat c"
    by (simp add: unat_ucast)
  then show "varint_ok (ucast c)" "unat c < 9007199254740992"
    using \<open>unat c < 2 ^ 32\<close> by (simp_all add: varint_ok_def)
qed

section \<open>Text\<close>

lemma utf8_lossy_valid: "valid_utf8 bs \<Longrightarrow> utf8_lossy bs = bs"
proof (induction bs rule: valid_utf8.induct)
  case (1 bs)
  show ?case
  proof (cases "bs = []")
    case False
    then have "utf8_char_len bs \<noteq> 0" "valid_utf8 (drop (utf8_char_len bs) bs)"
      using "1.prems" by (simp_all add: valid_utf8.simps [of bs] split: if_splits)
    then show ?thesis
      using "1.IH" False by (simp add: utf8_lossy.simps [of bs])
  qed (simp add: utf8_lossy.simps)
qed

lemma text_decode_valid: "valid_utf8 bs \<Longrightarrow> \<not> has_bom bs \<Longrightarrow> text_decode bs = bs"
  by (simp add: text_decode_def utf8_lossy_valid)

section \<open>Round trip\<close>

text \<open>The events that reach JavaScript unchanged, and what they are there.\<close>

fun host_ok :: "wt_event \<Rightarrow> bool" where
  "host_ok (SessionEstablished conn sid) \<longleftrightarrow> unat sid \<le> MAX_SAFE_INTEGER"
| "host_ok (Datagram conn sid data) \<longleftrightarrow> unat sid \<le> MAX_SAFE_INTEGER \<and> length data \<le> usize_MAX"
| "host_ok (StreamOpened conn sid stream bidi) \<longleftrightarrow> unat sid \<le> MAX_SAFE_INTEGER"
| "host_ok (StreamData conn stream fin data) \<longleftrightarrow> length data \<le> usize_MAX"
| "host_ok (SessionClosed conn sid code reason) \<longleftrightarrow> unat sid \<le> MAX_SAFE_INTEGER \<and>
     length reason \<le> usize_MAX \<and> valid_utf8 reason \<and> \<not> has_bom reason"
| "host_ok (SessionDraining conn sid) \<longleftrightarrow> unat sid \<le> MAX_SAFE_INTEGER"
| "host_ok _ \<longleftrightarrow> True"

definition host_token_of :: "u32 option \<Rightarrow> nat option" where
  "host_token_of tok = (case tok of None \<Rightarrow> None | Some t \<Rightarrow> if t = 0 then None else Some (unat t))"

fun host_view :: "wt_event \<Rightarrow> u32 option \<Rightarrow> decoded_wasm_event" where
  "host_view (Connected conn) tok = D_connected (unat conn)"
| "host_view (SessionEstablished conn sid) tok = D_session_established (unat conn) (unat sid)"
| "host_view (Datagram conn sid data) tok = D_datagram (unat conn) (unat sid) data (host_token_of tok)"
| "host_view (ConnectionClosed conn code) tok = D_closed (unat conn) (unat code)"
| "host_view (StreamOpened conn sid stream bidi) tok =
     D_stream_opened (unat conn) (unat sid) (unat stream) bidi"
| "host_view (StreamData conn stream fin data) tok =
     D_stream_data (unat conn) (unat stream) data fin (host_token_of tok)"
| "host_view (StreamReset conn stream code) tok = D_stream_reset (unat conn) (unat stream) (unat code)"
| "host_view (StreamStopped conn stream code) tok = D_stream_stopped (unat conn) (unat stream) (unat code)"
| "host_view (SessionClosed conn sid code reason) tok =
     D_session_closed (unat conn) (unat sid) (unat code) reason"
| "host_view (SessionDraining conn sid) tok = D_session_draining (unat conn) (unat sid)"

lemma len_u64_facts:
  assumes "length data \<le> usize_MAX"
  shows "unat (len_u64 data) = length data" "varint_ok (len_u64 data)" "length data < 9007199254740992"
proof -
  have l: "length data \<le> 4294967295"
    using assms by (simp add: usize_MAX_def)
  then show u: "unat (len_u64 data) = length data"
    unfolding len_u64_def by (intro unat_length_u64) simp
  show "varint_ok (len_u64 data)" "length data < 9007199254740992"
    using l by (simp_all add: varint_ok_def u)
qed

lemma token_facts:
  "varint_ok (token_or_zero tok)" "unat (token_or_zero tok) < 9007199254740992"
  "host_token_of tok = (if unat (token_or_zero tok) > 0 then Some (unat (token_or_zero tok)) else None)"
proof -
  show "varint_ok (token_or_zero tok)" "unat (token_or_zero tok) < 9007199254740992"
    by (cases tok; simp add: token_or_zero_def varint_ok_def order_less_trans [OF unat_u32_less])+
  show "host_token_of tok = (if unat (token_or_zero tok) > 0 then Some (unat (token_or_zero tok)) else None)"
    by (cases tok) (simp_all add: host_token_of_def token_or_zero_def unat_eq_zero)
qed

lemma sid_facts:
  assumes "unat sid \<le> MAX_SAFE_INTEGER"
  shows "varint_ok sid" "unat sid < 9007199254740992"
  using assms by (simp_all add: varint_ok_def MAX_SAFE_INTEGER_def)

lemmas decode_event_simps =
  decodeWasmEvent_def decodeHostToken_def decodeVarintSafe_eq decodeVarintBig_eq varint_encode_eq
  varint.dec_enc varint.dec_enc_Nil requireSafeSessionId_def subarray_def tag_defs

lemma event_decodes:
  assumes "host_ok e"
  shows "decodeWasmEvent (encode_with_host_token e tok) = Some (host_view e tok)"
proof (cases e)
  case (Datagram conn sid data)
  then have "unat sid \<le> MAX_SAFE_INTEGER" "length data \<le> usize_MAX"
    using assms by simp_all
  with Datagram show ?thesis
    by (simp add: decode_event_simps sid_facts len_u64_facts token_facts)
next
  case (StreamData conn stream fin data)
  then have "length data \<le> usize_MAX"
    using assms by simp
  with StreamData show ?thesis
    by (simp add: decode_event_simps len_u64_facts token_facts)
next
  case (SessionClosed conn sid code reason)
  then have "unat sid \<le> MAX_SAFE_INTEGER" "length reason \<le> usize_MAX" "text_decode reason = reason"
    using assms by (simp_all add: text_decode_valid)
  with SessionClosed show ?thesis
    by (simp add: decode_event_simps sid_facts len_u64_facts)
qed (use assms in \<open>simp_all add: decode_event_simps sid_facts nth_append\<close>)

text \<open>
  C32. The event wire round-trips across the language boundary: every event whose session id is a
  safe integer and whose close reason is well-formed text without a byte order mark is decoded by
  JavaScript to exactly the event Rust encoded, with its host token.
\<close>

theorem event_roundtrip:
  assumes "host_ok e"
  shows "decodeWasmEvent (encode_with_host_token e tok) = Some (host_view e tok)"
  using assms by (rule event_decodes)

theorem event_roundtrip_witness:
  "decodeWasmEvent (encode_with_host_token (StreamData 7 300 True [1, 2, 3]) (Some 70000))
     = Some (D_stream_data 7 300 [1, 2, 3] True (Some 70000))"
proof -
  have "host_ok (StreamData 7 300 True [1, 2, 3])"
    by (simp add: usize_MAX_def)
  from event_roundtrip [OF this, of "Some 70000"] show ?thesis
    by (simp add: host_token_of_def)
qed

text \<open>
  C33. A datagram of a session whose id is no safe integer is dropped by the decoder after its
  host token has been parsed: the decoder answers \<^verbatim>\<open>null\<close>, so that the dispatch releases nothing
  although the token was complete and readable.
\<close>

theorem unsafe_session_datagram_dropped:
  assumes "MAX_SAFE_INTEGER < unat sid" and "varint_ok sid" and "length data \<le> usize_MAX"
  shows "decodeWasmEvent (encode_with_host_token (Datagram conn sid data) tok) = None \<and>
      decodeHostToken (encode_with_host_token (Datagram conn sid data) tok)
        (1 + length (varint_bytes (ucast conn)) + length (varint_bytes sid)
           + length (varint_bytes (len_u64 data)) + length data) = Some (host_token_of tok) \<and>
      released (dispatchDecodedWasmEvent cb
        (decodeWasmEvent (encode_with_host_token (Datagram conn sid data) tok))) = []"
proof -
  have "decodeWasmEvent (encode_with_host_token (Datagram conn sid data) tok) = None"
    using assms by (simp add: decode_event_simps len_u64_facts token_facts)
  moreover have "decodeHostToken (encode_with_host_token (Datagram conn sid data) tok)
      (1 + length (varint_bytes (ucast conn)) + length (varint_bytes sid)
         + length (varint_bytes (len_u64 data)) + length data) = Some (host_token_of tok)"
    using assms by (simp add: decode_event_simps len_u64_facts token_facts)
  ultimately show ?thesis
    by simp
qed

theorem unsafe_session_datagram_dropped_witness:
  "decodeWasmEvent (encode_with_host_token (Datagram 1 0x20000000000000 [9]) (Some 5)) = None"
proof -
  have "MAX_SAFE_INTEGER < unat (0x20000000000000 :: u64)" "varint_ok 0x20000000000000"
    by (simp_all add: MAX_SAFE_INTEGER_def varint_ok_def)
  from unsafe_session_datagram_dropped [OF this, of "[9]" 1 "Some 5"] show ?thesis
    by (simp add: usize_MAX_def)
qed

section \<open>Host tokens in the dispatch\<close>

text \<open>The host token an event carries.\<close>

fun event_token :: "decoded_wasm_event \<Rightarrow> nat option" where
  "event_token (D_datagram _ _ _ t) = t"
| "event_token (D_stream_data _ _ _ _ t) = t"
| "event_token _ = None"

lemma dispatch_token:
  "released (dispatchDecodedWasmEvent cb (Some d))
     = (if cb = Returns then [] else case event_token d of None \<Rightarrow> [] | Some t \<Rightarrow> [t])"
  "delivered (dispatchDecodedWasmEvent Returns (Some d)) \<or> event_token d = None"
  by (cases d; cases cb; simp add: dispatch_payload_def)+

end
