(* ===== verification/Ledger.thy ===== *)
theory Ledger
  imports "HOL-Library.Multiset" Main
begin

text \<open>
  The interface of a component that hands out reservations against counters with limits. A
  reservation \<open>k\<close> weighs \<open>weight k i\<close> on counter \<open>i\<close>; reserving adds the weights or is refused,
  releasing subtracts them with saturation. Clients get conservation: as long as only outstanding
  reservations are released, every counter is the sum of the outstanding weights and within its
  limit, and saturation never hides a loss.
\<close>

lemma sum_mset_pos: "0 < (\<Sum>k\<in>#L. f k) \<Longrightarrow> \<exists>k\<in>#L. 0 < (f k :: nat)"
  by (induction L) auto

locale ledger =
  fixes counts :: "'s \<Rightarrow> 'i \<Rightarrow> nat"
    and cap :: "'s \<Rightarrow> 'i \<Rightarrow> nat"
    and weight :: "'k \<Rightarrow> 'i \<Rightarrow> nat"
    and reserve :: "'s \<Rightarrow> 'k \<Rightarrow> 's option"
    and release :: "'s \<Rightarrow> 'k \<Rightarrow> 's"
  assumes reserve_counts: "reserve s k = Some s' \<Longrightarrow> counts s' i = counts s i + weight k i"
    and reserve_within: "reserve s k = Some s' \<Longrightarrow> counts s i \<le> cap s i \<Longrightarrow> counts s' i \<le> cap s i"
    and reserve_cap: "reserve s k = Some s' \<Longrightarrow> cap s' = cap s"
    and release_counts: "counts (release s k) i = counts s i - weight k i"
    and release_cap: "cap (release s k) = cap s"
begin

definition balanced :: "'s \<Rightarrow> 'k multiset \<Rightarrow> bool" where
  "balanced s L \<longleftrightarrow> (\<forall>i. counts s i = (\<Sum>k\<in>#L. weight k i) \<and> counts s i \<le> cap s i)"

lemma balancedI:
  "(\<And>i. counts s i = (\<Sum>k\<in>#L. weight k i)) \<Longrightarrow> (\<And>i. counts s i \<le> cap s i) \<Longrightarrow> balanced s L"
  by (simp only: balanced_def) blast

lemma balancedD:
  assumes "balanced s L"
  shows "counts s i = (\<Sum>k\<in>#L. weight k i)" and "counts s i \<le> cap s i"
  using assms unfolding balanced_def by blast+

lemma balanced_reserve:
  assumes "balanced s L" and "reserve s k = Some s'"
  shows "balanced s' (add_mset k L)"
proof (rule balancedI)
  fix i
  show "counts s' i = (\<Sum>k\<in>#add_mset k L. weight k i)"
    using balancedD(1) [OF assms(1), of i] reserve_counts [OF assms(2), of i] by simp
  show "counts s' i \<le> cap s' i"
    using reserve_within [OF assms(2) balancedD(2) [OF assms(1)], of i] reserve_cap [OF assms(2)] by simp
qed

lemma balanced_release:
  assumes "balanced s (add_mset k L)"
  shows "balanced (release s k) L"
proof (rule balancedI)
  fix i
  show "counts (release s k) i = (\<Sum>k\<in>#L. weight k i)"
    using balancedD(1) [OF assms, of i] release_counts [of s k i] by simp
  show "counts (release s k) i \<le> cap (release s k) i"
    using balancedD(2) [OF assms, of i] release_counts [of s k i] release_cap [of s k] by simp
qed

lemma balanced_release_list:
  "balanced s (mset ks + L) \<Longrightarrow> balanced (foldl release s ks) L"
  by (induction ks arbitrary: s) (auto intro: balanced_release)

lemma release_list_cap: "cap (foldl release s ks) = cap s"
  by (induction ks arbitrary: s) (simp_all add: release_cap)

lemma balanced_empty: "balanced s {#} \<Longrightarrow> counts s i = 0"
  using balancedD(1) [of s "{#}" i] by simp

lemma balanced_swap:
  assumes "balanced s L" and "counts s' = counts s" and "cap s' = cap s"
  shows "balanced s' L"
  using assms unfolding balanced_def by metis

end

text \<open>
  Counters kept in a map also have a presence: an entry may exist although its count is zero. The
  extension adds that an entry exists only for an outstanding reservation that concerns it, so
  that the maps do not grow with the number of keys ever used.
\<close>

locale keyed_ledger = ledger +
  fixes present :: "'a \<Rightarrow> 'b \<Rightarrow> bool"
    and concerns :: "'c \<Rightarrow> 'b \<Rightarrow> bool"
  assumes weight_concerns: "0 < weight k i \<Longrightarrow> concerns k i"
    and reserve_present: "reserve s k = Some s' \<Longrightarrow> present s' i \<Longrightarrow> present s i \<or> concerns k i"
    and release_present: "present (release s k) i \<Longrightarrow> present s i \<and> (concerns k i \<longrightarrow> 0 < counts (release s k) i)"
begin

definition justified :: "'a \<Rightarrow> 'c multiset \<Rightarrow> bool" where
  "justified s L \<longleftrightarrow> balanced s L \<and> (\<forall>i. present s i \<longrightarrow> (\<exists>k\<in>#L. concerns k i))"

lemma justified_reserve:
  assumes "justified s L" and "reserve s k = Some s'"
  shows "justified s' (add_mset k L)"
  using assms balanced_reserve [OF _ assms(2)] reserve_present [OF assms(2)]
  by (auto simp: justified_def)

lemma justified_release:
  assumes "justified s (add_mset k L)"
  shows "justified (release s k) L"
proof -
  have b: "balanced (release s k) L"
    using assms by (simp add: justified_def balanced_release)
  have "\<exists>k'\<in>#L. concerns k' i" if p: "present (release s k) i" for i
  proof (cases "concerns k i")
    case True
    then have "0 < counts (release s k) i"
      using release_present [OF p] by simp
    then have "0 < (\<Sum>k'\<in>#L. weight k' i)"
      using balancedD(1) [OF b, of i] by simp
    then obtain k' where "k' \<in># L" "0 < weight k' i"
      by (metis sum_mset_pos)
    then show ?thesis
      using weight_concerns by blast
  next
    case False
    moreover have "\<exists>k'\<in>#add_mset k L. concerns k' i"
      using assms release_present [OF p] unfolding justified_def by blast
    ultimately show ?thesis
      by auto
  qed
  with b show ?thesis
    by (simp add: justified_def)
qed

lemma justified_release_list:
  "justified s (mset ks + L) \<Longrightarrow> justified (foldl release s ks) L"
  by (induction ks arbitrary: s) (auto intro: justified_release)

lemma justified_empty: "justified s {#} \<Longrightarrow> \<not> present s i"
  by (auto simp: justified_def)

lemma justified_swap:
  assumes "justified s L" and "counts s' = counts s" and "cap s' = cap s" and "present s' = present s"
  shows "justified s' L"
  using assms balanced_swap unfolding justified_def by metis

end

end
