(* ===== verification/Governor.thy ===== *)
theory Governor
  imports Hash_Map Wasm_Limits Ledger
begin

text \<open>
  The resource governor of the endpoint (\<^verbatim>\<open>Governor\<close> of \<^verbatim>\<open>crates/wasm/src/governor.rs\<close>): the
  counters of handshakes, sessions, streams and queued event bytes, the reservations that hold
  them, and the host tokens that stand for reservations owned by the JavaScript side.

  The shared \<^verbatim>\<open>Rc<RefCell<GovernorInner>>\<close> is passed as a state. A \<^verbatim>\<open>Reservation\<close> is the pair of its
  two optional fields; whether it still refers to the governor is a \<open>bool\<close>. Handles and host
  tokens are \<^verbatim>\<open>u32\<close> values; tokens are \<open>nat\<close> because the code compares and increments them below a
  ceiling.
\<close>

section \<open>State\<close>

datatype stream_kind = Bidi | Uni

datatype reservation_kind =
    RHandshake
  | RSession u32
  | RStream u32 stream_kind
  | RQueuedBytes u32 "u32 option" nat

record reservation =
  res_inner :: bool
  res_kind :: "reservation_kind option"

record governor_inner =
  limits :: wasm_limits
  sessions_active :: nat
  handshakes_in_flight :: nat
  streams_active_global :: nat
  streams_bidi_per_session :: "(u32, nat) hash_map"
  streams_uni_per_session :: "(u32, nat) hash_map"
  queued_bytes_global :: nat
  queued_bytes_per_session :: "(u32, nat) hash_map"
  queued_bytes_per_stream :: "(u32 \<times> u32, nat) hash_map"
  next_host_token :: nat
  host_token_ceiling :: nat
  host_tokens :: "(nat, reservation_kind) hash_map"

definition governor_new :: "wasm_limits \<Rightarrow> string + governor_inner" where
  "governor_new l =
     (case wasm_limits_validate l of
        Inl e \<Rightarrow> Inl e
      | Inr _ \<Rightarrow>
          Inr \<lparr>limits = l, sessions_active = 0, handshakes_in_flight = 0, streams_active_global = 0,
               streams_bidi_per_session = [], streams_uni_per_session = [], queued_bytes_global = 0,
               queued_bytes_per_session = [], queued_bytes_per_stream = [],
               next_host_token = 1, host_token_ceiling = 4294967295, host_tokens = []\<rparr>)"

definition reservation_new :: "reservation_kind \<Rightarrow> reservation" where
  "reservation_new k = \<lparr>res_inner = True, res_kind = Some k\<rparr>"

section \<open>Reserving\<close>

definition reserve_handshake :: "governor_inner \<Rightarrow> governor_inner \<times> (string + reservation)" where
  "reserve_handshake g =
     (if handshakes_in_flight g \<ge> max_handshakes_in_flight (limits g) then
        (g, Inl ''E_LIMIT_EXCEEDED: maxHandshakesInFlight reached'')
      else
        (g\<lparr>handshakes_in_flight := handshakes_in_flight g + 1\<rparr>, Inr (reservation_new RHandshake)))"

definition reserve_session :: "u32 \<Rightarrow> governor_inner \<Rightarrow> governor_inner \<times> (string + reservation)" where
  "reserve_session conn g =
     (if sessions_active g \<ge> max_sessions (limits g) then
        (g, Inl ''E_LIMIT_EXCEEDED: maxSessions reached'')
      else
        (g\<lparr>sessions_active := sessions_active g + 1\<rparr>, Inr (reservation_new (RSession conn))))"

fun stream_map :: "stream_kind \<Rightarrow> governor_inner \<Rightarrow> (u32, nat) hash_map" where
  "stream_map Bidi g = streams_bidi_per_session g"
| "stream_map Uni g = streams_uni_per_session g"

fun set_stream_map :: "stream_kind \<Rightarrow> (u32, nat) hash_map \<Rightarrow> governor_inner \<Rightarrow> governor_inner" where
  "set_stream_map Bidi m g = g\<lparr>streams_bidi_per_session := m\<rparr>"
| "set_stream_map Uni m g = g\<lparr>streams_uni_per_session := m\<rparr>"

fun per_session_limit :: "stream_kind \<Rightarrow> wasm_limits \<Rightarrow> nat" where
  "per_session_limit Bidi l = max_streams_per_session_bidi l"
| "per_session_limit Uni l = max_streams_per_session_uni l"

fun stream_limit_name :: "stream_kind \<Rightarrow> string" where
  "stream_limit_name Bidi = ''maxStreamsPerSessionBidi''"
| "stream_limit_name Uni = ''maxStreamsPerSessionUni''"

definition reserve_stream ::
  "u32 \<Rightarrow> u32 \<Rightarrow> stream_kind \<Rightarrow> governor_inner \<Rightarrow> governor_inner \<times> (string + reservation)" where
  "reserve_stream conn stream kind g =
     (if streams_active_global g \<ge> max_streams_global (limits g) then
        (g, Inl ''E_LIMIT_EXCEEDED: maxStreamsGlobal reached'')
      else
        let per_session = hm_count (stream_map kind g) conn in
        if per_session \<ge> per_session_limit kind (limits g) then
          (g, Inl (''E_LIMIT_EXCEEDED: '' @ stream_limit_name kind @ '' reached''))
        else
          ((set_stream_map kind (hm_insert conn (per_session + 1) (stream_map kind g)) g)
             \<lparr>streams_active_global := streams_active_global g + 1\<rparr>,
           Inr (reservation_new (RStream conn kind))))"

text \<open>The part of \<^verbatim>\<open>reserve_event_bytes\<close> for a stream: the new value of its counter, if it has one.\<close>

definition next_stream_bytes ::
  "u32 \<Rightarrow> u32 option \<Rightarrow> nat \<Rightarrow> governor_inner \<Rightarrow> string + (u32 \<times> u32, nat) hash_map" where
  "next_stream_bytes conn stream bytes g =
     (case stream of
        None \<Rightarrow> Inr (queued_bytes_per_stream g)
      | Some stream_id \<Rightarrow>
          (case checked_add usize_MAX (hm_count (queued_bytes_per_stream g) (conn, stream_id)) bytes of
             None \<Rightarrow> Inl ''E_QUEUE_FULL: stream queued byte counter overflow''
           | Some next_stream \<Rightarrow>
               if next_stream > max_queued_bytes_per_stream (limits g) then
                 Inl ''E_QUEUE_FULL: maxQueuedBytesPerStream reached''
               else Inr (hm_insert (conn, stream_id) next_stream (queued_bytes_per_stream g))))"

definition reserve_event_bytes ::
  "u32 \<Rightarrow> u32 option \<Rightarrow> nat \<Rightarrow> governor_inner \<Rightarrow> governor_inner \<times> (string + reservation)" where
  "reserve_event_bytes conn stream bytes g =
     (case checked_add usize_MAX (queued_bytes_global g) bytes of
        None \<Rightarrow> (g, Inl ''E_QUEUE_FULL: queued byte counter overflow'')
      | Some next_global \<Rightarrow>
        if next_global > max_queued_bytes_global (limits g) then
          (g, Inl ''E_QUEUE_FULL: maxQueuedBytesGlobal reached'')
        else case checked_add usize_MAX (hm_count (queued_bytes_per_session g) conn) bytes of
          None \<Rightarrow> (g, Inl ''E_QUEUE_FULL: session queued byte counter overflow'')
        | Some next_session \<Rightarrow>
          if next_session > max_queued_bytes_per_session (limits g) then
            (g, Inl ''E_QUEUE_FULL: maxQueuedBytesPerSession reached'')
          else case next_stream_bytes conn stream bytes g of
            Inl e \<Rightarrow> (g, Inl e)
          | Inr per_stream \<Rightarrow>
              (g\<lparr>queued_bytes_per_stream := per_stream, queued_bytes_global := next_global,
                 queued_bytes_per_session := hm_insert conn next_session (queued_bytes_per_session g)\<rparr>,
               Inr (reservation_new (RQueuedBytes conn stream bytes))))"

definition available_event_bytes :: "u32 \<Rightarrow> u32 option \<Rightarrow> governor_inner \<Rightarrow> nat" where
  "available_event_bytes conn stream g =
     (let global = max_queued_bytes_global (limits g) - queued_bytes_global g;
          session = max_queued_bytes_per_session (limits g) - hm_count (queued_bytes_per_session g) conn;
          stream = (case stream of
              None \<Rightarrow> usize_MAX
            | Some stream \<Rightarrow>
                max_queued_bytes_per_stream (limits g) - hm_count (queued_bytes_per_stream g) (conn, stream))
      in min (min global session) stream)"

section \<open>Releasing\<close>

definition decrement_map :: "'k \<Rightarrow> ('k, nat) hash_map \<Rightarrow> ('k, nat) hash_map" where
  "decrement_map key m =
     (case hm_get m key of
        None \<Rightarrow> m
      | Some val \<Rightarrow> if val \<le> 1 then hm_remove key m else hm_insert key (val - 1) m)"

definition decrement_bytes_map :: "'k \<Rightarrow> nat \<Rightarrow> ('k, nat) hash_map \<Rightarrow> ('k, nat) hash_map" where
  "decrement_bytes_map key bytes m =
     (case hm_get m key of
        None \<Rightarrow> m
      | Some val \<Rightarrow> if val \<le> bytes then hm_remove key m else hm_insert key (val - bytes) m)"

fun release_kind :: "governor_inner \<Rightarrow> reservation_kind \<Rightarrow> governor_inner" where
  "release_kind g RHandshake = g\<lparr>handshakes_in_flight := handshakes_in_flight g - 1\<rparr>"
| "release_kind g (RSession conn) = g\<lparr>sessions_active := sessions_active g - 1\<rparr>"
| "release_kind g (RStream conn kind) =
     set_stream_map kind (decrement_map conn (stream_map kind g))
       (g\<lparr>streams_active_global := streams_active_global g - 1\<rparr>)"
| "release_kind g (RQueuedBytes conn stream bytes) =
     g\<lparr>queued_bytes_global := queued_bytes_global g - bytes,
       queued_bytes_per_session := decrement_bytes_map conn bytes (queued_bytes_per_session g),
       queued_bytes_per_stream :=
         (case stream of
            None \<Rightarrow> queued_bytes_per_stream g
          | Some stream_id \<Rightarrow>
              decrement_bytes_map (conn, stream_id) bytes (queued_bytes_per_stream g))\<rparr>"

text \<open>\<^verbatim>\<open>Drop for Reservation\<close>.\<close>

definition reservation_drop :: "reservation \<Rightarrow> governor_inner \<Rightarrow> governor_inner" where
  "reservation_drop r g =
     (if \<not> res_inner r then g
      else case res_kind r of None \<Rightarrow> g | Some kind \<Rightarrow> release_kind g kind)"

section \<open>Host tokens\<close>

text \<open>
  The search loop of \<^verbatim>\<open>allocate_host_token\<close>; \<open>None\<close> would be a search that never ends.
\<close>

partial_function (option) token_loop ::
  "(nat, reservation_kind) hash_map \<Rightarrow> nat \<Rightarrow> nat \<Rightarrow> nat \<Rightarrow> (string + nat \<times> nat) option" where
  "token_loop tokens ceiling start candidate =
     (let following = (if candidate \<ge> ceiling then 1 else candidate + 1) in
      if hm_get tokens candidate = None then Some (Inr (candidate, following))
      else if following = start then
        Some (Inl ''E_LIMIT_EXCEEDED: host reservation token space exhausted'')
      else token_loop tokens ceiling start following)"

definition clamp :: "nat \<Rightarrow> nat \<Rightarrow> nat \<Rightarrow> nat" where
  "clamp v lo hi = max lo (min v hi)"

definition allocate_host_token :: "governor_inner \<Rightarrow> (governor_inner \<times> (string + nat)) option" where
  "allocate_host_token g =
     (let ceiling = max (host_token_ceiling g) 1;
          start = clamp (next_host_token g) 1 ceiling in
      case token_loop (host_tokens g) ceiling start start of
        None \<Rightarrow> None
      | Some (Inl e) \<Rightarrow> Some (g, Inl e)
      | Some (Inr (token, following)) \<Rightarrow> Some (g\<lparr>next_host_token := following\<rparr>, Inr token))"

definition transfer_to_host ::
  "reservation \<Rightarrow> governor_inner \<Rightarrow> (governor_inner \<times> (string + nat)) option" where
  "transfer_to_host r g =
     (case res_kind r of
        None \<Rightarrow> Some (g, Inl ''E_INTERNAL: reservation already consumed'')
      | Some kind \<Rightarrow>
        if \<not> res_inner r then Some (g, Inl ''E_INTERNAL: reservation missing governor'')
        else case kind of
          RQueuedBytes conn stream bytes \<Rightarrow>
            (case allocate_host_token g of
               None \<Rightarrow> None
             | Some (g, Inl error) \<Rightarrow> Some (release_kind g kind, Inl error)
             | Some (g, Inr token) \<Rightarrow>
                 Some (g\<lparr>host_tokens := hm_insert token kind (host_tokens g)\<rparr>, Inr token))
        | _ \<Rightarrow>
            Some (reservation_drop (reservation_new kind) g,
                  Inl ''E_INTERNAL: only queued-byte reservations can transfer to host''))"

definition release_host_token_with_context ::
  "nat \<Rightarrow> governor_inner \<Rightarrow> governor_inner \<times> (u32 \<times> u32 option) option" where
  "release_host_token_with_context token g =
     (case hm_get (host_tokens g) token of
        None \<Rightarrow> (g, None)
      | Some kind \<Rightarrow>
          (release_kind (g\<lparr>host_tokens := hm_remove token (host_tokens g)\<rparr>) kind,
           case kind of RQueuedBytes conn stream _ \<Rightarrow> Some (conn, stream) | _ \<Rightarrow> None))"

definition release_host_token :: "nat \<Rightarrow> governor_inner \<Rightarrow> governor_inner \<times> bool" where
  "release_host_token token g =
     (case release_host_token_with_context token g of (g, context) \<Rightarrow> (g, context \<noteq> None))"

definition release_all_host_tokens :: "governor_inner \<Rightarrow> governor_inner \<times> nat" where
  "release_all_host_tokens g =
     (let hosts = host_tokens g in
      (foldl release_kind (g\<lparr>host_tokens := []\<rparr>) (map snd hosts), length hosts))"

record governor_snapshot =
  snap_sessions_active :: nat
  snap_handshakes_in_flight :: nat
  snap_streams_active_global :: nat
  snap_queued_bytes_global :: nat
  snap_queued_bytes_for_session :: nat
  snap_queued_bytes_for_stream :: nat
  snap_host_tokens_active :: nat

definition governor_snapshot_of :: "u32 \<Rightarrow> u32 option \<Rightarrow> governor_inner \<Rightarrow> governor_snapshot" where
  "governor_snapshot_of conn stream g =
     \<lparr>snap_sessions_active = sessions_active g, snap_handshakes_in_flight = handshakes_in_flight g,
      snap_streams_active_global = streams_active_global g,
      snap_queued_bytes_global = queued_bytes_global g,
      snap_queued_bytes_for_session = hm_count (queued_bytes_per_session g) conn,
      snap_queued_bytes_for_stream =
        (case stream of None \<Rightarrow> 0 | Some s \<Rightarrow> hm_count (queued_bytes_per_stream g) (conn, s)),
      snap_host_tokens_active = length (host_tokens g)\<rparr>"

section \<open>The governor as a ledger\<close>

text \<open>All counters under one index, their limits, and what a reservation weighs on them.\<close>

datatype counter =
    Handshakes
  | Sessions
  | Streams
  | StreamsOf stream_kind u32
  | Bytes
  | BytesOf u32
  | BytesOfStream u32 u32

fun counter_value :: "governor_inner \<Rightarrow> counter \<Rightarrow> nat" where
  "counter_value g Handshakes = handshakes_in_flight g"
| "counter_value g Sessions = sessions_active g"
| "counter_value g Streams = streams_active_global g"
| "counter_value g (StreamsOf kind conn) = hm_count (stream_map kind g) conn"
| "counter_value g Bytes = queued_bytes_global g"
| "counter_value g (BytesOf conn) = hm_count (queued_bytes_per_session g) conn"
| "counter_value g (BytesOfStream conn stream) = hm_count (queued_bytes_per_stream g) (conn, stream)"

fun limit_of :: "wasm_limits \<Rightarrow> counter \<Rightarrow> nat" where
  "limit_of l Handshakes = max_handshakes_in_flight l"
| "limit_of l Sessions = max_sessions l"
| "limit_of l Streams = max_streams_global l"
| "limit_of l (StreamsOf kind conn) = per_session_limit kind l"
| "limit_of l Bytes = max_queued_bytes_global l"
| "limit_of l (BytesOf conn) = max_queued_bytes_per_session l"
| "limit_of l (BytesOfStream conn stream) = max_queued_bytes_per_stream l"

text \<open>The counters a reservation concerns, and how much it takes of each of them.\<close>

fun concerns :: "reservation_kind \<Rightarrow> counter \<Rightarrow> bool" where
  "concerns RHandshake c \<longleftrightarrow> c = Handshakes"
| "concerns (RSession conn) c \<longleftrightarrow> c = Sessions"
| "concerns (RStream conn kind) c \<longleftrightarrow> c = Streams \<or> c = StreamsOf kind conn"
| "concerns (RQueuedBytes conn stream n) c \<longleftrightarrow>
     c = Bytes \<or> c = BytesOf conn \<or> (\<exists>s. stream = Some s \<and> c = BytesOfStream conn s)"

fun amount :: "reservation_kind \<Rightarrow> nat" where
  "amount (RQueuedBytes conn stream n) = n"
| "amount _ = 1"

definition weight :: "reservation_kind \<Rightarrow> counter \<Rightarrow> nat" where
  "weight k c = (if concerns k c then amount k else 0)"

text \<open>Entries of the counter maps.\<close>

fun has_entry :: "governor_inner \<Rightarrow> counter \<Rightarrow> bool" where
  "has_entry g (StreamsOf kind conn) \<longleftrightarrow> hm_get (stream_map kind g) conn \<noteq> None"
| "has_entry g (BytesOf conn) \<longleftrightarrow> hm_get (queued_bytes_per_session g) conn \<noteq> None"
| "has_entry g (BytesOfStream conn stream) \<longleftrightarrow> hm_get (queued_bytes_per_stream g) (conn, stream) \<noteq> None"
| "has_entry g _ \<longleftrightarrow> False"

text \<open>One reservation call, by the kind of reservation it asks for.\<close>

fun reserve_kind :: "reservation_kind \<Rightarrow> governor_inner \<Rightarrow> governor_inner \<times> (string + reservation)" where
  "reserve_kind RHandshake g = reserve_handshake g"
| "reserve_kind (RSession conn) g = reserve_session conn g"
| "reserve_kind (RStream conn kind) g = reserve_stream conn 0 kind g"
| "reserve_kind (RQueuedBytes conn stream n) g = reserve_event_bytes conn stream n g"

definition reserved :: "governor_inner \<Rightarrow> reservation_kind \<Rightarrow> governor_inner option" where
  "reserved g k = (case reserve_kind k g of (g', Inl _) \<Rightarrow> None | (g', Inr _) \<Rightarrow> Some g')"

lemma reserve_stream_id_irrelevant: "reserve_stream conn s kind g = reserve_stream conn 0 kind g"
  by (simp add: reserve_stream_def)

lemma stream_map_update [simp]:
  "stream_map k (set_stream_map k' m g) = (if k = k' then m else stream_map k g)"
  "stream_map k (g\<lparr>sessions_active := a\<rparr>) = stream_map k g"
  "stream_map k (g\<lparr>handshakes_in_flight := a\<rparr>) = stream_map k g"
  "stream_map k (g\<lparr>streams_active_global := a\<rparr>) = stream_map k g"
  "stream_map k (g\<lparr>queued_bytes_global := a\<rparr>) = stream_map k g"
  "stream_map k (g\<lparr>queued_bytes_per_session := b\<rparr>) = stream_map k g"
  "stream_map k (g\<lparr>queued_bytes_per_stream := d\<rparr>) = stream_map k g"
  "stream_map k (g\<lparr>next_host_token := a\<rparr>) = stream_map k g"
  "stream_map k (g\<lparr>host_tokens := h\<rparr>) = stream_map k g"
  by (cases k; cases k'; simp)+

lemma set_stream_map_fields [simp]:
  "limits (set_stream_map k m g) = limits g"
  "sessions_active (set_stream_map k m g) = sessions_active g"
  "handshakes_in_flight (set_stream_map k m g) = handshakes_in_flight g"
  "streams_active_global (set_stream_map k m g) = streams_active_global g"
  "queued_bytes_global (set_stream_map k m g) = queued_bytes_global g"
  "queued_bytes_per_session (set_stream_map k m g) = queued_bytes_per_session g"
  "queued_bytes_per_stream (set_stream_map k m g) = queued_bytes_per_stream g"
  "host_tokens (set_stream_map k m g) = host_tokens g"
  "next_host_token (set_stream_map k m g) = next_host_token g"
  "host_token_ceiling (set_stream_map k m g) = host_token_ceiling g"
  by (cases k; simp)+

lemma hm_count_decrement_map [simp]:
  "hm_count (decrement_map k m) k' = hm_count m k' - (if k' = k then 1 else 0)"
  by (auto simp: decrement_map_def hm_count_def split: option.splits)

lemma hm_count_decrement_bytes_map [simp]:
  "hm_count (decrement_bytes_map k n m) k' = hm_count m k' - (if k' = k then n else 0)"
  by (auto simp: decrement_bytes_map_def hm_count_def split: option.splits)

lemma hm_get_decrement_map:
  "hm_get (decrement_map k m) k' \<noteq> None \<Longrightarrow>
     hm_get m k' \<noteq> None \<and> (k' = k \<longrightarrow> 0 < hm_count (decrement_map k m) k')"
  by (auto simp: decrement_map_def hm_count_def split: option.splits if_splits)

lemma hm_get_decrement_bytes_map:
  "hm_get (decrement_bytes_map k n m) k' \<noteq> None \<Longrightarrow>
     hm_get m k' \<noteq> None \<and> (k' = k \<longrightarrow> 0 < hm_count (decrement_bytes_map k n m) k')"
  by (auto simp: decrement_bytes_map_def hm_count_def split: option.splits if_splits)

lemma reservedE:
  assumes "reserved g k = Some g'"
  obtains r where "reserve_kind k g = (g', Inr r)"
  using assms by (auto simp: reserved_def split: prod.splits sum.splits)

lemmas reserve_defs =
  reserve_handshake_def reserve_session_def reserve_stream_def reserve_event_bytes_def
  next_stream_bytes_def

lemma reserved_effect:
  assumes "reserved g k = Some g'"
  shows "counter_value g' c = counter_value g c + weight k c" (is ?count)
    and "weight k c = 0 \<or> counter_value g' c \<le> limit_of (limits g) c" (is ?limit)
    and "limits g' = limits g" (is ?limits)
    and "has_entry g' c \<Longrightarrow> has_entry g c \<or> concerns k c"
proof -
  obtain r where r: "reserve_kind k g = (g', Inr r)"
    using assms by (rule reservedE)
  show ?count
    using r by (cases k; cases c)
      (auto simp: reserve_defs weight_def Let_def split: if_splits option.splits sum.splits)
  show ?limit
    using r by (cases k; cases c)
      (auto simp: reserve_defs weight_def Let_def split: if_splits option.splits sum.splits)
  show ?limits
    using r by (cases k) (auto simp: reserve_defs Let_def split: if_splits option.splits sum.splits)
  show "has_entry g' c \<Longrightarrow> has_entry g c \<or> concerns k c"
    using r by (cases k; cases c)
      (auto simp: reserve_defs Let_def split: if_splits option.splits sum.splits)
qed

lemma release_effect:
  shows "counter_value (release_kind g k) c = counter_value g c - weight k c"
    and "limits (release_kind g k) = limits g"
    and "has_entry (release_kind g k) c \<Longrightarrow>
      has_entry g c \<and> (concerns k c \<longrightarrow> 0 < counter_value (release_kind g k) c)"
    and "host_tokens (release_kind g k) = host_tokens g"
    and "next_host_token (release_kind g k) = next_host_token g"
    and "host_token_ceiling (release_kind g k) = host_token_ceiling g"
proof -
  show "counter_value (release_kind g k) c = counter_value g c - weight k c"
    by (cases k; cases c) (auto simp: weight_def split: option.splits)
  show "limits (release_kind g k) = limits g" "host_tokens (release_kind g k) = host_tokens g"
    "next_host_token (release_kind g k) = next_host_token g"
    "host_token_ceiling (release_kind g k) = host_token_ceiling g"
    by (cases k; simp)+
  show "has_entry g c \<and> (concerns k c \<longrightarrow> 0 < counter_value (release_kind g k) c)"
    if "has_entry (release_kind g k) c"
    using that
    by (cases k; cases c)
      (auto split: option.splits if_splits dest: hm_get_decrement_map [OF option.discI]
        hm_get_decrement_bytes_map [OF option.discI])
qed

interpretation governor_ledger:
  keyed_ledger counter_value "\<lambda>g. limit_of (limits g)" weight reserved release_kind has_entry concerns
proof unfold_locales
  fix g k g' c
  assume r: "reserved g k = Some g'"
  show "counter_value g' c = counter_value g c + weight k c"
    by (rule reserved_effect [OF r])
  show "counter_value g c \<le> limit_of (limits g) c \<Longrightarrow> counter_value g' c \<le> limit_of (limits g) c"
    using reserved_effect(1,2) [OF r, of c] by auto
  show "limit_of (limits g') = limit_of (limits g)"
    by (simp add: reserved_effect(3) [OF r])
  show "has_entry g' c \<Longrightarrow> has_entry g c \<or> concerns k c"
    by (rule reserved_effect(4) [OF r])
qed (use release_effect in \<open>simp_all add: weight_def split: if_splits\<close>)

section \<open>Host tokens\<close>

text \<open>The tokens the search still has to try, starting at a candidate.\<close>

definition to_try :: "nat \<Rightarrow> nat \<Rightarrow> nat \<Rightarrow> nat set" where
  "to_try ceiling start candidate =
     (if start \<le> candidate then {candidate..ceiling} \<union> {1..<start} else {candidate..<start})"

lemma token_loop_total:
  assumes "1 \<le> start" and "start \<le> ceiling" and "1 \<le> candidate" and "candidate \<le> ceiling"
  shows "\<exists>r. token_loop tokens ceiling start candidate = Some r \<and>
      (case r of
         Inl e \<Rightarrow> to_try ceiling start candidate \<subseteq> dom (hm_get tokens)
       | Inr (t, f) \<Rightarrow> 1 \<le> t \<and> t \<le> ceiling \<and> hm_get tokens t = None \<and> 1 \<le> f \<and> f \<le> ceiling)"
  using assms
proof (induction "card (to_try ceiling start candidate)" arbitrary: candidate rule: less_induct)
  case less
  define f where "f = (if candidate \<ge> ceiling then 1 else candidate + 1)"
  have f: "1 \<le> f" "f \<le> ceiling"
    using less.prems by (auto simp: f_def)
  have unfold: "token_loop tokens ceiling start candidate =
      (if hm_get tokens candidate = None then Some (Inr (candidate, f))
       else if f = start then Some (Inl ''E_LIMIT_EXCEEDED: host reservation token space exhausted'')
       else token_loop tokens ceiling start f)"
    by (subst token_loop.simps) (simp add: f_def Let_def)
  consider "hm_get tokens candidate = None" | "hm_get tokens candidate \<noteq> None" "f = start"
    | "hm_get tokens candidate \<noteq> None" "f \<noteq> start"
    by blast
  then show ?case
  proof cases
    case 1
    with less.prems f show ?thesis
      by (auto simp: unfold)
  next
    case 2
    then have "to_try ceiling start candidate = {candidate}"
      using less.prems by (auto simp: to_try_def f_def split: if_splits)
    with 2 show ?thesis
      by (auto simp: unfold)
  next
    case 3
    then have ins: "to_try ceiling start candidate = insert candidate (to_try ceiling start f)"
      and new: "candidate \<notin> to_try ceiling start f"
      using less.prems by (auto simp: to_try_def f_def split: if_splits)
    have "finite (to_try ceiling start f)"
      by (simp add: to_try_def)
    then have "card (to_try ceiling start f) < card (to_try ceiling start candidate)"
      using ins new by simp
    from less.hyps [OF this less.prems(1,2) f] 3 ins show ?thesis
      by (auto simp: unfold split: sum.splits)
  qed
qed

lemma allocate_total:
  obtains (fresh) t f where "allocate_host_token g = Some (g\<lparr>next_host_token := f\<rparr>, Inr t)"
      and "1 \<le> t" and "t \<le> max (host_token_ceiling g) 1" and "hm_get (host_tokens g) t = None"
  | (full) e where "allocate_host_token g = Some (g, Inl e)"
      and "{1..max (host_token_ceiling g) 1} \<subseteq> dom (hm_get (host_tokens g))"
proof -
  let ?c = "max (host_token_ceiling g) 1"
  let ?s = "clamp (next_host_token g) 1 ?c"
  have s: "1 \<le> ?s" "?s \<le> ?c"
    by (simp_all add: clamp_def)
  from token_loop_total [OF s s, of "host_tokens g"] obtain r
    where r: "token_loop (host_tokens g) ?c ?s ?s = Some r"
      "case r of Inl e \<Rightarrow> to_try ?c ?s ?s \<subseteq> dom (hm_get (host_tokens g))
       | Inr (t, f) \<Rightarrow> 1 \<le> t \<and> t \<le> ?c \<and> hm_get (host_tokens g) t = None \<and> 1 \<le> f \<and> f \<le> ?c"
    by blast
  have all: "to_try ?c ?s ?s = {1..?c}"
    using s by (auto simp: to_try_def)
  show thesis
  proof (cases r)
    case (Inl e)
    with r all show thesis
      by (intro full [of e]) (simp_all add: allocate_host_token_def Let_def)
  next
    case (Inr tf)
    then obtain t f where "r = Inr (t, f)"
      by (cases tf) auto
    with r show thesis
      by (intro fresh [of f t]) (simp_all add: allocate_host_token_def Let_def)
  qed
qed

text \<open>
  Allocating a host token always returns: it yields a token between 1 and the ceiling that no
  reservation holds, and fails only when every token up to the ceiling is held.
\<close>

theorem allocate_host_token_total:
  "\<exists>g' r. allocate_host_token g = Some (g', r) \<and> host_tokens g' = host_tokens g \<and>
     (case r of
        Inr t \<Rightarrow> 1 \<le> t \<and> t \<le> max (host_token_ceiling g) 1 \<and> hm_get (host_tokens g) t = None
      | Inl e \<Rightarrow> {1..max (host_token_ceiling g) 1} \<subseteq> dom (hm_get (host_tokens g)))"
  by (cases rule: allocate_total [of g]) auto

section \<open>Reservations over time\<close>

text \<open>
  The states of a governor together with the multiset of reservations the endpoint holds. Each
  step is one call; a reservation is moved into \<^verbatim>\<open>drop\<close> or \<^verbatim>\<open>transfer_to_host\<close> at most once, as
  Rust's ownership demands.
\<close>

type_synonym governed = "governor_inner \<times> reservation_kind multiset"

inductive gov_step :: "governed \<Rightarrow> governed \<Rightarrow> bool" where
  Reserve: "reserve_kind k g = (g', Inr r) \<Longrightarrow> gov_step (g, R) (g', add_mset k R)"
| Refuse: "reserve_kind k g = (g', Inl e) \<Longrightarrow> gov_step (g, R) (g', R)"
| Drop: "gov_step (g, add_mset k R) (reservation_drop (reservation_new k) g, R)"
| Transfer: "transfer_to_host (reservation_new k) g = Some (g', r) \<Longrightarrow> gov_step (g, add_mset k R) (g', R)"
| Release: "release_host_token t g = (g', b) \<Longrightarrow> gov_step (g, R) (g', R)"
| Release_All: "release_all_host_tokens g = (g', n) \<Longrightarrow> gov_step (g, R) (g', R)"

inductive gov_reachable :: "wasm_limits \<Rightarrow> governed \<Rightarrow> bool" for l where
  Start: "governor_new l = Inr g \<Longrightarrow> gov_reachable l (g, {#})"
| Step: "gov_reachable l x \<Longrightarrow> gov_step x y \<Longrightarrow> gov_reachable l y"

inductive_cases gov_stepE: "gov_step (g, R) (g', R')"

definition outstanding :: "governor_inner \<Rightarrow> reservation_kind multiset \<Rightarrow> reservation_kind multiset" where
  "outstanding g R = R + mset (map snd (host_tokens g))"

definition gov_ok :: "wasm_limits \<Rightarrow> governed \<Rightarrow> bool" where
  "gov_ok l = (\<lambda>(g, R). hm_ok (host_tokens g) \<and> limits g = l \<and> host_token_ceiling g = 4294967295 \<and>
     governor_ledger.justified g (outstanding g R))"

lemma counters_frame [simp]:
  "counter_value (g\<lparr>host_tokens := h\<rparr>) = counter_value g"
  "counter_value (g\<lparr>next_host_token := n\<rparr>) = counter_value g"
  "has_entry (g\<lparr>host_tokens := h\<rparr>) = has_entry g"
  "has_entry (g\<lparr>next_host_token := n\<rparr>) = has_entry g"
proof -
  have "counter_value (g\<lparr>host_tokens := h\<rparr>) c = counter_value g c"
    "counter_value (g\<lparr>next_host_token := n\<rparr>) c = counter_value g c"
    "has_entry (g\<lparr>host_tokens := h\<rparr>) c = has_entry g c"
    "has_entry (g\<lparr>next_host_token := n\<rparr>) c = has_entry g c" for c
    by (cases c; simp)+
  then show "counter_value (g\<lparr>host_tokens := h\<rparr>) = counter_value g"
    "counter_value (g\<lparr>next_host_token := n\<rparr>) = counter_value g"
    "has_entry (g\<lparr>host_tokens := h\<rparr>) = has_entry g"
    "has_entry (g\<lparr>next_host_token := n\<rparr>) = has_entry g"
    by blast+
qed

lemma justified_frame [simp]:
  "governor_ledger.justified (g\<lparr>host_tokens := h\<rparr>) L = governor_ledger.justified g L"
  "governor_ledger.justified (g\<lparr>next_host_token := n\<rparr>) L = governor_ledger.justified g L"
  by (simp_all add: governor_ledger.justified_def governor_ledger.balanced_def)

lemma reserve_kind_frame:
  assumes "reserve_kind k g = (g', r)"
  shows "host_tokens g' = host_tokens g" and "r = Inl e \<Longrightarrow> g' = g"
    and "host_token_ceiling g' = host_token_ceiling g"
  using assms
  by (cases k; auto simp: reserve_defs Let_def split: if_splits option.splits sum.splits)+

lemma gov_ok_release:
  assumes "hm_ok (host_tokens g)" "limits g = l" "host_token_ceiling g = 4294967295"
    and "governor_ledger.justified g (add_mset k (outstanding g R))"
  shows "gov_ok l (release_kind g k, R)"
  using assms release_effect [of g k]
  by (simp add: gov_ok_def outstanding_def governor_ledger.justified_release)

lemma gov_ok_transfer:
  assumes "gov_ok l (g, add_mset k R)" and "transfer_to_host (reservation_new k) g = Some (g', r)"
  shows "gov_ok l (g', R)"
proof -
  have ok: "hm_ok (host_tokens g)" "limits g = l" "host_token_ceiling g = 4294967295"
    "governor_ledger.justified g (add_mset k (outstanding g R))"
    using assms(1) by (simp_all add: gov_ok_def outstanding_def)
  show ?thesis
  proof (cases k)
    case (RQueuedBytes conn stream n)
    show ?thesis
    proof (cases rule: allocate_total [of g])
      case (fresh t f)
      then have "g' = g\<lparr>next_host_token := f, host_tokens := hm_insert t k (host_tokens g)\<rparr>"
        using assms(2) RQueuedBytes by (simp add: transfer_to_host_def reservation_new_def)
      then show ?thesis
        using ok hm_values_insert_new [OF fresh(4), of k] by (simp add: gov_ok_def outstanding_def)
    next
      case (full e)
      then have "g' = release_kind g k"
        using assms(2) RQueuedBytes by (simp add: transfer_to_host_def reservation_new_def)
      then show ?thesis
        using gov_ok_release [OF ok] by simp
    qed
  qed (use assms(2) gov_ok_release [OF ok] in
      \<open>simp_all add: transfer_to_host_def reservation_new_def reservation_drop_def\<close>)
qed

lemma gov_ok_release_token:
  assumes "gov_ok l (g, R)"
  shows "gov_ok l (fst (release_host_token t g), R)"
proof (cases "hm_get (host_tokens g) t")
  case None
  then show ?thesis
    using assms by (simp add: release_host_token_def release_host_token_with_context_def)
next
  case (Some k)
  let ?g = "g\<lparr>host_tokens := hm_remove t (host_tokens g)\<rparr>"
  have "add_mset k (outstanding ?g R) = outstanding g R"
    using hm_values_remove [OF _ Some] assms by (simp add: gov_ok_def outstanding_def)
  then have "gov_ok l (release_kind ?g k, R)"
    using assms by (intro gov_ok_release) (simp_all add: gov_ok_def)
  then show ?thesis
    using Some by (simp add: release_host_token_def release_host_token_with_context_def)
qed

lemma release_list_frame:
  "host_tokens (foldl release_kind g ks) = host_tokens g" "limits (foldl release_kind g ks) = limits g"
  "host_token_ceiling (foldl release_kind g ks) = host_token_ceiling g"
  "next_host_token (foldl release_kind g ks) = next_host_token g"
  by (induction ks arbitrary: g) (simp_all add: release_effect)

lemma gov_ok_release_all:
  assumes "gov_ok l (g, R)"
  shows "gov_ok l (fst (release_all_host_tokens g), R)"
proof -
  have "governor_ledger.justified (g\<lparr>host_tokens := []\<rparr>) (mset (map snd (host_tokens g)) + R)"
    using assms by (simp add: gov_ok_def outstanding_def add.commute)
  then have "governor_ledger.justified
      (foldl release_kind (g\<lparr>host_tokens := []\<rparr>) (map snd (host_tokens g))) R"
    by (rule governor_ledger.justified_release_list)
  then show ?thesis
    using assms by (simp add: gov_ok_def outstanding_def release_all_host_tokens_def Let_def release_list_frame)
qed

lemma gov_ok_step: "gov_step x y \<Longrightarrow> gov_ok l x \<Longrightarrow> gov_ok l y"
proof (induction rule: gov_step.induct)
  case (Reserve k g g' r R)
  then have r: "reserved g k = Some g'"
    by (simp add: reserved_def)
  then show ?case
    using Reserve.prems governor_ledger.justified_reserve [OF _ r] reserve_kind_frame(1,3) [OF Reserve.hyps]
      reserved_effect(3) [OF r]
    by (simp add: gov_ok_def outstanding_def)
next
  case (Refuse k g g' e R)
  then show ?case
    using reserve_kind_frame(2) [OF Refuse.hyps refl] by simp
next
  case (Drop g k R)
  then show ?case
    using gov_ok_release [of g l k R]
    by (simp add: reservation_drop_def reservation_new_def gov_ok_def outstanding_def)
next
  case (Transfer k g g' r R)
  from Transfer.prems Transfer.hyps show ?case
    by (rule gov_ok_transfer)
next
  case (Release t g g' b R)
  then show ?case
    using gov_ok_release_token [of l g R t] by simp
next
  case (Release_All g g' n R)
  then show ?case
    using gov_ok_release_all [of l g R] by simp
qed

lemma gov_ok_reachable: "gov_reachable l x \<Longrightarrow> gov_ok l x"
proof (induction rule: gov_reachable.induct)
  case (Start g)
  have "counter_value g c = 0 \<and> \<not> has_entry g c" for c
    using Start by (cases c; cases "case c of StreamsOf k _ \<Rightarrow> k | _ \<Rightarrow> Bidi")
      (auto simp: governor_new_def split: sum.splits)
  then show ?case
    using Start
    by (auto simp: gov_ok_def outstanding_def governor_new_def governor_ledger.justified_def
        governor_ledger.balanced_def split: sum.splits)
next
  case (Step x y)
  then show ?case
    by (simp add: gov_ok_step)
qed

text \<open>
  C28. Conservation. In every reachable state each counter of the governor (handshakes, sessions,
  streams in all and per session and kind, queued bytes in all, per session and per stream) is
  exactly the sum over the outstanding reservations, those the endpoint holds and those behind
  host tokens, and is within its configured limit.
\<close>

theorem governor_conserves:
  assumes "gov_reachable l (g, R)"
  shows "counter_value g c = (\<Sum>k\<in>#R + mset (map snd (host_tokens g)). weight k c) \<and>
      counter_value g c \<le> limit_of l c"
  using gov_ok_reachable [OF assms] governor_ledger.balancedD [of g "outstanding g R" c]
  by (simp add: gov_ok_def outstanding_def governor_ledger.justified_def)

lemma hm_empty: "(\<And>k. hm_get m k = None) \<Longrightarrow> m = []"
  by (simp add: fun_eq_iff flip: map_of_eq_empty_iff)

lemma drained:
  assumes "governor_new l = Inr g0" and "gov_ok l (g, {#})" and "host_tokens g = []"
  shows "g = g0\<lparr>next_host_token := next_host_token g\<rparr>"
proof -
  have j: "governor_ledger.justified g {#}" and "limits g = l" and "host_token_ceiling g = 4294967295"
    using assms(2,3) by (simp_all add: gov_ok_def outstanding_def)
  have z: "counter_value g c = 0" and e: "\<not> has_entry g c" for c
    using j governor_ledger.justified_empty governor_ledger.balanced_empty governor_ledger.justified_def
    by blast+
  have "streams_bidi_per_session g = []" "streams_uni_per_session g = []"
    "queued_bytes_per_session g = []" "queued_bytes_per_stream g = []"
    using e [of "StreamsOf Bidi _"] e [of "StreamsOf Uni _"] e [of "BytesOf _"] e [of "BytesOfStream _ _"]
    by (auto intro!: hm_empty)
  then show ?thesis
    using assms(1,3) z [of Handshakes] z [of Sessions] z [of Streams] z [of Bytes] \<open>limits g = l\<close>
      \<open>host_token_ceiling g = 4294967295\<close>
    by (auto simp: governor_new_def split: sum.splits)
qed

text \<open>
  C29. Nothing leaks. Once the endpoint holds no reservation, releasing all host tokens brings the
  governor back to its initial state, all counters zero and all maps empty; only the next token to
  try differs. The call reports how many tokens it released.
\<close>

theorem governor_drains:
  assumes "gov_reachable l (g, {#})" and "governor_new l = Inr g0"
  shows "release_all_host_tokens g = (g0\<lparr>next_host_token := next_host_token g\<rparr>, length (host_tokens g))"
proof -
  have "host_tokens (fst (release_all_host_tokens g)) = []"
    "next_host_token (fst (release_all_host_tokens g)) = next_host_token g"
    by (simp_all add: release_all_host_tokens_def Let_def release_list_frame)
  with drained [OF assms(2) gov_ok_release_all [OF gov_ok_reachable [OF assms(1)]]]
  have "fst (release_all_host_tokens g) = g0\<lparr>next_host_token := next_host_token g\<rparr>"
    by simp
  then show ?thesis
    by (simp add: release_all_host_tokens_def Let_def prod_eq_iff)
qed

lemma reserve_event_bytes_ok_iff:
  "(\<exists>g' r. reserve_event_bytes conn stream n g = (g', Inr r)) \<longleftrightarrow>
     queued_bytes_global g + n \<le> usize_MAX \<and> queued_bytes_global g + n \<le> max_queued_bytes_global (limits g) \<and>
     hm_count (queued_bytes_per_session g) conn + n \<le> usize_MAX \<and>
     hm_count (queued_bytes_per_session g) conn + n \<le> max_queued_bytes_per_session (limits g) \<and>
     (case stream of
        None \<Rightarrow> True
      | Some s \<Rightarrow> hm_count (queued_bytes_per_stream g) (conn, s) + n \<le> usize_MAX \<and>
          hm_count (queued_bytes_per_stream g) (conn, s) + n \<le> max_queued_bytes_per_stream (limits g))"
  by (auto simp: reserve_event_bytes_def next_stream_bytes_def checked_add_def split: option.splits)

lemma reserve_iff_available:
  assumes "gov_ok l (g, R)" and "max_queued_bytes_global l \<le> usize_MAX" and "wasm_limits_validate l = Inr ()"
  shows "(\<exists>g' r. reserve_event_bytes conn stream n g = (g', Inr r)) \<longleftrightarrow> n \<le> available_event_bytes conn stream g"
proof -
  have l: "limits g = l"
    using assms(1) by (simp add: gov_ok_def)
  have cnt: "counter_value g c \<le> limit_of l c" for c
    using assms(1) governor_ledger.balancedD(2) [of g "outstanding g R" c]
    by (simp add: gov_ok_def governor_ledger.justified_def)
  note lim = wasm_limits_validateD(5,6) [OF assms(3)] assms(2)
  show ?thesis
  proof (cases stream)
    case None
    then show ?thesis
      using cnt [of Bytes] cnt [of "BytesOf conn"] lim l
      unfolding reserve_event_bytes_ok_iff by (auto simp: available_event_bytes_def Let_def)
  next
    case (Some s)
    then show ?thesis
      using cnt [of Bytes] cnt [of "BytesOf conn"] cnt [of "BytesOfStream conn s"] lim l
      unfolding reserve_event_bytes_ok_iff by (auto simp: available_event_bytes_def Let_def)
  qed
qed

text \<open>
  C30. The backpressure probe is exact: in every reachable state of a governor whose global byte
  limit fits a \<^verbatim>\<open>usize\<close>, a reservation of \<open>n\<close> event bytes succeeds if and only if \<open>n\<close> is at most
  what \<^verbatim>\<open>available_event_bytes\<close> reported.
\<close>

theorem available_event_bytes_exact:
  assumes "gov_reachable l (g, R)" and "max_queued_bytes_global l \<le> usize_MAX"
    and "wasm_limits_validate l = Inr ()"
  shows "(\<exists>g' r. reserve_event_bytes conn stream n g = (g', Inr r))
     \<longleftrightarrow> n \<le> available_event_bytes conn stream g"
  by (rule reserve_iff_available [OF gov_ok_reachable [OF assms(1)] assms(2,3)])

text \<open>
  C31. A host token is released at most once: releasing it again answers \<^verbatim>\<open>false\<close> and leaves the
  governor as it is, so a double release by the host frees nothing twice.
\<close>

theorem host_token_released_once:
  "release_host_token t (fst (release_host_token t g)) = (fst (release_host_token t g), False)"
proof (cases "hm_get (host_tokens g) t")
  case None
  then show ?thesis
    by (simp add: release_host_token_def release_host_token_with_context_def)
next
  case (Some k)
  then have "host_tokens (fst (release_host_token t g)) = hm_remove t (host_tokens g)"
    by (simp add: release_host_token_def release_host_token_with_context_def release_effect)
  then have "hm_get (host_tokens (fst (release_host_token t g))) t = None"
    by simp
  then show ?thesis
    by (simp add: release_host_token_def [of t "fst (release_host_token t g)"]
        release_host_token_with_context_def [of t "fst (release_host_token t g)"])
qed

section \<open>A sample run\<close>

abbreviation sample_kind :: reservation_kind where
  "sample_kind \<equiv> RQueuedBytes 1 (Some 2) 10"

lemma sample_run:
  obtains g0 g1 g2 where "governor_new wasm_limits_default = Inr g0"
    and "gov_reachable wasm_limits_default (g1, {#sample_kind#})"
    and "gov_reachable wasm_limits_default (g2, {#})"
    and "host_tokens g1 = []" and "host_tokens g2 = [(1, sample_kind)]" and "next_host_token g2 = 2"
proof -
  obtain g0 where g0: "governor_new wasm_limits_default = Inr g0"
    by (simp add: governor_new_def wasm_limits_default_valid)
  then have f: "limits g0 = wasm_limits_default" "queued_bytes_global g0 = 0" "next_host_token g0 = 1"
    "queued_bytes_per_session g0 = []" "queued_bytes_per_stream g0 = []" "host_tokens g0 = []"
    "host_token_ceiling g0 = 4294967295"
    by (auto simp: governor_new_def split: sum.splits)
  then obtain g1 r where g1: "reserve_kind sample_kind g0 = (g1, Inr r)"
    by (simp add: reserve_event_bytes_def next_stream_bytes_def checked_add_def usize_MAX_def
        wasm_limits_default_def)
  then have g1f: "host_tokens g1 = []" "next_host_token g1 = 1" "host_token_ceiling g1 = 4294967295"
    using f by (auto simp: reserve_event_bytes_def next_stream_bytes_def split: option.splits if_splits)
  have tok: "token_loop [] c s s = Some (Inr (s, if s \<ge> c then 1 else s + 1))" for c s
    by (subst token_loop.simps) simp
  obtain g2 where g2: "transfer_to_host (reservation_new sample_kind) g1 = Some (g2, Inr 1)"
    and g2f: "host_tokens g2 = [(1, sample_kind)]" "next_host_token g2 = 2"
    using g1f by (simp add: transfer_to_host_def reservation_new_def allocate_host_token_def tok clamp_def)
  have 1: "gov_reachable wasm_limits_default (g1, {#sample_kind#})"
    using gov_reachable.Step [OF gov_reachable.Start [OF g0] gov_step.Reserve [OF g1]] by simp
  have 2: "gov_reachable wasm_limits_default (g2, {#})"
    by (rule gov_reachable.Step [OF 1 gov_step.Transfer [OF g2]])
  from that [OF g0 1 2 g1f(1) g2f] show thesis .
qed

theorem governor_conserves_witness:
  "\<exists>g. gov_reachable wasm_limits_default (g, {#sample_kind#}) \<and>
     counter_value g (BytesOfStream 1 2) = 10"
proof (rule sample_run)
  fix g0 g1 g2
  assume "gov_reachable wasm_limits_default (g1, {#sample_kind#})" and "host_tokens g1 = []"
  then show ?thesis
    using governor_conserves [of wasm_limits_default g1 "{#sample_kind#}" "BytesOfStream 1 2"]
    by (intro exI [of _ g1]) (simp add: weight_def)
qed

theorem governor_drains_witness:
  "\<exists>g g0. gov_reachable wasm_limits_default (g, {#}) \<and> governor_new wasm_limits_default = Inr g0 \<and>
     release_all_host_tokens g = (g0\<lparr>next_host_token := 2\<rparr>, 1)"
proof (rule sample_run)
  fix g0 g1 g2
  assume "governor_new wasm_limits_default = Inr g0" and "gov_reachable wasm_limits_default (g2, {#})"
    and "host_tokens g2 = [(1, sample_kind)]" and "next_host_token g2 = 2"
  then show ?thesis
    using governor_drains [of wasm_limits_default g2 g0] by (intro exI [of _ g2] exI [of _ g0]) simp
qed

theorem available_event_bytes_exact_witness:
  "\<exists>g. gov_reachable wasm_limits_default (g, {#sample_kind#}) \<and>
     ((\<exists>g' r. reserve_event_bytes 1 (Some 2) 7 g = (g', Inr r))
        \<longleftrightarrow> 7 \<le> available_event_bytes 1 (Some 2) g)"
proof (rule sample_run)
  fix g0 g1 g2
  assume g1: "gov_reachable wasm_limits_default (g1, {#sample_kind#})"
  have "max_queued_bytes_global wasm_limits_default \<le> usize_MAX"
    by (simp add: wasm_limits_default_def usize_MAX_def)
  from available_event_bytes_exact [OF g1 this wasm_limits_default_valid] g1 show ?thesis
    by blast
qed

end
