(* ===== verification/Event_Queue.thy ===== *)
theory Event_Queue
  imports Event_Host Governor
begin

text \<open>
  The queue of host events in the endpoint (\<^verbatim>\<open>events\<close>, \<^verbatim>\<open>event_reservations\<close> of
  \<^verbatim>\<open>crates/wasm/src/endpoint.rs\<close>): pushing an event with its byte reservation, polling it with the
  reservation turned into a host token, and releasing that token. The theory composes the governor,
  the event encoder and the JavaScript decoder.

  The operations here are the part of \<^verbatim>\<open>poll_event\<close>, \<^verbatim>\<open>poll_event_encoded\<close> and
  \<^verbatim>\<open>release_host_token\<close> that works on the queue and the governor. A poll of an encoded event is one round,
  up to the hand-over, and \<open>Poll_Lost\<close> reports a failed token allocation. The loop around the rounds,
  the closing of a connection whose event is lost, and the wake-up of waiting connections that follows
  each of the three operations, belong to the endpoint: \<open>ep_poll_event\<close>, \<open>ep_poll_event_encoded\<close> and
  \<open>ep_release_host_token\<close> of \<open>Endpoint_Host\<close>.
\<close>

definition MAX_PENDING_EVENTS :: nat where
  "MAX_PENDING_EVENTS = 65536"

record event_queue =
  events :: "wt_event list"
  event_reservations :: "reservation option list"
  governor :: governor_inner
  last_error :: "string option"

definition datagram_event_charge :: "bytes \<Rightarrow> nat" where
  "datagram_event_charge data = max (length data) 1"

definition stream_event_charge :: "bytes \<Rightarrow> bool \<Rightarrow> nat" where
  "stream_event_charge data fin = (if data = [] \<and> fin then 0 else max (length data) 1)"

fun event_reservation :: "wt_event \<Rightarrow> governor_inner \<Rightarrow> governor_inner \<times> (string + reservation option)" where
  "event_reservation (Datagram conn sid data) g =
     (case reserve_event_bytes conn None (datagram_event_charge data) g of
        (g, Inl e) \<Rightarrow> (g, Inl e) | (g, Inr r) \<Rightarrow> (g, Inr (Some r)))"
| "event_reservation (StreamData conn stream fin data) g =
     (case reserve_event_bytes conn (Some stream) (stream_event_charge data fin) g of
        (g, Inl e) \<Rightarrow> (g, Inl e) | (g, Inr r) \<Rightarrow> (g, Inr (Some r)))"
| "event_reservation _ g = (g, Inr None)"

definition try_push_event :: "wt_event \<Rightarrow> event_queue \<Rightarrow> event_queue \<times> (string + unit)" where
  "try_push_event ev q =
     (if length (events q) \<ge> MAX_PENDING_EVENTS then
        (q, Inl ''E_QUEUE_FULL: event queue item cap reached'')
      else case event_reservation ev (governor q) of
        (g, Inl e) \<Rightarrow> (q\<lparr>governor := g\<rparr>, Inl e)
      | (g, Inr host_reservation) \<Rightarrow>
          (q\<lparr>governor := g, events := events q @ [ev],
             event_reservations := event_reservations q @ [host_reservation]\<rparr>, Inr ()))"

definition push_event :: "wt_event \<Rightarrow> event_queue \<Rightarrow> event_queue" where
  "push_event ev q =
     (case try_push_event ev q of (q, Inl e) \<Rightarrow> q\<lparr>last_error := Some e\<rparr> | (q, Inr _) \<Rightarrow> q)"

text \<open>\<^verbatim>\<open>pop_front().flatten()\<close> on the reservations.\<close>

definition pop_reservation :: "event_queue \<Rightarrow> reservation option \<times> event_queue" where
  "pop_reservation q =
     (case event_reservations q of
        [] \<Rightarrow> (None, q)
      | r # rs \<Rightarrow> (r, q\<lparr>event_reservations := rs\<rparr>))"

definition poll_event :: "event_queue \<Rightarrow> event_queue \<times> wt_event option" where
  "poll_event q =
     (case events q of
        [] \<Rightarrow> (q, None)
      | ev # evs \<Rightarrow>
          (case pop_reservation (q\<lparr>events := evs\<rparr>) of
             (None, q) \<Rightarrow> (q, Some ev)
           | (Some r, q) \<Rightarrow> (q\<lparr>governor := reservation_drop r (governor q)\<rparr>, Some ev)))"

datatype poll_outcome =
    Poll_Empty
  | Poll_Encoded bytes
  | Poll_Lost wt_event
  | Poll_Diverges

definition poll_event_encoded :: "event_queue \<Rightarrow> event_queue \<times> poll_outcome" where
  "poll_event_encoded q =
     (case events q of
        [] \<Rightarrow> (q, Poll_Empty)
      | ev # evs \<Rightarrow>
          (case pop_reservation (q\<lparr>events := evs\<rparr>) of
             (None, q) \<Rightarrow> (q, Poll_Encoded (encode_with_host_token ev None))
           | (Some r, q) \<Rightarrow>
               (case transfer_to_host r (governor q) of
                  None \<Rightarrow> (q, Poll_Diverges)
                | Some (g, Inl error) \<Rightarrow> (q\<lparr>governor := g, last_error := Some error\<rparr>, Poll_Lost ev)
                | Some (g, Inr token) \<Rightarrow>
                    (q\<lparr>governor := g\<rparr>,
                     Poll_Encoded (encode_with_host_token ev (Some (word_of_nat token)))))))"

definition queue_release_host_token :: "nat \<Rightarrow> event_queue \<Rightarrow> event_queue \<times> bool" where
  "queue_release_host_token token q =
     (case release_host_token_with_context token (governor q) of
        (g, None) \<Rightarrow> (q\<lparr>governor := g\<rparr>, False)
      | (g, Some _) \<Rightarrow> (q\<lparr>governor := g\<rparr>, True))"

definition has_event_slot_capacity :: "nat \<Rightarrow> event_queue \<Rightarrow> bool" where
  "has_event_slot_capacity slots q \<longleftrightarrow> sat_add usize_MAX (length (events q)) slots \<le> MAX_PENDING_EVENTS"

section \<open>Accounting of the queue\<close>

text \<open>The reservation an event holds while it is queued.\<close>

fun event_kind :: "wt_event \<Rightarrow> reservation_kind option" where
  "event_kind (Datagram conn sid data) = Some (RQueuedBytes conn None (datagram_event_charge data))"
| "event_kind (StreamData conn stream fin data) =
     Some (RQueuedBytes conn (Some stream) (stream_event_charge data fin))"
| "event_kind _ = None"

definition queued_kinds :: "wt_event list \<Rightarrow> reservation_kind multiset" where
  "queued_kinds evs = mset (List.map_filter event_kind evs)"

text \<open>Steps of the queue: pushes, both kinds of polls, and releases by the host.\<close>

inductive queue_step :: "event_queue \<Rightarrow> event_queue \<Rightarrow> bool" where
  Push: "queue_step q (push_event ev q)"
| Poll: "poll_event q = (q', r) \<Longrightarrow> queue_step q q'"
| Poll_Enc: "poll_event_encoded q = (q', r) \<Longrightarrow> queue_step q q'"
| Release: "queue_release_host_token t q = (q', b) \<Longrightarrow> queue_step q q'"

inductive queue_reachable :: "wasm_limits \<Rightarrow> event_queue \<Rightarrow> bool" for l where
  Start: "governor_new l = Inr g \<Longrightarrow>
    queue_reachable l \<lparr>events = [], event_reservations = [], governor = g, last_error = None\<rparr>"
| Step: "queue_reachable l q \<Longrightarrow> queue_step q q' \<Longrightarrow> queue_reachable l q'"

text \<open>\<open>R\<close> are the reservations that live outside the queue.\<close>

definition queue_ok :: "wasm_limits \<Rightarrow> reservation_kind multiset \<Rightarrow> event_queue \<Rightarrow> bool" where
  "queue_ok l R q \<longleftrightarrow> length (events q) \<le> MAX_PENDING_EVENTS \<and>
     event_reservations q = map (map_option reservation_new \<circ> event_kind) (events q) \<and>
     gov_ok l (governor q, R + queued_kinds (events q))"

lemma queued_kinds_simps [simp]:
  "queued_kinds [] = {#}"
  "queued_kinds (ev # evs) = (case event_kind ev of None \<Rightarrow> queued_kinds evs | Some k \<Rightarrow> add_mset k (queued_kinds evs))"
  "queued_kinds (evs @ evs') = queued_kinds evs + queued_kinds evs'"
  by (simp_all add: queued_kinds_def map_filter_simps split: option.splits) (simp add: List.map_filter_def)

lemma reserve_kind_result:
  "reserve_kind k g = (g', Inr r) \<Longrightarrow> r = reservation_new k"
  by (cases k) (auto simp: reserve_defs Let_def split: if_splits option.splits sum.splits)

lemma event_reservation_cases:
  obtains (none) "event_kind ev = None" "event_reservation ev g = (g, Inr None)"
  | (refused) k g' e where "event_kind ev = Some k" "reserve_kind k g = (g', Inl e)"
      "event_reservation ev g = (g', Inl e)"
  | (reserved) k g' where "event_kind ev = Some k" "reserve_kind k g = (g', Inr (reservation_new k))"
      "event_reservation ev g = (g', Inr (Some (reservation_new k)))"
proof (cases "event_kind ev")
  case None
  then show thesis
    by (cases ev) (auto intro: none)
next
  case (Some k)
  obtain g' r where r: "reserve_kind k g = (g', r)"
    by fastforce
  have ev: "event_reservation ev g = (g', map_sum id Some r)"
    using Some r by (cases ev; cases r) auto
  show thesis
  proof (cases r)
    case (Inl e)
    with Some r ev show thesis
      by (intro refused) auto
  next
    case (Inr x)
    with Some r ev reserve_kind_result show thesis
      by (intro reserved) auto
  qed
qed

lemma queue_ok_try_push:
  assumes "queue_ok l R q"
  shows "queue_ok l R (fst (try_push_event ev q))"
proof (cases "length (events q) \<ge> MAX_PENDING_EVENTS")
  case True
  then show ?thesis
    using assms by (simp add: try_push_event_def queue_ok_def)
next
  case False
  have ok: "gov_ok l (governor q, R + queued_kinds (events q))"
    using assms by (simp add: queue_ok_def)
  show ?thesis
  proof (cases rule: event_reservation_cases [of ev "governor q"])
    case none
    then show ?thesis
      using assms False by (simp add: try_push_event_def queue_ok_def)
  next
    case (refused k g' e)
    then show ?thesis
      using assms False reserve_kind_frame(2) [OF refused(2) refl]
      by (simp add: try_push_event_def queue_ok_def)
  next
    case (reserved k g')
    from gov_ok_step [OF gov_step.Reserve [OF reserved(2)] ok] show ?thesis
      using assms False reserved by (simp add: try_push_event_def queue_ok_def)
  qed
qed

lemma queue_ok_last_error [simp]: "queue_ok l R (q\<lparr>last_error := x\<rparr>) \<longleftrightarrow> queue_ok l R q"
  by (simp add: queue_ok_def)

lemma queue_ok_push:
  assumes "queue_ok l R q"
  shows "queue_ok l R (push_event ev q)"
  using queue_ok_try_push [OF assms, of ev] by (auto simp: push_event_def split: prod.split sum.split)

lemma queue_ok_head:
  assumes "queue_ok l R q" and "events q = ev # evs"
  shows "pop_reservation (q\<lparr>events := evs\<rparr>) = (map_option reservation_new (event_kind ev),
      q\<lparr>events := evs, event_reservations := map (map_option reservation_new \<circ> event_kind) evs\<rparr>)"
    and "gov_ok l (governor q, R + (case event_kind ev of None \<Rightarrow> queued_kinds evs | Some k \<Rightarrow> add_mset k (queued_kinds evs)))"
    and "length evs \<le> MAX_PENDING_EVENTS"
  using assms by (simp_all add: queue_ok_def pop_reservation_def)

lemma queue_ok_poll:
  assumes "queue_ok l R q"
  shows "queue_ok l R (fst (poll_event q))"
proof (cases "events q")
  case Nil
  then show ?thesis
    using assms by (simp add: poll_event_def)
next
  case (Cons ev evs)
  note h = queue_ok_head [OF assms Cons]
  show ?thesis
  proof (cases "event_kind ev")
    case None
    then show ?thesis
      using h Cons by (simp add: poll_event_def queue_ok_def)
  next
    case (Some k)
    then have "gov_ok l (reservation_drop (reservation_new k) (governor q), R + queued_kinds evs)"
      using h(2) gov_ok_step [OF gov_step.Drop] by simp
    then show ?thesis
      using h Cons Some by (simp add: poll_event_def queue_ok_def)
  qed
qed

lemma transfer_total: "\<exists>g' r. transfer_to_host (reservation_new k) g = Some (g', r)"
proof (cases k)
  case (RQueuedBytes conn stream n)
  then show ?thesis
    by (cases rule: allocate_total [of g]) (auto simp: transfer_to_host_def reservation_new_def)
qed (simp_all add: transfer_to_host_def reservation_new_def)

lemma queue_ok_poll_encoded:
  assumes "queue_ok l R q"
  shows "queue_ok l R (fst (poll_event_encoded q))" and "snd (poll_event_encoded q) \<noteq> Poll_Diverges"
proof -
  have "queue_ok l R (fst (poll_event_encoded q)) \<and> snd (poll_event_encoded q) \<noteq> Poll_Diverges"
  proof (cases "events q")
    case Nil
    then show ?thesis
      using assms by (simp add: poll_event_encoded_def)
  next
    case (Cons ev evs)
    note h = queue_ok_head [OF assms Cons]
    show ?thesis
    proof (cases "event_kind ev")
      case None
      then show ?thesis
        using h Cons by (simp add: poll_event_encoded_def queue_ok_def)
    next
      case (Some k)
      obtain g' r where t: "transfer_to_host (reservation_new k) (governor q) = Some (g', r)"
        using transfer_total by blast
      have "gov_ok l (g', R + queued_kinds evs)"
        using h(2) Some gov_ok_transfer [OF _ t] by simp
      then show ?thesis
        using h Cons Some t by (cases r) (simp_all add: poll_event_encoded_def queue_ok_def)
    qed
  qed
  then show "queue_ok l R (fst (poll_event_encoded q))" and "snd (poll_event_encoded q) \<noteq> Poll_Diverges"
    by blast+
qed

lemma queue_release_governor:
  "governor (fst (queue_release_host_token t q)) = fst (release_host_token t (governor q))"
  "events (fst (queue_release_host_token t q)) = events q"
  "event_reservations (fst (queue_release_host_token t q)) = event_reservations q"
  "snd (queue_release_host_token t q) = snd (release_host_token t (governor q))"
  by (simp_all add: queue_release_host_token_def release_host_token_def split: prod.splits option.splits)

lemma queue_ok_step: "queue_step q q' \<Longrightarrow> queue_ok l R q \<Longrightarrow> queue_ok l R q'"
proof (induction rule: queue_step.induct)
  case (Push q ev)
  then show ?case
    by (rule queue_ok_push)
next
  case (Poll q q' r)
  then show ?case
    using queue_ok_poll [of l R q] by simp
next
  case (Poll_Enc q q' r)
  then show ?case
    using queue_ok_poll_encoded(1) [of l R q] by simp
next
  case (Release t q q' b)
  then show ?case
    using queue_release_governor [of t q] gov_ok_release_token [of l "governor q" "R + queued_kinds (events q)" t]
    by (simp add: queue_ok_def)
qed

lemma queue_ok_reachable: "queue_reachable l q \<Longrightarrow> queue_ok l {#} q"
proof (induction rule: queue_reachable.induct)
  case (Start g)
  then show ?case
    using gov_ok_reachable [OF gov_reachable.Start [OF Start]]
    by (simp add: queue_ok_def MAX_PENDING_EVENTS_def)
next
  case (Step q q')
  then show ?case
    by (simp add: queue_ok_step)
qed

text \<open>
  C34. The event queue never holds more than 65536 events, events and reservations stay paired,
  and each byte counter of the governor is exactly what the queued events and the tokens held by
  the host account for, within its limit. Polling always returns.
\<close>

theorem event_queue_accounting:
  assumes "queue_reachable l q"
  shows "length (events q) \<le> MAX_PENDING_EVENTS \<and> length (event_reservations q) = length (events q) \<and>
      counter_value (governor q) c
        = (\<Sum>k\<in>#queued_kinds (events q) + mset (map snd (host_tokens (governor q))). weight k c) \<and>
      counter_value (governor q) c \<le> limit_of l c \<and>
      snd (poll_event_encoded q) \<noteq> Poll_Diverges"
  using queue_ok_reachable [OF assms] queue_ok_poll_encoded(2) [OF queue_ok_reachable [OF assms]]
    governor_ledger.balancedD [of "governor q" "outstanding (governor q) (queued_kinds (events q))" c]
  by (auto simp: queue_ok_def gov_ok_def outstanding_def governor_ledger.justified_def)

lemma unat_token:
  assumes "1 \<le> t" and "t \<le> 4294967295"
  shows "unat (word_of_nat t :: u32) = t" and "(word_of_nat t :: u32) \<noteq> 0"
proof -
  show "unat (word_of_nat t :: u32) = t"
    using assms by (simp add: unsigned_of_nat take_bit_nat_eq_self)
  then show "(word_of_nat t :: u32) \<noteq> 0"
    using assms(1) by auto
qed

lemma event_token_host_view:
  assumes "event_kind ev = Some k" and "1 \<le> t" and "t \<le> 4294967295"
  shows "event_token (host_view ev (Some (word_of_nat t))) = Some t"
  using assms unat_token [OF assms(2,3)] by (cases ev) (simp_all add: host_token_of_def)

section \<open>A sample run\<close>

abbreviation sample_event :: wt_event where
  "sample_event \<equiv> StreamData 1 2 False [65, 66, 67]"

lemma sample_queue:
  obtains q q' bytes where "queue_reachable wasm_limits_default q" and "events q = [sample_event]"
    and "poll_event_encoded q = (q', Poll_Encoded bytes)"
proof -
  obtain g where g: "governor_new wasm_limits_default = Inr g"
    by (simp add: governor_new_def wasm_limits_default_valid)
  then have f: "limits g = wasm_limits_default" "queued_bytes_global g = 0" "host_tokens g = []"
    "queued_bytes_per_session g = []" "queued_bytes_per_stream g = []"
    by (auto simp: governor_new_def split: sum.splits)
  let ?q0 = "\<lparr>events = [], event_reservations = [], governor = g, last_error = None\<rparr>"
  let ?k = "RQueuedBytes 1 (Some 2) 3"
  let ?q = "push_event sample_event ?q0"
  obtain g' where g': "reserve_event_bytes 1 (Some 2) 3 g = (g', Inr (reservation_new ?k))"
    using f by (simp add: reserve_event_bytes_def next_stream_bytes_def checked_add_def usize_MAX_def
        wasm_limits_default_def)
  have charge: "stream_event_charge [65, 66, 67] False = 3"
    by (simp add: stream_event_charge_def)
  from g' have ev: "events ?q = [sample_event]" and res: "event_reservations ?q = [Some (reservation_new ?k)]"
    and gov: "governor ?q = g'"
    by (simp_all add: push_event_def try_push_event_def MAX_PENDING_EVENTS_def charge)
  have "host_tokens g' = []"
    using reserve_kind_frame(1) [of ?k g g'] g' f by simp
  then obtain t f' where "allocate_host_token g' = Some (g'\<lparr>next_host_token := f'\<rparr>, Inr t)"
    by (cases rule: allocate_total [of g']) (auto simp: subset_iff)
  then obtain q' bytes where "poll_event_encoded ?q = (q', Poll_Encoded bytes)"
    using ev res gov
    by (simp add: poll_event_encoded_def pop_reservation_def transfer_to_host_def reservation_new_def)
  moreover have "queue_reachable wasm_limits_default ?q"
    by (rule queue_reachable.Step [OF queue_reachable.Start [OF g] queue_step.Push])
  ultimately show thesis
    using that ev by blast
qed

theorem event_queue_accounting_witness:
  "\<exists>q. queue_reachable wasm_limits_default q \<and> length (event_reservations q) = 1"
proof (rule sample_queue)
  fix q q' bytes
  assume q: "queue_reachable wasm_limits_default q" and "events q = [sample_event]"
  with event_queue_accounting [OF q, of Bytes] show ?thesis
    by (intro exI [of _ q]) simp
qed

end
