(* ===== verification/Ticket_Store.thy ===== *)
theory Ticket_Store
  imports Hash_Map
begin

text \<open>
  The session-ticket store of the endpoint (\<^verbatim>\<open>crates/wasm/src/ticket_store.rs\<close>): client tickets per
  server name, server sessions, and the process-wide vault behind the blobs that JavaScript keeps.

  rustls types are type variables: \<open>'n\<close> is \<^verbatim>\<open>ServerName\<close>, \<open>'g\<close> is \<^verbatim>\<open>NamedGroup\<close>, \<open>'t\<close> is
  \<^verbatim>\<open>Tls13ClientSessionValue\<close>. Parsing a server name is the argument \<open>server_name\<close>. The random
  generator is the list of the tokens it would yield; the vault asks for another one while a token
  is taken, and \<open>None\<close> stands for a generator that never yields a free token. A lock is always
  taken around a whole operation, so the operations are functions on the state.
\<close>

definition CLIENT_TICKET_BLOB_MAGIC :: bytes where
  "CLIENT_TICKET_BLOB_MAGIC = [0x57, 0x54, 0x30, 0x54]"

definition CLIENT_TICKET_TOKEN_LEN :: nat where
  "CLIENT_TICKET_TOKEN_LEN = 32"

definition CLIENT_TICKET_BLOB_LEN :: nat where
  "CLIENT_TICKET_BLOB_LEN = 4 + CLIENT_TICKET_TOKEN_LEN"

definition MAX_CLIENT_TICKET_VAULT_ENTRIES :: nat where
  "MAX_CLIENT_TICKET_VAULT_ENTRIES = 64"

definition MAX_TLS13_TICKETS_PER_SERVER :: nat where
  "MAX_TLS13_TICKETS_PER_SERVER = 8"

section \<open>Single-use stores\<close>

text \<open>
  The contract of a store whose entries are handed out at most once. Besides \<open>take\<close> there are other
  operations \<open>x\<close>; an entry for \<open>k\<close> appears only by an operation that adds \<open>k\<close>.
\<close>

datatype ('k, 'x) store_op = Take 'k | Other 'x

text \<open>How often a sequence of operations hands out the entry of a key, and how often it adds one.\<close>

fun handed_out ::
  "('k \<Rightarrow> 's \<Rightarrow> 's \<times> 'v option) \<Rightarrow> ('x \<Rightarrow> 's \<Rightarrow> 's) \<Rightarrow> 'k \<Rightarrow> ('k, 'x) store_op list \<Rightarrow> 's \<Rightarrow> nat" where
  "handed_out tk other k [] s = 0"
| "handed_out tk other k (Take k' # ops) s =
     (if k' = k \<and> snd (tk k' s) \<noteq> None then 1 else 0) + handed_out tk other k ops (fst (tk k' s))"
| "handed_out tk other k (Other x # ops) s = handed_out tk other k ops (other x s)"

fun added :: "('x \<Rightarrow> 'k \<Rightarrow> bool) \<Rightarrow> 'k \<Rightarrow> ('k, 'x) store_op list \<Rightarrow> nat" where
  "added adds k [] = 0"
| "added adds k (Take k' # ops) = added adds k ops"
| "added adds k (Other x # ops) = (if adds x k then 1 else 0) + added adds k ops"

locale single_use_store =
  fixes get :: "'s \<Rightarrow> 'k \<Rightarrow> 'v option"
    and tk :: "'k \<Rightarrow> 's \<Rightarrow> 's \<times> 'v option"
    and other :: "'x \<Rightarrow> 's \<Rightarrow> 's"
    and adds :: "'x \<Rightarrow> 'k \<Rightarrow> bool"
  assumes take_result: "snd (tk k s) = get s k"
    and take_get: "get (fst (tk k s)) k' = (if k' = k then None else get s k')"
    and other_get: "\<not> adds x k \<Longrightarrow> get s k = None \<Longrightarrow> get (other x s) k = None"
begin

lemma handed_out_le:
  "handed_out tk other k ops s \<le> (if get s k = None then 0 else 1) + added adds k ops"
proof (induction ops arbitrary: s)
  case (Cons op ops)
  show ?case
  proof (cases op)
    case (Take k')
    then show ?thesis
      using Cons.IH [of "fst (tk k' s)"] by (auto simp: take_result take_get split: if_splits)
  next
    case (Other x)
    then show ?thesis
      using Cons.IH [of "other x s"] other_get [of x k s] by (auto split: if_splits)
  qed
qed simp

lemma take_twice: "snd (tk k (fst (tk k s))) = None"
  by (simp add: take_result take_get)

end

section \<open>Maps with an insertion order\<close>

text \<open>\<^verbatim>\<open>position\<close> and \<^verbatim>\<open>remove\<close> of the first occurrence, then \<^verbatim>\<open>push_back\<close>.\<close>

definition touch_client_name :: "'k \<Rightarrow> 'k list \<Rightarrow> 'k list" where
  "touch_client_name name order = remove1 name order @ [name]"

text \<open>\<^verbatim>\<open>while map.len() > limit\<close> pop the oldest key and remove its entry.\<close>

fun evict_over :: "nat \<Rightarrow> ('k, 'v) hash_map \<Rightarrow> 'k list \<Rightarrow> ('k, 'v) hash_map \<times> 'k list" where
  "evict_over limit m [] = (m, [])"
| "evict_over limit m (old # order) =
     (if length m > limit then evict_over limit (hm_remove old m) order else (m, old # order))"

section \<open>The store\<close>

record ('g, 't) client_server_data =
  kx_hint_field :: "'g option"
  tls13 :: "'t list"

definition client_server_data_default :: "('g, 't) client_server_data" where
  "client_server_data_default = \<lparr>kx_hint_field = None, tls13 = []\<rparr>"

record ('n, 'g, 't) in_memory_ticket_store =
  max_servers :: nat
  client :: "('n, ('g, 't) client_server_data) hash_map"
  client_order :: "'n list"
  server :: "(bytes, bytes) hash_map"
  server_order :: "bytes list"
  max_server_entries :: nat

definition ticket_store_new :: "nat \<Rightarrow> ('n, 'g, 't) in_memory_ticket_store" where
  "ticket_store_new capacity =
     (let capacity = max capacity 1 in
      \<lparr>max_servers = capacity, client = [], client_order = [], server = [], server_order = [],
       max_server_entries = capacity\<rparr>)"

definition client_ticket_count ::
  "(bytes \<Rightarrow> 'n option) \<Rightarrow> bytes \<Rightarrow> ('n, 'g, 't) in_memory_ticket_store \<Rightarrow> nat" where
  "client_ticket_count server_name s st =
     (case server_name s of
        None \<Rightarrow> 0
      | Some name \<Rightarrow> (case hm_get (client st) name of None \<Rightarrow> 0 | Some d \<Rightarrow> length (tls13 d)))"

definition server_entry_count :: "('n, 'g, 't) in_memory_ticket_store \<Rightarrow> nat" where
  "server_entry_count st = length (server st)"

text \<open>\<^verbatim>\<open>map.entry(name).or_default()\<close> followed by an update, then the eviction loop.\<close>

definition update_client ::
  "'n \<Rightarrow> (('g, 't) client_server_data \<Rightarrow> ('g, 't) client_server_data)
     \<Rightarrow> ('n, 'g, 't) in_memory_ticket_store \<Rightarrow> ('n, 'g, 't) in_memory_ticket_store" where
  "update_client name f st =
     (let order = touch_client_name name (client_order st);
          m = hm_modify name f (hm_or_insert name client_server_data_default (client st)) in
      case evict_over (max_servers st) m order of
        (m, order) \<Rightarrow> st\<lparr>client := m, client_order := order\<rparr>)"

definition set_kx_hint ::
  "'n \<Rightarrow> 'g \<Rightarrow> ('n, 'g, 't) in_memory_ticket_store \<Rightarrow> ('n, 'g, 't) in_memory_ticket_store" where
  "set_kx_hint name grp st = update_client name (\<lambda>d. d\<lparr>kx_hint_field := Some grp\<rparr>) st"

definition kx_hint :: "'n \<Rightarrow> ('n, 'g, 't) in_memory_ticket_store \<Rightarrow> 'g option" where
  "kx_hint name st = (case hm_get (client st) name of None \<Rightarrow> None | Some d \<Rightarrow> kx_hint_field d)"

definition push_ticket :: "'t \<Rightarrow> ('g, 't) client_server_data \<Rightarrow> ('g, 't) client_server_data" where
  "push_ticket t d =
     (let ts = (if length (tls13 d) \<ge> MAX_TLS13_TICKETS_PER_SERVER then tl (tls13 d) else tls13 d) in
      d\<lparr>tls13 := ts @ [t]\<rparr>)"

definition insert_tls13_ticket ::
  "'n \<Rightarrow> 't \<Rightarrow> ('n, 'g, 't) in_memory_ticket_store \<Rightarrow> ('n, 'g, 't) in_memory_ticket_store" where
  "insert_tls13_ticket name t st = update_client name (push_ticket t) st"

definition take_tls13_ticket ::
  "'n \<Rightarrow> ('n, 'g, 't) in_memory_ticket_store \<Rightarrow> ('n, 'g, 't) in_memory_ticket_store \<times> 't option" where
  "take_tls13_ticket name st =
     (case hm_get (client st) name of
        None \<Rightarrow> (st, None)
      | Some d \<Rightarrow>
          if tls13 d = [] then (st, None)
          else (st\<lparr>client := hm_insert name (d\<lparr>tls13 := butlast (tls13 d)\<rparr>) (client st)\<rparr>,
                Some (last (tls13 d))))"

definition server_put ::
  "bytes \<Rightarrow> bytes \<Rightarrow> ('n, 'g, 't) in_memory_ticket_store \<Rightarrow> ('n, 'g, 't) in_memory_ticket_store \<times> bool" where
  "server_put key val st =
     (case evict_over (max_server_entries st) (hm_insert key val (server st))
             (touch_client_name key (server_order st)) of
        (m, order) \<Rightarrow> (st\<lparr>server := m, server_order := order\<rparr>, True))"

definition server_get :: "bytes \<Rightarrow> ('n, 'g, 't) in_memory_ticket_store \<Rightarrow> bytes option" where
  "server_get key st = hm_get (server st) key"

definition server_take ::
  "bytes \<Rightarrow> ('n, 'g, 't) in_memory_ticket_store \<Rightarrow> ('n, 'g, 't) in_memory_ticket_store \<times> bytes option" where
  "server_take key st =
     (case hm_get (server st) key of
        None \<Rightarrow> (st, None)
      | Some val \<Rightarrow>
          (st\<lparr>server := hm_remove key (server st), server_order := remove1 key (server_order st)\<rparr>, Some val))"

section \<open>The vault\<close>

record ('n, 'g, 't) exported_client_tickets =
  exp_server_name :: 'n
  exp_kx_hint :: "'g option"
  exp_tls13 :: "'t list"

record ('n, 'g, 't) client_ticket_vault =
  entries :: "(bytes, ('n, 'g, 't) exported_client_tickets) hash_map"
  order :: "bytes list"

definition client_ticket_vault_new :: "('n, 'g, 't) client_ticket_vault" where
  "client_ticket_vault_new = \<lparr>entries = [], order = []\<rparr>"

definition encode_client_ticket_blob :: "bytes \<Rightarrow> bytes" where
  "encode_client_ticket_blob token = CLIENT_TICKET_BLOB_MAGIC @ token"

definition parse_client_ticket_blob_token :: "bytes \<Rightarrow> bytes option" where
  "parse_client_ticket_blob_token blob =
     (if length blob \<noteq> CLIENT_TICKET_BLOB_LEN \<or> take 4 blob \<noteq> CLIENT_TICKET_BLOB_MAGIC then None
      else Some (drop 4 blob))"

text \<open>\<^verbatim>\<open>while entries.len() >= MAX\<close>, as a limit of one less.\<close>

definition client_ticket_vault_put ::
  "bytes list \<Rightarrow> ('n, 'g, 't) exported_client_tickets \<Rightarrow> ('n, 'g, 't) client_ticket_vault
     \<Rightarrow> (('n, 'g, 't) client_ticket_vault \<times> bytes) option" where
  "client_ticket_vault_put rng exported vault =
     (case evict_over (MAX_CLIENT_TICKET_VAULT_ENTRIES - 1) (entries vault) (order vault) of
        (m, ord) \<Rightarrow>
          (case find (\<lambda>token. hm_get m token = None) rng of
             None \<Rightarrow> None
           | Some token \<Rightarrow>
               Some (vault\<lparr>entries := hm_insert token exported m, order := ord @ [token]\<rparr>,
                     encode_client_ticket_blob token)))"

text \<open>The eviction loop of \<^verbatim>\<open>client_ticket_vault_restore\<close>, which spares the restored token.\<close>

fun restore_evict :: "bytes \<Rightarrow> ('n, 'g, 't) client_ticket_vault \<Rightarrow> bytes list \<Rightarrow> ('n, 'g, 't) client_ticket_vault" where
  "restore_evict token vault [] = vault\<lparr>order := []\<rparr>"
| "restore_evict token vault (old # ord) =
     (if length (entries vault) > MAX_CLIENT_TICKET_VAULT_ENTRIES then
        if old \<noteq> token then restore_evict token (vault\<lparr>entries := hm_remove old (entries vault)\<rparr>) ord
        else vault\<lparr>order := ord @ [old]\<rparr>
      else vault\<lparr>order := old # ord\<rparr>)"

definition client_ticket_vault_restore ::
  "bytes \<Rightarrow> ('n, 'g, 't) exported_client_tickets \<Rightarrow> ('n, 'g, 't) client_ticket_vault
     \<Rightarrow> ('n, 'g, 't) client_ticket_vault" where
  "client_ticket_vault_restore token exported vault =
     (let ord = (if hm_get (entries vault) token = None then order vault @ [token] else order vault) in
      restore_evict token (vault\<lparr>entries := hm_insert token exported (entries vault)\<rparr>) ord)"

definition client_ticket_vault_take ::
  "bytes \<Rightarrow> ('n, 'g, 't) client_ticket_vault
     \<Rightarrow> ('n, 'g, 't) client_ticket_vault \<times> ('n, 'g, 't) exported_client_tickets option" where
  "client_ticket_vault_take token vault =
     (case hm_get (entries vault) token of
        None \<Rightarrow> (vault, None)
      | Some exported \<Rightarrow>
          (vault\<lparr>entries := hm_remove token (entries vault), order := remove1 token (order vault)\<rparr>,
           Some exported))"

section \<open>Export and import\<close>

definition export_client_tickets ::
  "(bytes \<Rightarrow> 'n option) \<Rightarrow> bytes list \<Rightarrow> bytes \<Rightarrow> ('n, 'g, 't) in_memory_ticket_store
     \<Rightarrow> ('n, 'g, 't) client_ticket_vault
     \<Rightarrow> (('n, 'g, 't) in_memory_ticket_store \<times> ('n, 'g, 't) client_ticket_vault \<times> bytes option) option" where
  "export_client_tickets server_name rng s st vault =
     (case server_name s of
        None \<Rightarrow> Some (st, vault, None)
      | Some name \<Rightarrow>
        (case hm_get (client st) name of
           None \<Rightarrow> Some (st, vault, None)
         | Some d \<Rightarrow>
           let st = st\<lparr>client := hm_remove name (client st), client_order := remove1 name (client_order st)\<rparr> in
           if tls13 d = [] \<and> kx_hint_field d = None then Some (st, vault, None)
           else case client_ticket_vault_put rng
                  \<lparr>exp_server_name = name, exp_kx_hint = kx_hint_field d, exp_tls13 = tls13 d\<rparr> vault of
             None \<Rightarrow> None
           | Some (vault, blob) \<Rightarrow> Some (st, vault, Some blob)))"

text \<open>
  An import is one step: the source takes the blob out of the vault and restores it under two separate
  locks, and nothing runs between them in the single thread of the WebAssembly module.
\<close>

definition import_client_tickets ::
  "(bytes \<Rightarrow> 'n option) \<Rightarrow> bytes \<Rightarrow> bytes \<Rightarrow> ('n, 'g, 't) in_memory_ticket_store
     \<Rightarrow> ('n, 'g, 't) client_ticket_vault
     \<Rightarrow> ('n, 'g, 't) in_memory_ticket_store \<times> ('n, 'g, 't) client_ticket_vault \<times> bool" where
  "import_client_tickets server_name s blob st vault =
     (case server_name s of
        None \<Rightarrow> (st, vault, False)
      | Some expected \<Rightarrow>
        (case parse_client_ticket_blob_token blob of
           None \<Rightarrow> (st, vault, False)
         | Some token \<Rightarrow>
           (case client_ticket_vault_take token vault of
              (vault, None) \<Rightarrow> (st, vault, False)
            | (vault, Some exported) \<Rightarrow>
              if exp_server_name exported \<noteq> expected then
                (st, client_ticket_vault_restore token exported vault, False)
              else
                let st = (case exp_kx_hint exported of
                            None \<Rightarrow> st
                          | Some grp \<Rightarrow> set_kx_hint (exp_server_name exported) grp st) in
                (foldl (\<lambda>st t. insert_tls13_ticket (exp_server_name exported) t st) st (exp_tls13 exported),
                 vault, True))))"

section \<open>Entries and order stay in step\<close>

definition in_step :: "('k, 'v) hash_map \<Rightarrow> 'k list \<Rightarrow> bool" where
  "in_step m ord \<longleftrightarrow> hm_ok m \<and> distinct ord \<and> set ord = dom (hm_get m)"

lemma in_step_length: "in_step m ord \<Longrightarrow> length m = length ord"
  unfolding in_step_def by (metis distinct_card hm_length_dom)

lemma in_step_remove:
  "in_step m ord \<Longrightarrow> in_step (hm_remove k m) (remove1 k ord)"
  by (auto simp: in_step_def domIff split: if_splits)

lemma in_step_insert:
  "in_step m ord \<Longrightarrow> in_step (hm_insert k v m) (touch_client_name k ord)"
  by (auto simp: in_step_def touch_client_name_def domIff)

lemma in_step_modify: "in_step (hm_modify k f m) ord \<longleftrightarrow> in_step m ord"
proof -
  have "dom (hm_get (hm_modify k f m)) = dom (hm_get m)"
    by (auto split: if_splits)
  then show ?thesis
    by (simp add: in_step_def)
qed

lemma in_step_or_insert:
  "in_step m ord \<Longrightarrow> in_step (hm_or_insert k v m) (touch_client_name k ord)"
  by (auto simp: in_step_def touch_client_name_def domIff split: option.splits)

lemma evict_over_in_step:
  assumes "in_step m ord"
  shows "\<exists>n. evict_over limit m ord = (fst (evict_over limit m ord), drop n ord) \<and> n = length ord - limit \<and>
      in_step (fst (evict_over limit m ord)) (drop n ord) \<and>
      (\<forall>k\<in>set (drop n ord). hm_get (fst (evict_over limit m ord)) k = hm_get m k)"
  using assms
proof (induction limit m ord rule: evict_over.induct)
  case (2 limit m old ord)
  show ?case
  proof (cases "length m > limit")
    case True
    have st: "in_step (hm_remove old m) ord"
      using in_step_remove [OF "2.prems", of old] by simp
    then obtain n where n: "evict_over limit (hm_remove old m) ord
        = (fst (evict_over limit (hm_remove old m) ord), drop n ord)" "n = length ord - limit"
      "in_step (fst (evict_over limit (hm_remove old m) ord)) (drop n ord)"
      "\<forall>k\<in>set (drop n ord). hm_get (fst (evict_over limit (hm_remove old m) ord)) k = hm_get (hm_remove old m) k"
      using "2.IH" True by blast
    have "old \<notin> set (drop n ord)"
      using "2.prems" by (auto simp: in_step_def dest: in_set_dropD)
    then show ?thesis
      using n True in_step_length [OF "2.prems"]
      by (intro exI [of _ "Suc n"]) (auto simp: Suc_diff_le)
  next
    case False
    then show ?thesis
      using "2.prems" in_step_length [OF "2.prems"] by (intro exI [of _ 0]) auto
  qed
qed (simp add: in_step_def)

lemma evict_over_facts:
  assumes "in_step m ord" and "evict_over limit m ord = (m', ord')"
  shows "in_step m' ord'" and "length m' \<le> limit"
    and "k \<in> set ord' \<Longrightarrow> hm_get m' k = hm_get m k"
    and "hm_get m' k = None \<or> hm_get m' k = hm_get m k"
    and "0 < limit \<Longrightarrow> ord \<noteq> [] \<Longrightarrow> last ord \<in> set ord'"
proof -
  obtain n where n: "ord' = drop n ord" "n = length ord - limit" and st: "in_step m' ord'"
    and eq: "\<forall>k\<in>set (drop n ord). hm_get m' k = hm_get m k"
    using evict_over_in_step [OF assms(1), of limit] assms(2) by auto
  show "in_step m' ord'"
    by (rule st)
  show "length m' \<le> limit"
    using in_step_length [OF st] n by simp
  show "k \<in> set ord' \<Longrightarrow> hm_get m' k = hm_get m k"
    using eq n by simp
  then show "hm_get m' k = None \<or> hm_get m' k = hm_get m k"
    using st by (auto simp: in_step_def domIff)
  show "0 < limit \<Longrightarrow> ord \<noteq> [] \<Longrightarrow> last ord \<in> set ord'"
    using n by (metis diff_less drop_eq_Nil last_drop last_in_set length_greater_0_conv not_le)
qed

lemma evict_over_none: "hm_get m k = None \<Longrightarrow> hm_get (fst (evict_over limit m ord)) k = None"
  by (induction limit m ord rule: evict_over.induct) auto

section \<open>The bounds of the store and of the vault\<close>

definition ticket_store_ok :: "('n, 'g, 't) in_memory_ticket_store \<Rightarrow> bool" where
  "ticket_store_ok st \<longleftrightarrow>
     in_step (client st) (client_order st) \<and> length (client st) \<le> max_servers st \<and> 0 < max_servers st \<and>
     in_step (server st) (server_order st) \<and> length (server st) \<le> max_server_entries st \<and>
     (\<forall>name d. hm_get (client st) name = Some d \<longrightarrow> length (tls13 d) \<le> MAX_TLS13_TICKETS_PER_SERVER)"

definition vault_ok :: "('n, 'g, 't) client_ticket_vault \<Rightarrow> bool" where
  "vault_ok v \<longleftrightarrow> in_step (entries v) (order v) \<and> length (entries v) \<le> MAX_CLIENT_TICKET_VAULT_ENTRIES"

lemma ticket_store_new_ok: "ticket_store_ok (ticket_store_new capacity)"
  by (simp add: ticket_store_ok_def ticket_store_new_def Let_def in_step_def)

lemma vault_new_ok: "vault_ok client_ticket_vault_new"
  by (simp add: vault_ok_def client_ticket_vault_new_def in_step_def)

lemma update_client_cases:
  assumes "ticket_store_ok st"
  obtains m ord where "update_client name f st = st\<lparr>client := m, client_order := ord\<rparr>"
    and "in_step m ord" and "length m \<le> max_servers st"
    and "hm_get m name = Some (f (case hm_get (client st) name of None \<Rightarrow> client_server_data_default | Some d \<Rightarrow> d))"
    and "\<And>k. k \<noteq> name \<Longrightarrow> hm_get m k = None \<or> hm_get m k = hm_get (client st) k"
proof -
  let ?m = "hm_modify name f (hm_or_insert name client_server_data_default (client st))"
  let ?ord = "touch_client_name name (client_order st)"
  obtain m ord where ev: "evict_over (max_servers st) ?m ?ord = (m, ord)"
    by fastforce
  have st: "in_step ?m ?ord"
    using assms in_step_or_insert by (fastforce simp: in_step_modify ticket_store_ok_def)
  note facts = evict_over_facts [OF st ev]
  have "name \<in> set ord"
    using facts(5) assms by (simp add: ticket_store_ok_def touch_client_name_def)
  then have "hm_get m name = Some (f (case hm_get (client st) name of None \<Rightarrow> client_server_data_default | Some d \<Rightarrow> d))"
    using facts(3) [of name] by (simp split: option.splits)
  moreover have "hm_get m k = None \<or> hm_get m k = hm_get (client st) k" if "k \<noteq> name" for k
    using facts(4) [of k] that by (auto split: option.splits)
  ultimately show thesis
    using that ev facts(1,2) by (simp add: update_client_def Let_def)
qed

lemma update_client_ok:
  assumes "ticket_store_ok st"
    and "\<And>d. length (tls13 d) \<le> MAX_TLS13_TICKETS_PER_SERVER \<Longrightarrow> length (tls13 (f d)) \<le> MAX_TLS13_TICKETS_PER_SERVER"
  shows "ticket_store_ok (update_client name f st)"
proof -
  obtain m ord where u: "update_client name f st = st\<lparr>client := m, client_order := ord\<rparr>"
    and st: "in_step m ord" "length m \<le> max_servers st"
    and nm: "hm_get m name = Some (f (case hm_get (client st) name of None \<Rightarrow> client_server_data_default | Some d \<Rightarrow> d))"
    and oth: "\<And>k. k \<noteq> name \<Longrightarrow> hm_get m k = None \<or> hm_get m k = hm_get (client st) k"
    by (rule update_client_cases [OF assms(1), of name f]) blast
  have "length (tls13 d) \<le> MAX_TLS13_TICKETS_PER_SERVER" if "hm_get m k = Some d" for k d
  proof (cases "k = name")
    case True
    then show ?thesis
      using that nm assms by (auto simp: ticket_store_ok_def client_server_data_default_def split: option.splits)
  next
    case False
    then show ?thesis
      using that oth [of k] assms(1) by (auto simp: ticket_store_ok_def)
  qed
  then show ?thesis
    using assms(1) st by (simp add: u ticket_store_ok_def)
qed

lemma push_ticket_length:
  "length (tls13 d) \<le> MAX_TLS13_TICKETS_PER_SERVER \<Longrightarrow> length (tls13 (push_ticket t d)) \<le> MAX_TLS13_TICKETS_PER_SERVER"
  by (auto simp: push_ticket_def Let_def MAX_TLS13_TICKETS_PER_SERVER_def)

lemma set_kx_hint_ok: "ticket_store_ok st \<Longrightarrow> ticket_store_ok (set_kx_hint name grp st)"
  by (simp add: set_kx_hint_def update_client_ok)

lemma insert_tls13_ticket_ok: "ticket_store_ok st \<Longrightarrow> ticket_store_ok (insert_tls13_ticket name t st)"
  by (simp add: insert_tls13_ticket_def update_client_ok push_ticket_length)

lemma insert_tickets_ok:
  "ticket_store_ok st \<Longrightarrow> ticket_store_ok (foldl (\<lambda>st t. insert_tls13_ticket name t st) st ts)"
  by (induction ts arbitrary: st) (auto intro: insert_tls13_ticket_ok)

lemma in_step_update: "in_step m ord \<Longrightarrow> hm_get m k = Some v \<Longrightarrow> in_step (hm_insert k w m) ord"
  by (auto simp: in_step_def domIff split: if_splits)

lemma take_tls13_ticket_ok: "ticket_store_ok st \<Longrightarrow> ticket_store_ok (fst (take_tls13_ticket name st))"
  by (auto simp: take_tls13_ticket_def ticket_store_ok_def in_step_update length_hm_insert le_diff_conv
      intro: le_SucI split: option.splits)

lemma server_put_ok:
  assumes "ticket_store_ok st"
  shows "ticket_store_ok (fst (server_put key val st))"
proof -
  let ?m = "hm_insert key val (server st)" and ?ord = "touch_client_name key (server_order st)"
  obtain m ord where ev: "evict_over (max_server_entries st) ?m ?ord = (m, ord)"
    by fastforce
  have "in_step ?m ?ord"
    using assms by (simp add: ticket_store_ok_def in_step_insert)
  note facts = evict_over_facts [OF this ev]
  show ?thesis
    using assms facts(1,2) by (simp add: server_put_def ev ticket_store_ok_def)
qed

lemma server_take_ok: "ticket_store_ok st \<Longrightarrow> ticket_store_ok (fst (server_take key st))"
  using le_trans [OF length_hm_remove_le]
  by (auto simp: server_take_def ticket_store_ok_def in_step_remove split: option.splits)

lemma vault_put_cases:
  assumes "vault_ok v" and "client_ticket_vault_put rng e v = Some (v', blob)"
  obtains token where "blob = encode_client_ticket_blob token" and "token \<in> set rng"
    and "vault_ok v'" and "hm_get (entries v') token = Some e"
proof -
  obtain m ord where ev: "evict_over (MAX_CLIENT_TICKET_VAULT_ENTRIES - 1) (entries v) (order v) = (m, ord)"
    by fastforce
  have st: "in_step (entries v) (order v)"
    using assms(1) by (simp add: vault_ok_def)
  note facts = evict_over_facts [OF st ev]
  obtain token where f: "find (\<lambda>token. hm_get m token = None) rng = Some token"
    and v': "v' = v\<lparr>entries := hm_insert token e m, order := ord @ [token]\<rparr>"
    and b: "blob = encode_client_ticket_blob token"
    using assms(2) unfolding client_ticket_vault_put_def ev by (auto split: option.splits)
  have new: "hm_get m token = None" and rng: "token \<in> set rng"
    using f by (auto simp: find_Some_iff)
  then have "token \<notin> set ord"
    using facts(1) by (simp add: in_step_def domIff)
  then have "vault_ok v'"
    using facts(1,2) in_step_insert [OF facts(1), of token e] new
    by (simp add: v' vault_ok_def touch_client_name_def remove1_idem length_hm_insert
        MAX_CLIENT_TICKET_VAULT_ENTRIES_def)
  then show thesis
    using that b rng by (simp add: v')
qed

lemma vault_take_ok: "vault_ok v \<Longrightarrow> vault_ok (fst (client_ticket_vault_take token v))"
  using le_trans [OF length_hm_remove_le]
  by (auto simp: client_ticket_vault_take_def vault_ok_def in_step_remove split: option.splits)

text \<open>Putting an entry back where it was just taken from evicts nothing.\<close>

lemma vault_take_restore:
  assumes "vault_ok v" and "client_ticket_vault_take token v = (v', Some e)"
  shows "vault_ok (client_ticket_vault_restore token e v')"
    and "hm_get (entries (client_ticket_vault_restore token e v')) = hm_get (entries v)"
proof -
  have e: "hm_get (entries v) token = Some e"
    and v': "v' = v\<lparr>entries := hm_remove token (entries v), order := remove1 token (order v)\<rparr>"
    using assms(2) by (auto simp: client_ticket_vault_take_def split: option.splits)
  have st: "in_step (entries v) (order v)" and le: "length (entries v) \<le> MAX_CLIENT_TICKET_VAULT_ENTRIES"
    using assms(1) by (simp_all add: vault_ok_def)
  let ?m = "hm_insert token e (hm_remove token (entries v))" and ?ord = "remove1 token (order v) @ [token]"
  have st': "in_step ?m ?ord"
    using in_step_insert [OF in_step_remove [OF st, of token], of token e] st
    by (simp add: touch_client_name_def remove1_idem in_step_def)
  have len: "length ?m \<le> MAX_CLIENT_TICKET_VAULT_ENTRIES"
    using le in_step_length [OF st] in_step_length [OF st'] e st
    by (auto simp: in_step_def length_remove1 domIff MAX_CLIENT_TICKET_VAULT_ENTRIES_def)
  have "client_ticket_vault_restore token e v' = v'\<lparr>entries := ?m, order := ?ord\<rparr>"
    using len by (cases "remove1 token (order v)") (simp_all add: client_ticket_vault_restore_def v')
  then show "vault_ok (client_ticket_vault_restore token e v')"
    and "hm_get (entries (client_ticket_vault_restore token e v')) = hm_get (entries v)"
    using st' len e by (auto simp: vault_ok_def v')
qed

section \<open>Server sessions and vault blobs are single use\<close>

text \<open>The calls on a store other than taking a server session.\<close>

datatype ('n, 'g, 't) ticket_call =
    Put bytes bytes
  | SetKxHint 'n 'g
  | InsertTls13Ticket 'n 't
  | TakeTls13Ticket 'n

fun ticket_call_run ::
  "('n, 'g, 't) ticket_call \<Rightarrow> ('n, 'g, 't) in_memory_ticket_store \<Rightarrow> ('n, 'g, 't) in_memory_ticket_store" where
  "ticket_call_run (Put key val) st = fst (server_put key val st)"
| "ticket_call_run (SetKxHint name grp) st = set_kx_hint name grp st"
| "ticket_call_run (InsertTls13Ticket name t) st = insert_tls13_ticket name t st"
| "ticket_call_run (TakeTls13Ticket name) st = fst (take_tls13_ticket name st)"

fun puts_key :: "('n, 'g, 't) ticket_call \<Rightarrow> bytes \<Rightarrow> bool" where
  "puts_key (Put key val) k \<longleftrightarrow> key = k"
| "puts_key c k \<longleftrightarrow> False"

lemma server_update_client [simp]: "server (update_client name f st) = server st"
  by (simp add: update_client_def Let_def split: prod.splits)

interpretation server_sessions:
  single_use_store "\<lambda>st k. server_get k st" server_take ticket_call_run puts_key
proof unfold_locales
  fix k k' :: bytes and st :: "('n, 'g, 't) in_memory_ticket_store" and x :: "('n, 'g, 't) ticket_call"
  show "snd (server_take k st) = server_get k st"
    by (simp add: server_take_def server_get_def split: option.splits)
  show "server_get k' (fst (server_take k st)) = (if k' = k then None else server_get k' st)"
    by (simp add: server_take_def server_get_def split: option.splits)
  show "server_get k (ticket_call_run x st) = None" if "\<not> puts_key x k" "server_get k st = None"
    using that
    by (cases x) (simp_all add: server_get_def server_put_def set_kx_hint_def insert_tls13_ticket_def
        take_tls13_ticket_def case_prod_unfold evict_over_none split: option.splits)
qed

text \<open>The vault, with exports as the calls that add a token.\<close>

definition vault_export ::
  "bytes list \<times> ('n, 'g, 't) exported_client_tickets \<Rightarrow> ('n, 'g, 't) client_ticket_vault
     \<Rightarrow> ('n, 'g, 't) client_ticket_vault" where
  "vault_export x v = (case client_ticket_vault_put (fst x) (snd x) v of None \<Rightarrow> v | Some (v', blob) \<Rightarrow> v')"

definition draws_token :: "bytes list \<times> ('n, 'g, 't) exported_client_tickets \<Rightarrow> bytes \<Rightarrow> bool" where
  "draws_token x token \<longleftrightarrow> token \<in> set (fst x)"

interpretation vault_blobs:
  single_use_store "\<lambda>v token. hm_get (entries v) token" client_ticket_vault_take vault_export draws_token
proof unfold_locales
  fix k k' :: bytes and v :: "('n, 'g, 't) client_ticket_vault"
    and x :: "bytes list \<times> ('n, 'g, 't) exported_client_tickets"
  show "snd (client_ticket_vault_take k v) = hm_get (entries v) k"
    by (simp add: client_ticket_vault_take_def split: option.splits)
  show "hm_get (entries (fst (client_ticket_vault_take k v))) k' = (if k' = k then None else hm_get (entries v) k')"
    by (simp add: client_ticket_vault_take_def split: option.splits)
  show "hm_get (entries (vault_export x v)) k = None" if "\<not> draws_token x k" "hm_get (entries v) k = None"
  proof (cases "evict_over (MAX_CLIENT_TICKET_VAULT_ENTRIES - 1) (entries v) (order v)")
    case (Pair m ord)
    then have "hm_get m k = None"
      using evict_over_none [OF that(2)] by (metis fst_conv)
    then show ?thesis
      using that unfolding vault_export_def client_ticket_vault_put_def Pair
      by (auto simp: draws_token_def find_Some_iff split: option.splits)
  qed
qed

section \<open>Export, then import\<close>

lemma blob_roundtrip:
  "length token = CLIENT_TICKET_TOKEN_LEN \<Longrightarrow>
     parse_client_ticket_blob_token (encode_client_ticket_blob token) = Some token"
  by (simp add: parse_client_ticket_blob_token_def encode_client_ticket_blob_def
      CLIENT_TICKET_BLOB_LEN_def CLIENT_TICKET_BLOB_MAGIC_def)

lemma update_client_get:
  assumes "ticket_store_ok st"
  shows "hm_get (client (update_client name f st)) name
           = Some (f (case hm_get (client st) name of None \<Rightarrow> client_server_data_default | Some d \<Rightarrow> d))"
  by (rule update_client_cases [OF assms, of name f]) simp

lemma insert_tickets_get:
  assumes "ticket_store_ok st" and "hm_get (client st) name = Some d"
    and "length (tls13 d) + length ts \<le> MAX_TLS13_TICKETS_PER_SERVER"
  shows "hm_get (client (foldl (\<lambda>st t. insert_tls13_ticket name t st) st ts)) name
           = Some (d\<lparr>tls13 := tls13 d @ ts\<rparr>)"
  using assms
proof (induction ts arbitrary: st d)
  case (Cons t ts)
  have "hm_get (client (insert_tls13_ticket name t st)) name = Some (d\<lparr>tls13 := tls13 d @ [t]\<rparr>)"
    using Cons.prems by (simp add: insert_tls13_ticket_def update_client_get push_ticket_def)
  then show ?case
    using Cons.IH [of "insert_tls13_ticket name t st" "d\<lparr>tls13 := tls13 d @ [t]\<rparr>"] Cons.prems
    by (simp add: insert_tls13_ticket_ok)
qed simp

lemma insert_tickets_fresh:
  assumes "ticket_store_ok st" and "hm_get (client st) name = None" and "ts \<noteq> []"
    and "length ts \<le> MAX_TLS13_TICKETS_PER_SERVER"
  shows "hm_get (client (foldl (\<lambda>st t. insert_tls13_ticket name t st) st ts)) name
           = Some \<lparr>kx_hint_field = None, tls13 = ts\<rparr>"
proof -
  obtain t ts' where ts: "ts = t # ts'"
    using assms(3) by (cases ts) auto
  have "hm_get (client (insert_tls13_ticket name t st)) name = Some \<lparr>kx_hint_field = None, tls13 = [t]\<rparr>"
    using assms(1,2) by (simp add: insert_tls13_ticket_def update_client_get push_ticket_def
        client_server_data_default_def MAX_TLS13_TICKETS_PER_SERVER_def)
  from insert_tickets_get [OF insert_tls13_ticket_ok [OF assms(1)] this] show ?thesis
    using assms(4) by (simp add: ts)
qed

lemma export_cases:
  assumes "ticket_store_ok st" and "vault_ok v" and "list_all (\<lambda>t. length t = CLIENT_TICKET_TOKEN_LEN) rng"
    and "export_client_tickets server_name rng s st v = Some (st', v', Some blob)"
  obtains name d token where "server_name s = Some name" and "hm_get (client st) name = Some d"
    and "tls13 d \<noteq> [] \<or> kx_hint_field d \<noteq> None" and "hm_get (client st') name = None"
    and "parse_client_ticket_blob_token blob = Some token" and "vault_ok v'"
    and "hm_get (entries v') token
           = Some \<lparr>exp_server_name = name, exp_kx_hint = kx_hint_field d, exp_tls13 = tls13 d\<rparr>"
proof -
  obtain name d where n: "server_name s = Some name" "hm_get (client st) name = Some d"
    "tls13 d \<noteq> [] \<or> kx_hint_field d \<noteq> None" "hm_get (client st') name = None"
    and put: "client_ticket_vault_put rng
        \<lparr>exp_server_name = name, exp_kx_hint = kx_hint_field d, exp_tls13 = tls13 d\<rparr> v = Some (v', blob)"
    using assms(4) by (auto simp: export_client_tickets_def Let_def split: option.splits if_splits)
  obtain token where t: "blob = encode_client_ticket_blob token" "token \<in> set rng" "vault_ok v'"
    "hm_get (entries v') token
       = Some \<lparr>exp_server_name = name, exp_kx_hint = kx_hint_field d, exp_tls13 = tls13 d\<rparr>"
    by (rule vault_put_cases [OF assms(2) put])
  then have "parse_client_ticket_blob_token blob = Some token"
    using assms(3) by (simp add: blob_roundtrip list_all_iff)
  then show thesis
    using that n t by blast
qed

lemma import_right_name:
  assumes "ticket_store_ok st" and "hm_get (client st) name = None"
    and "server_name s = Some name" and "parse_client_ticket_blob_token blob = Some token"
    and "hm_get (entries v) token = Some \<lparr>exp_server_name = name, exp_kx_hint = g, exp_tls13 = ts\<rparr>"
    and "length ts \<le> MAX_TLS13_TICKETS_PER_SERVER" and "ts \<noteq> [] \<or> g \<noteq> None"
    and "import_client_tickets server_name s blob st v = (st', v', r)"
  shows "r \<and> hm_get (client st') name = Some \<lparr>kx_hint_field = g, tls13 = ts\<rparr> \<and>
    hm_get (entries v') token = None"
proof (cases g)
  case None
  then show ?thesis
    using assms insert_tickets_fresh [OF assms(1,2)]
    by (auto simp: import_client_tickets_def client_ticket_vault_take_def)
next
  case (Some grp)
  have "hm_get (client (set_kx_hint name grp st)) name = Some \<lparr>kx_hint_field = Some grp, tls13 = []\<rparr>"
    using assms(1,2) by (simp add: set_kx_hint_def update_client_get client_server_data_default_def)
  from insert_tickets_get [OF set_kx_hint_ok [OF assms(1)] this, of ts] show ?thesis
    using Some assms by (auto simp: import_client_tickets_def client_ticket_vault_take_def)
qed

lemma import_wrong_name:
  assumes "vault_ok v" and "server_name s \<noteq> Some name" and "parse_client_ticket_blob_token blob = Some token"
    and "hm_get (entries v) token = Some e" and "exp_server_name e = name"
    and "import_client_tickets server_name s blob st v = (st', v', r)"
  shows "\<not> r \<and> st' = st \<and> vault_ok v' \<and> hm_get (entries v') = hm_get (entries v)"
proof (cases "server_name s")
  case None
  then show ?thesis
    using assms by (simp add: import_client_tickets_def)
next
  case (Some n)
  have take: "client_ticket_vault_take token v
      = (v\<lparr>entries := hm_remove token (entries v), order := remove1 token (order v)\<rparr>, Some e)"
    using assms(4) by (simp add: client_ticket_vault_take_def)
  show ?thesis
    using assms vault_take_restore [OF assms(1) take] Some
    by (auto simp: import_client_tickets_def take)
qed

lemma import_spent:
  "parse_client_ticket_blob_token blob = Some token \<Longrightarrow> hm_get (entries v) token = None \<Longrightarrow>
     import_client_tickets server_name s blob st v = (st, v, False)"
  by (simp add: import_client_tickets_def client_ticket_vault_take_def split: option.splits)

section \<open>Every operation keeps the bounds\<close>

datatype ('n, 'g, 't) store_event =
    Call "('n, 'g, 't) ticket_call"
  | TakeSession bytes
  | Export bytes "bytes list"
  | Import bytes bytes

fun store_event_run ::
  "(bytes \<Rightarrow> 'n option) \<Rightarrow> ('n, 'g, 't) store_event
     \<Rightarrow> ('n, 'g, 't) in_memory_ticket_store \<times> ('n, 'g, 't) client_ticket_vault
     \<Rightarrow> (('n, 'g, 't) in_memory_ticket_store \<times> ('n, 'g, 't) client_ticket_vault) option" where
  "store_event_run server_name (Call c) (st, v) = Some (ticket_call_run c st, v)"
| "store_event_run server_name (TakeSession key) (st, v) = Some (fst (server_take key st), v)"
| "store_event_run server_name (Export s rng) (st, v) =
     map_option (\<lambda>(st, v, blob). (st, v)) (export_client_tickets server_name rng s st v)"
| "store_event_run server_name (Import s blob) (st, v) =
     (case import_client_tickets server_name s blob st v of (st, v, r) \<Rightarrow> Some (st, v))"

fun store_events_run ::
  "(bytes \<Rightarrow> 'n option) \<Rightarrow> ('n, 'g, 't) store_event list
     \<Rightarrow> ('n, 'g, 't) in_memory_ticket_store \<times> ('n, 'g, 't) client_ticket_vault
     \<Rightarrow> (('n, 'g, 't) in_memory_ticket_store \<times> ('n, 'g, 't) client_ticket_vault) option" where
  "store_events_run server_name [] s = Some s"
| "store_events_run server_name (e # es) s =
     Option.bind (store_event_run server_name e s) (store_events_run server_name es)"

lemma ticket_call_ok: "ticket_store_ok st \<Longrightarrow> ticket_store_ok (ticket_call_run c st)"
  by (cases c) (simp_all add: server_put_ok set_kx_hint_ok insert_tls13_ticket_ok take_tls13_ticket_ok)

lemma export_ok:
  assumes "ticket_store_ok st" and "vault_ok v"
    and "export_client_tickets server_name rng s st v = Some (st', v', b)"
  shows "ticket_store_ok st' \<and> vault_ok v'"
proof -
  have "ticket_store_ok (st\<lparr>client := hm_remove name (client st), client_order := remove1 name (client_order st)\<rparr>)"
    for name
    using assms(1) le_trans [OF length_hm_remove_le]
    by (auto simp: ticket_store_ok_def in_step_remove split: if_splits)
  then show ?thesis
    using assms vault_put_cases [OF assms(2)]
    by (auto simp: export_client_tickets_def Let_def split: option.splits if_splits; metis)
qed

lemma import_ok:
  assumes "ticket_store_ok st" and "vault_ok v"
    and "import_client_tickets server_name s blob st v = (st', v', r)"
  shows "ticket_store_ok st' \<and> vault_ok v'"
proof (cases "parse_client_ticket_blob_token blob")
  case (Some token)
  obtain w x where t: "client_ticket_vault_take token v = (w, x)"
    by fastforce
  have "vault_ok w"
    using vault_take_ok [OF assms(2), of token] t by simp
  then show ?thesis
    using assms Some t vault_take_restore(1) [OF assms(2)]
    by (auto simp: import_client_tickets_def Let_def insert_tickets_ok set_kx_hint_ok
        split: option.splits if_splits)
qed (use assms in \<open>auto simp: import_client_tickets_def split: option.splits\<close>)

lemma store_event_ok:
  assumes "ticket_store_ok st" and "vault_ok v" and "store_event_run server_name e (st, v) = Some (st', v')"
  shows "ticket_store_ok st' \<and> vault_ok v'"
proof (cases e)
  case (Export s rng)
  then show ?thesis
    using assms(3) export_ok [OF assms(1,2), of server_name rng s] by auto
next
  case (Import s blob)
  then show ?thesis
    using assms(3) import_ok [OF assms(1,2), of server_name s blob] by (simp split: prod.splits)
qed (use assms in \<open>auto simp: ticket_call_ok server_take_ok\<close>)

lemma store_events_ok:
  assumes "ticket_store_ok st" and "vault_ok v" and "store_events_run server_name es (st, v) = Some (st', v')"
  shows "ticket_store_ok st' \<and> vault_ok v'"
  using assms
proof (induction es arbitrary: st v)
  case (Cons e es)
  obtain st1 v1 where e: "store_event_run server_name e (st, v) = Some (st1, v1)"
    and es: "store_events_run server_name es (st1, v1) = Some (st', v')"
    using Cons.prems(3) by (auto simp: bind_eq_Some_conv)
  show ?case
    using Cons.IH [OF _ _ es] store_event_ok [OF Cons.prems(1,2) e] by blast
qed simp

lemma update_client_limits [simp]:
  "max_servers (update_client name f st) = max_servers st"
  "max_server_entries (update_client name f st) = max_server_entries st"
  by (simp_all add: update_client_def Let_def split: prod.splits)

lemma insert_tickets_limits [simp]:
  "max_servers (foldl (\<lambda>st t. insert_tls13_ticket name t st) st ts) = max_servers st"
  "max_server_entries (foldl (\<lambda>st t. insert_tls13_ticket name t st) st ts) = max_server_entries st"
  by (induction ts arbitrary: st) (simp_all add: insert_tls13_ticket_def)

lemma ticket_call_limits:
  "max_servers (ticket_call_run c st) = max_servers st \<and>
   max_server_entries (ticket_call_run c st) = max_server_entries st"
  by (cases c) (auto simp: server_put_def set_kx_hint_def insert_tls13_ticket_def take_tls13_ticket_def
      split: prod.splits option.splits)

lemma store_event_limits:
  assumes "store_event_run server_name e (st, v) = Some (st', v')"
  shows "max_servers st' = max_servers st \<and> max_server_entries st' = max_server_entries st"
proof (cases e)
  case (Import s blob)
  then show ?thesis
    using assms by (auto simp: import_client_tickets_def Let_def set_kx_hint_def
        split: prod.splits option.splits if_splits)
next
  case (Export s rng)
  then show ?thesis
    using assms by (auto simp: export_client_tickets_def Let_def split: option.splits if_splits)
qed (use assms ticket_call_limits in \<open>auto simp: server_take_def split: option.splits\<close>)

lemma store_events_limits:
  assumes "store_events_run server_name es (st, v) = Some (st', v')"
  shows "max_servers st' = max_servers st \<and> max_server_entries st' = max_server_entries st"
  using assms
proof (induction es arbitrary: st v)
  case (Cons e es)
  obtain st1 v1 where e: "store_event_run server_name e (st, v) = Some (st1, v1)"
    and es: "store_events_run server_name es (st1, v1) = Some (st', v')"
    using Cons.prems by (auto simp: bind_eq_Some_conv)
  show ?case
    using Cons.IH [OF es] store_event_limits [OF e] by simp
qed simp

section \<open>Properties\<close>

text \<open>
  C36. Whatever calls a ticket store and the process-wide vault receive, starting from empty ones,
  the store holds at most \<open>max capacity 1\<close> server names and as many server sessions, at most eight
  tickets for a name, and the vault at most 64 blobs; the insertion-order queues list exactly the
  keys present, each once, so the eviction loops never run dry and no queue grows past its map.
\<close>

theorem ticket_store_bounded:
  assumes "store_events_run server_name es (ticket_store_new capacity, client_ticket_vault_new) = Some (st, v)"
  shows "length (client st) \<le> max capacity 1 \<and> length (server st) \<le> max capacity 1 \<and>
    length (entries v) \<le> 64 \<and>
    (\<forall>name. case hm_get (client st) name of None \<Rightarrow> True | Some d \<Rightarrow> length (tls13 d) \<le> 8) \<and>
    in_step (client st) (client_order st) \<and> in_step (server st) (server_order st) \<and>
    in_step (entries v) (order v)"
  using store_events_ok [OF ticket_store_new_ok vault_new_ok assms] store_events_limits [OF assms]
  by (auto simp: ticket_store_ok_def vault_ok_def ticket_store_new_def Let_def
      MAX_CLIENT_TICKET_VAULT_ENTRIES_def MAX_TLS13_TICKETS_PER_SERVER_def split: option.splits)

theorem ticket_store_bounded_witness:
  "\<exists>st v. store_events_run Some
      [Call (InsertTls13Ticket [1] (5::nat)), Call (InsertTls13Ticket [2] 6), Call (Put [7] [8]),
       Export [2] [replicate 32 0], Import [2] (encode_client_ticket_blob (replicate 32 0)),
       Call (SetKxHint [3] (1::nat)), TakeSession [7]]
      (ticket_store_new 1, client_ticket_vault_new) = Some (st, v) \<and>
    length (client st) \<le> max 1 1 \<and> client_order st = [[3]]"
proof -
  let ?run = "store_events_run Some
      [Call (InsertTls13Ticket [1] (5::nat)), Call (InsertTls13Ticket [2] 6), Call (Put [7] [8]),
       Export [2] [replicate 32 0], Import [2] (encode_client_ticket_blob (replicate 32 0)),
       Call (SetKxHint [3] (1::nat)), TakeSession [7]]
      (ticket_store_new 1, client_ticket_vault_new)"
  have "map_option (client_order \<circ> fst) ?run = Some [[3]]"
    by code_simp
  then obtain s where s: "?run = Some s" "client_order (fst s) = [[3]]"
    unfolding map_option_eq_Some comp_apply by blast
  then have run: "?run = Some (fst s, snd s)"
    unfolding prod.collapse by blast
  show ?thesis
    using ticket_store_bounded [OF run] run s(2) by blast
qed

text \<open>
  C37. Anti-replay: whatever calls a store receives, a server session is handed out at most as
  often as it was put under that key; taking a key again with no put between finds nothing.
\<close>

theorem server_session_single_use:
  "handed_out server_take ticket_call_run key ops (ticket_store_new capacity) \<le> added puts_key key ops \<and>
   snd (server_take key (fst (server_take key st))) = None"
  using server_sessions.handed_out_le [of key ops "ticket_store_new capacity"] server_sessions.take_twice
  by (simp add: server_get_def ticket_store_new_def Let_def)

text \<open>
  C38. Exporting the tickets of a server name and importing the blob moves them: they leave the
  exporting store, an import under another name is refused and leaves the blob valid, the import under
  the right name into a store without that name restores the exported tickets in order with the
  key-exchange hint, and a second import of the blob is refused.
\<close>

theorem export_import_roundtrip:
  assumes "ticket_store_ok st" and "vault_ok v"
    and "list_all (\<lambda>t. length t = CLIENT_TICKET_TOKEN_LEN) rng"
    and "export_client_tickets server_name rng s st v = Some (st1, v1, Some blob)"
    and "server_name s = Some name"
    and "ticket_store_ok dest" and "hm_get (client dest) name = None"
    and "server_name s' \<noteq> Some name"
    and "import_client_tickets server_name s' blob dest v1 = (dest1, v2, wrong)"
    and "import_client_tickets server_name s blob dest1 v2 = (dest2, v3, right)"
  shows "\<not> wrong \<and> right \<and> hm_get (client st1) name = None \<and>
    hm_get (client dest2) name = hm_get (client st) name \<and>
    import_client_tickets server_name s blob dest2 v3 = (dest2, v3, False)"
proof -
  obtain d token where d: "hm_get (client st) name = Some d" "tls13 d \<noteq> [] \<or> kx_hint_field d \<noteq> None"
    and gone: "hm_get (client st1) name = None"
    and tok: "parse_client_ticket_blob_token blob = Some token" "vault_ok v1"
    and e: "hm_get (entries v1) token
        = Some \<lparr>exp_server_name = name, exp_kx_hint = kx_hint_field d, exp_tls13 = tls13 d\<rparr>"
    by (rule export_cases [OF assms(1-4)]) (use assms(5) in simp)
  have w: "\<not> wrong \<and> dest1 = dest \<and> vault_ok v2 \<and> hm_get (entries v2) = hm_get (entries v1)"
    by (rule import_wrong_name [OF tok(2) assms(8) tok(1) e _ assms(9)]) simp
  have len: "length (tls13 d) \<le> MAX_TLS13_TICKETS_PER_SERVER"
    using assms(1) d(1) by (simp add: ticket_store_ok_def)
  have r: "right \<and> hm_get (client dest2) name = Some \<lparr>kx_hint_field = kx_hint_field d, tls13 = tls13 d\<rparr> \<and>
      hm_get (entries v3) token = None"
    by (rule import_right_name [OF _ _ assms(5) tok(1) _ len d(2) assms(10)]) (use w e assms(6,7) in simp_all)
  show ?thesis
    using w r gone d(1) by (simp add: import_spent [OF tok(1)])
qed

theorem export_import_roundtrip_witness:
  "\<exists>st1 v1 blob dest1 v2 dest2 v3.
     export_client_tickets Some [replicate 32 0] [1]
       (insert_tls13_ticket [1] (5::nat) (set_kx_hint [1] (9::nat) (ticket_store_new 2))) client_ticket_vault_new
       = Some (st1, v1, Some blob) \<and>
     import_client_tickets Some [2] blob (ticket_store_new 1) v1 = (dest1, v2, False) \<and>
     import_client_tickets Some [1] blob dest1 v2 = (dest2, v3, True) \<and>
     hm_get (client dest2) [1] = Some \<lparr>kx_hint_field = Some 9, tls13 = [5]\<rparr> \<and>
     import_client_tickets Some [1] blob dest2 v3 = (dest2, v3, False)"
proof -
  let ?st = "insert_tls13_ticket [1 :: byte] (5::nat) (set_kx_hint [1] (9::nat) (ticket_store_new 2))"
  have "map_option (\<lambda>(st, v, b). b \<noteq> None)
      (export_client_tickets Some [replicate 32 0] [1] ?st client_ticket_vault_new) = Some True"
    by code_simp
  then obtain st1 v1 blob where ex: "export_client_tickets Some [replicate 32 0] [1] ?st client_ticket_vault_new
       = Some (st1, v1, Some blob)"
    by (auto split: prod.splits)
  obtain dest1 v2 wrong where im1: "import_client_tickets Some [2] blob (ticket_store_new 1) v1 = (dest1, v2, wrong)"
    using prod_cases3 by blast
  obtain dest2 v3 right where im2: "import_client_tickets Some [1] blob dest1 v2 = (dest2, v3, right)"
    using prod_cases3 by blast
  have ok: "ticket_store_ok ?st"
    by (simp add: insert_tls13_ticket_ok set_kx_hint_ok ticket_store_new_ok)
  have get: "hm_get (client ?st) [1] = Some \<lparr>kx_hint_field = Some 9, tls13 = [5]\<rparr>"
    by code_simp
  show ?thesis
    using export_import_roundtrip [OF ok vault_new_ok _ ex _ ticket_store_new_ok _ _ im1 im2, of "[1]"]
      ex im1 im2 get
    by (simp add: CLIENT_TICKET_TOKEN_LEN_def ticket_store_new_def Let_def)
qed

end
