(* ===== verification/Endpoint_State.thy ===== *)
theory Endpoint_State
  imports Event_Queue Rate_Limiter Capsule Qpack_Section Wt_Error
begin

text \<open>
  The state of the WebAssembly endpoint (\<^verbatim>\<open>WtEndpoint\<close>, \<^verbatim>\<open>Session\<close>, \<^verbatim>\<open>InStream\<close> of
  \<^verbatim>\<open>crates/wasm/src/endpoint.rs\<close>), its decision helpers, and what it knows of a QUIC connection.

  The QUIC state machine itself (quinn-proto) is not part of the program. A connection is known by
  the answers it will give to the calls of the endpoint until the next packet or timer: a tape with
  one list of answers per kind of call, and a log of the calls that only go out. Nothing is assumed
  of the answers; a theorem about the endpoint holds for every tape. The only contract built in is
  the documented bound of a read: a chunk longer than the caller's limit is handed out in parts.

  The iteration order of the maps and sets is the order of the lists that stand for them.
\<close>

section \<open>Hash sets\<close>

type_synonym 'a hash_set = "'a list"

definition hs_insert :: "'a \<Rightarrow> 'a hash_set \<Rightarrow> 'a hash_set" where
  "hs_insert x s = (if x \<in> set s then s else s @ [x])"

definition hs_remove :: "'a \<Rightarrow> 'a hash_set \<Rightarrow> 'a hash_set" where
  "hs_remove x s = removeAll x s"

section \<open>What quinn answers\<close>

type_synonym stream_id = u64
type_synonym conn_handle = nat

datatype dir = Dir_Bi | Dir_Uni

datatype side = Side_Client | Side_Server

text \<open>The two low bits of a stream id (RFC 9000, section 2.1).\<close>

definition sid_dir :: "stream_id \<Rightarrow> dir" where
  "sid_dir sid = (if sid AND 2 = 0 then Dir_Bi else Dir_Uni)"

definition sid_initiator :: "stream_id \<Rightarrow> side" where
  "sid_initiator sid = (if sid AND 1 = 0 then Side_Client else Side_Server)"

datatype connection_error =
    LocallyClosed
  | ApplicationClosed u64
  | TimedOut
  | TransportError u64
  | ConnectionClosedByPeer u64
  | OtherLoss

datatype quic_event =
    Quic_Connected
  | Quic_Opened dir
  | Quic_Readable
  | Quic_Stopped stream_id u64
  | Quic_DatagramReceived
  | Quic_ConnectionLost connection_error
  | Quic_Other

text \<open>
  Answers to \<^verbatim>\<open>rs.read(true)\<close> and \<^verbatim>\<open>chunks.next\<close>: \<open>Closed_Stream\<close> and \<open>Not_Readable\<close> are errors of
  the first, the others come from the second.
\<close>

datatype read_answer =
    Chunk bytes
  | End_Of_Stream
  | Reset_By_Peer u64
  | Read_Blocked
  | Closed_Stream
  | Not_Readable

datatype write_answer = Write_Ok nat | Write_Blocked | Write_Failed

datatype datagram_answer = Datagram_Ok | Datagram_TooLarge | Datagram_Failed

datatype quinn_call =
    Call_Write stream_id bytes
  | Call_Finish stream_id
  | Call_Reset stream_id u64
  | Call_Stop stream_id u64
  | Call_Close u64 bytes
  | Call_Datagram bytes
  | Call_Handle_Event
  | Call_Handle_Timeout

record quinn_conn =
  q_side :: side
  q_events :: "quic_event list"
  q_accept :: "dir \<Rightarrow> stream_id list"
  q_open :: "dir \<Rightarrow> stream_id list"
  q_reads :: "(stream_id, read_answer list) hash_map"
  q_datagrams :: "bytes list"
  q_writes :: "write_answer list"
  q_sends :: "datagram_answer list"
  q_max_size :: "nat option"
  q_transmits :: "(bytes \<times> socket_addr) list"
  q_timeout :: "instant option"
  q_calls :: "quinn_call list"

definition log_call :: "quinn_call \<Rightarrow> quinn_conn \<Rightarrow> quinn_conn" where
  "log_call c q = q\<lparr>q_calls := q_calls q @ [c]\<rparr>"

datatype read_outcome = Open | Finished | Reset u64

text \<open>The loop of \<^verbatim>\<open>read_stream\<close>; \<open>room\<close> is \<^verbatim>\<open>max_bytes - out.len()\<close>.\<close>

fun read_chunks :: "nat \<Rightarrow> bytes \<Rightarrow> read_answer list \<Rightarrow> bytes \<times> read_outcome \<times> read_answer list" where
  "read_chunks room out [] = (out, Open, [])"
| "read_chunks room out (ans # rest) =
     (if room = 0 then (out, Open, ans # rest)
      else case ans of
        Chunk c \<Rightarrow>
          if c = [] then (out, Open, rest)
          else if length c > room then (out @ take room c, Open, Chunk (drop room c) # rest)
          else read_chunks (room - length c) (out @ c) rest
      | End_Of_Stream \<Rightarrow> (out, Finished, rest)
      | Reset_By_Peer code \<Rightarrow> (out, Reset code, rest)
      | _ \<Rightarrow> (out, Open, rest))"

text \<open>\<^verbatim>\<open>read_stream\<close>: with no room only the end of the stream is probed.\<close>

definition read_stream :: "nat \<Rightarrow> read_answer list \<Rightarrow> bytes \<times> read_outcome \<times> read_answer list" where
  "read_stream max_bytes answers =
     (case answers of
        Closed_Stream # rest \<Rightarrow> ([], Finished, rest)
      | Not_Readable # rest \<Rightarrow> ([], Open, rest)
      | _ \<Rightarrow>
        if max_bytes = 0 then
          (case answers of
             End_Of_Stream # rest \<Rightarrow> ([], Finished, rest)
           | Reset_By_Peer code # rest \<Rightarrow> ([], Reset code, rest)
           | Read_Blocked # rest \<Rightarrow> ([], Open, rest)
           | _ \<Rightarrow> ([], Open, answers))
        else read_chunks max_bytes [] answers)"

section \<open>State\<close>

record in_stream =
  is_kind :: "u64 option"
  is_bidi :: bool
  is_sid_read :: bool
  is_wt_session_id :: "u64 option"
  is_handle :: "u32 option"
  is_connect_admitted :: bool
  is_buf :: bytes

record pending_client_connect =
  pc_rx :: bytes
  pc_deadline :: "instant option"

record session =
  authority :: bytes
  control :: control_state
  control_send_stream :: "stream_id option"
  connect_stream :: "stream_id option"
  extra_sessions :: "stream_id hash_set"
  pending_client_connects :: "(stream_id, pending_client_connect) hash_map"
  connect_self_opened :: bool
  established :: bool
  connect_closed :: bool
  connect_deadline :: "instant option"
  connect_rx :: bytes
  qpack :: qpack_session
  qpack_encoder_send :: "stream_id option"
  qpack_blocked_streams :: "stream_id hash_set"
  in_streams :: "(stream_id, in_stream) hash_map"
  capsules :: "(stream_id, capsule_assembler) hash_map"
  extra_rx :: "(stream_id, bytes) hash_map"
  self_bidi :: "(stream_id, u32) hash_map"

record capacity_wait_queue =
  wait_order :: "u32 list"
  wait_present :: "u32 hash_set"

record wt_endpoint =
  is_server :: bool
  conns :: "(conn_handle, quinn_conn) hash_map"
  sessions :: "(conn_handle, session) hash_map"
  handle_to_id :: "(conn_handle, u32) hash_map"
  id_to_handle :: "(u32, conn_handle) hash_map"
  next_id :: u32
  stream_index :: "(u32, conn_handle \<times> stream_id) hash_map"
  rev_index :: "(conn_handle \<times> stream_id, u32) hash_map"
  stream_sessions :: "(u32, u64) hash_map"
  paused :: "u32 hash_set"
  half_done :: "(u32, byte) hash_map"
  next_stream :: u32
  queue :: event_queue
  endpoint_tx :: "(bytes \<times> socket_addr) list"
  rate_limiter :: peer_rate_limiter
  handshake_reservations :: "(conn_handle, reservation) hash_map"
  session_reservations :: "(conn_handle, reservation) hash_map"
  stream_reservations :: "(u32, reservation) hash_map"
  capacity_waiters :: capacity_wait_queue
  handshake_timeout_ms :: nat
  wt_max_sessions :: nat
  enable_0rtt :: bool
  nst_flush_remaining :: "(conn_handle, nat) hash_map"
  session_closed_count :: nat
  qpack_settings :: qpack_local_settings
  panicked :: bool

section \<open>Decisions\<close>

definition clamp_varint_to_u32 :: "u64 \<Rightarrow> u32" where
  "clamp_varint_to_u32 v = (if unat v \<le> 4294967295 then ucast v else 4294967295)"

definition remap_wt_app_error :: "u32 \<Rightarrow> u64" where
  "remap_wt_app_error code =
     (let v = remap_application_error code in if unat v < 2 ^ 62 then v else 2 ^ 62 - 1)"

definition unmap_wt_app_error :: "u64 \<Rightarrow> u32" where
  "unmap_wt_app_error v =
     (case unmap_application_error v of Some code \<Rightarrow> code | None \<Rightarrow> clamp_varint_to_u32 v)"

definition WT_MAX_SESSIONS_DEFAULT :: nat where
  "WT_MAX_SESSIONS_DEFAULT = 2"

definition WT_MAX_SESSIONS_HARD_CAP :: nat where
  "WT_MAX_SESSIONS_HARD_CAP = 256"

definition clamp_wt_max_sessions :: "nat \<Rightarrow> nat" where
  "clamp_wt_max_sessions v = clamp v 1 WT_MAX_SESSIONS_HARD_CAP"

definition primary_wt_session_live :: "bool \<Rightarrow> bool \<Rightarrow> bool \<Rightarrow> bool" where
  "primary_wt_session_live est was_closed has_connect_stream \<longleftrightarrow> est \<and> \<not> was_closed \<and> has_connect_stream"

definition should_track_connect_deadline :: "bool \<Rightarrow> bool \<Rightarrow> bool" where
  "should_track_connect_deadline est was_closed \<longleftrightarrow> \<not> est \<and> \<not> was_closed"

definition sooner_deadline :: "instant option \<Rightarrow> instant \<Rightarrow> instant option" where
  "sooner_deadline current candidate =
     Some (case current of Some s \<Rightarrow> if s \<le> candidate then s else candidate | None \<Rightarrow> candidate)"

definition push_transmit_if_ready ::
  "(bytes \<times> socket_addr) list \<Rightarrow> bytes \<Rightarrow> socket_addr option \<Rightarrow> (bytes \<times> socket_addr) list" where
  "push_transmit_if_ready out buf dest =
     (case dest of Some destination \<Rightarrow> if buf \<noteq> [] then out @ [(buf, destination)] else out | None \<Rightarrow> out)"

definition should_backpressure_zero_progress_read :: "nat \<Rightarrow> bool \<Rightarrow> bool \<Rightarrow> bool" where
  "should_backpressure_zero_progress_read read_limit made_progress outcome_open \<longleftrightarrow>
     read_limit = 0 \<and> \<not> made_progress \<and> outcome_open"

definition should_emit_stream_payload :: "bool \<Rightarrow> bool \<Rightarrow> bool" where
  "should_emit_stream_payload payload_empty finished \<longleftrightarrow> \<not> payload_empty \<or> finished"

definition should_emit_self_bidi_chunk :: "bool \<Rightarrow> bool \<Rightarrow> bool" where
  "should_emit_self_bidi_chunk made_progress finished \<longleftrightarrow> made_progress \<or> finished"

definition connect_deadline_expired :: "bool \<Rightarrow> bool \<Rightarrow> instant option \<Rightarrow> instant \<Rightarrow> bool" where
  "connect_deadline_expired est was_closed deadline now \<longleftrightarrow>
     \<not> est \<and> \<not> was_closed \<and> (case deadline of Some d \<Rightarrow> d \<le> now | None \<Rightarrow> False)"

definition datagram_payload_exceeds_caps :: "nat \<Rightarrow> nat \<Rightarrow> nat option \<Rightarrow> bool" where
  "datagram_payload_exceeds_caps payload_len local_limit negotiated \<longleftrightarrow>
     payload_len > local_limit \<or> (case negotiated of Some m \<Rightarrow> payload_len > m | None \<Rightarrow> False)"

definition should_stop_read_batch :: "bool \<Rightarrow> bool \<Rightarrow> bool" where
  "should_stop_read_batch outcome_open made_progress \<longleftrightarrow> \<not> outcome_open \<or> \<not> made_progress"

definition should_wait_for_event_slots :: "nat \<Rightarrow> bool \<Rightarrow> bool" where
  "should_wait_for_event_slots required_slots has_capacity \<longleftrightarrow> required_slots \<noteq> 0 \<and> \<not> has_capacity"

definition qpack_blocking_forbidden :: "u64 \<Rightarrow> bool" where
  "qpack_blocking_forbidden max_blocked \<longleftrightarrow> max_blocked = 0"

fun required_slots_for_in_stream :: "u64 option \<Rightarrow> bool \<Rightarrow> bool \<Rightarrow> nat" where
  "required_slots_for_in_stream None bidi has_handle = 2"
| "required_slots_for_in_stream (Some kind) bidi has_handle =
     (if kind = stream_type_CONTROL \<or> kind = stream_type_QPACK_ENCODER \<or> kind = stream_type_QPACK_DECODER then 0
      else if kind = frame_HEADERS \<and> bidi then 0
      else if (kind = stream_type_WT_UNI \<or> kind = frame_WT_BIDI) \<and> has_handle then 1
      else if kind = stream_type_WT_UNI \<or> kind = frame_WT_BIDI then 2
      else 0)"

datatype peer_stream_class =
    Class_Control
  | Class_ServerConnect
  | Class_QpackEncoder
  | Class_QpackDecoder
  | Class_WebTransport
  | Class_Ignore

definition classify_peer_stream_kind :: "u64 \<Rightarrow> bool \<Rightarrow> peer_stream_class" where
  "classify_peer_stream_kind kind bidi =
     (if kind = stream_type_CONTROL then Class_Control
      else if kind = frame_HEADERS \<and> bidi then Class_ServerConnect
      else if kind = stream_type_QPACK_ENCODER then Class_QpackEncoder
      else if kind = stream_type_QPACK_DECODER then Class_QpackDecoder
      else if kind = stream_type_WT_UNI \<or> kind = frame_WT_BIDI then Class_WebTransport
      else Class_Ignore)"

datatype connect_status_kind = Success | Interim | Failure

definition classify_connect_status :: "nat option \<Rightarrow> connect_status_kind" where
  "classify_connect_status status =
     (case status of
        Some n \<Rightarrow> if 200 \<le> n \<and> n \<le> 299 then Success else if 100 \<le> n \<and> n \<le> 199 then Interim else Failure
      | None \<Rightarrow> Failure)"

definition headers_are_webtransport_connect :: "header_field list \<Rightarrow> bool" where
  "headers_are_webtransport_connect headers \<longleftrightarrow>
     list_ex (\<lambda>(k, v). k = str_lit '':method'' \<and> v = str_lit ''CONNECT'') headers \<and>
     list_ex (\<lambda>(k, v). k = str_lit '':protocol'' \<and> v = str_lit ''webtransport'') headers"

text \<open>\<^verbatim>\<open>str::parse::<u16>\<close>: an optional plus sign, then digits, without overflow.\<close>

fun digits_value :: "nat \<Rightarrow> bytes \<Rightarrow> nat option" where
  "digits_value acc [] = Some acc"
| "digits_value acc (b # bs) =
     (if 48 \<le> unat b \<and> unat b \<le> 57 \<and> acc * 10 + (unat b - 48) \<le> 65535
      then digits_value (acc * 10 + (unat b - 48)) bs else None)"

definition parse_u16 :: "bytes \<Rightarrow> nat option" where
  "parse_u16 s =
     (let ds = (case s of b # rest \<Rightarrow> if b = 43 then rest else s | [] \<Rightarrow> []) in
      if ds = [] then None else digits_value 0 ds)"

definition status_of :: "header_field list \<Rightarrow> nat option" where
  "status_of headers =
     (case find (\<lambda>(k, _). k = str_lit '':status'') headers of
        Some (_, v) \<Rightarrow> parse_u16 v | None \<Rightarrow> None)"

section \<open>Losses of a connection\<close>

fun decimal :: "nat \<Rightarrow> string" where
  "decimal n = (if n < 10 then [char_of (48 + n)] else decimal (n div 10) @ [char_of (48 + n mod 10)])"

definition tls_alert_error :: "connection_error \<Rightarrow> string option" where
  "tls_alert_error reason =
     (let alert = (\<lambda>code. if 0x100 \<le> unat code \<and> unat code < 0x200
          then Some (''E_TLS: handshake failed with TLS alert '' @ decimal (unat code - 0x100)) else None) in
      case reason of
        TransportError code \<Rightarrow> alert code
      | ConnectionClosedByPeer code \<Rightarrow> alert code
      | _ \<Rightarrow> None)"

definition connection_lost_signal :: "connection_error \<Rightarrow> (string option \<times> u32) option" where
  "connection_lost_signal reason =
     (case reason of
        LocallyClosed \<Rightarrow> None
      | ApplicationClosed code \<Rightarrow> Some (None, clamp_varint_to_u32 code)
      | TimedOut \<Rightarrow> Some (Some ''E_SESSION_IDLE_TIMEOUT: connection idle timeout'', 0)
      | _ \<Rightarrow> Some (tls_alert_error reason, 0))"

end
