(* ===== verification/Endpoint_Teardown.thy ===== *)
theory Endpoint_Teardown
  imports Endpoint_State
begin

text \<open>
  The registry of connections, sessions and streams of the endpoint and everything that takes
  entries out of it: finished stream halves, ended sessions, protocol errors and closed connections
  (\<^verbatim>\<open>crates/wasm/src/endpoint.rs\<close>).

  Removing a \<^verbatim>\<open>Reservation\<close> from a map drops it, which gives its amount back to the governor;
  inserting over an old one drops the old one.
\<close>

section \<open>Access\<close>

definition set_last_error :: "string \<Rightarrow> wt_endpoint \<Rightarrow> wt_endpoint" where
  "set_last_error err e = e\<lparr>queue := (queue e)\<lparr>last_error := Some err\<rparr>\<rparr>"

definition take_last_error :: "wt_endpoint \<Rightarrow> wt_endpoint \<times> string option" where
  "take_last_error e = (e\<lparr>queue := (queue e)\<lparr>last_error := None\<rparr>\<rparr>, last_error (queue e))"

definition ep_push_event :: "wt_event \<Rightarrow> wt_endpoint \<Rightarrow> wt_endpoint" where
  "ep_push_event ev e = e\<lparr>queue := push_event ev (queue e)\<rparr>"

definition upd_governor :: "(governor_inner \<Rightarrow> governor_inner) \<Rightarrow> wt_endpoint \<Rightarrow> wt_endpoint" where
  "upd_governor f e = e\<lparr>queue := (queue e)\<lparr>governor := f (governor (queue e))\<rparr>\<rparr>"

text \<open>\<^verbatim>\<open>if let Some(conn) = self.conns.get_mut(&h)\<close> and \<^verbatim>\<open>self.sessions.get_mut(&h)\<close>.\<close>

definition quinn :: "conn_handle \<Rightarrow> (quinn_conn \<Rightarrow> quinn_conn) \<Rightarrow> wt_endpoint \<Rightarrow> wt_endpoint" where
  "quinn h f e = e\<lparr>conns := hm_modify h f (conns e)\<rparr>"

definition upd_session :: "conn_handle \<Rightarrow> (session \<Rightarrow> session) \<Rightarrow> wt_endpoint \<Rightarrow> wt_endpoint" where
  "upd_session h f e = e\<lparr>sessions := hm_modify h f (sessions e)\<rparr>"

definition call :: "conn_handle \<Rightarrow> quinn_call \<Rightarrow> wt_endpoint \<Rightarrow> wt_endpoint" where
  "call h c = quinn h (log_call c)"

section \<open>Sessions\<close>

definition active_wt_count :: "session \<Rightarrow> nat" where
  "active_wt_count s =
     (if primary_wt_session_live (established s) (connect_closed s) (connect_stream s \<noteq> None) then 1 else 0)
       + length (extra_sessions s) + length (pending_client_connects s)"

definition is_wt_connect :: "stream_id \<Rightarrow> session \<Rightarrow> bool" where
  "is_wt_connect sid s \<longleftrightarrow> connect_stream s = Some sid \<or> sid \<in> set (extra_sessions s)"

definition all_connect_streams :: "session \<Rightarrow> stream_id list" where
  "all_connect_streams s =
     (case connect_stream s of Some c \<Rightarrow> [c] | None \<Rightarrow> []) @ extra_sessions s"

definition live_connect_streams :: "session \<Rightarrow> stream_id list" where
  "live_connect_streams s =
     (case connect_stream s of Some c \<Rightarrow> if connect_closed s then [] else [c] | None \<Rightarrow> []) @ extra_sessions s"

definition resolve_wt_session :: "u64 \<Rightarrow> session \<Rightarrow> stream_id option" where
  "resolve_wt_session session_id s =
     find (\<lambda>sid. sid = session_id) (all_connect_streams s @ map fst (pending_client_connects s))"

definition session_for_qsid :: "u64 \<Rightarrow> session \<Rightarrow> stream_id option" where
  "session_for_qsid qsid s = find (\<lambda>sid. sid div 4 = qsid) (all_connect_streams s)"

definition count_unlatched_connect_streams :: "session \<Rightarrow> nat" where
  "count_unlatched_connect_streams s =
     length (filter (\<lambda>(sid, st). is_connect_admitted st \<and> is_bidi st \<and> is_kind st = Some frame_HEADERS \<and>
       \<not> is_wt_connect sid s) (in_streams s))"

definition note_qpack_header_blocked ::
  "conn_handle \<Rightarrow> stream_id option \<Rightarrow> wt_endpoint \<Rightarrow> wt_endpoint \<times> (bytes + unit)" where
  "note_qpack_header_blocked h sid e =
     (case hm_get (sessions e) h of
        None \<Rightarrow> (e, Inr ())
      | Some s \<Rightarrow>
        let max_blocked = qd_max_blocked_streams (qs_decoder (qpack s)) in
        if qpack_blocking_forbidden max_blocked then (e, Inl (str_lit ''QPACK blocked streams not permitted''))
        else case sid of
          None \<Rightarrow> (e, Inr ())
        | Some sid \<Rightarrow>
          let limit = (case usize_try_from max_blocked of Some n \<Rightarrow> n | None \<Rightarrow> usize_MAX) in
          if sid \<notin> set (qpack_blocked_streams s) \<and> length (qpack_blocked_streams s) \<ge> limit
          then (e, Inl (str_lit ''QPACK blocked stream limit exceeded''))
          else (upd_session h (\<lambda>s. s\<lparr>qpack_blocked_streams := hs_insert sid (qpack_blocked_streams s)\<rparr>) e, Inr ()))"

definition clear_qpack_header_blocked :: "conn_handle \<Rightarrow> stream_id \<Rightarrow> wt_endpoint \<Rightarrow> wt_endpoint" where
  "clear_qpack_header_blocked h sid =
     upd_session h (\<lambda>s. s\<lparr>qpack_blocked_streams := hs_remove sid (qpack_blocked_streams s)\<rparr>)"

definition push_session_closed :: "u32 \<Rightarrow> u64 \<Rightarrow> u32 \<Rightarrow> bytes \<Rightarrow> wt_endpoint \<Rightarrow> wt_endpoint" where
  "push_session_closed conn session_id code reason e =
     ep_push_event (SessionClosed conn session_id code reason)
       (e\<lparr>session_closed_count := sat_add u64_MAX (session_closed_count e) 1\<rparr>)"

section \<open>Connections waiting for capacity\<close>

definition wait_enqueue :: "u32 \<Rightarrow> capacity_wait_queue \<Rightarrow> capacity_wait_queue" where
  "wait_enqueue conn w =
     (if conn \<in> set (wait_present w) then w
      else w\<lparr>wait_present := hs_insert conn (wait_present w), wait_order := wait_order w @ [conn]\<rparr>)"

definition wait_pop_front :: "capacity_wait_queue \<Rightarrow> capacity_wait_queue \<times> u32 option" where
  "wait_pop_front w =
     (case wait_order w of
        [] \<Rightarrow> (w, None)
      | conn # rest \<Rightarrow> (w\<lparr>wait_order := rest, wait_present := hs_remove conn (wait_present w)\<rparr>, Some conn))"

definition enqueue_capacity_waiter :: "conn_handle \<Rightarrow> wt_endpoint \<Rightarrow> wt_endpoint" where
  "enqueue_capacity_waiter h e =
     (case hm_get (handle_to_id e) h of
        Some conn \<Rightarrow> e\<lparr>capacity_waiters := wait_enqueue conn (capacity_waiters e)\<rparr>
      | None \<Rightarrow> e)"

section \<open>Reservations in maps\<close>

definition release_from :: "'k \<Rightarrow> ('k, reservation) hash_map \<Rightarrow> governor_inner \<Rightarrow> governor_inner" where
  "release_from k m g = (case hm_get m k of Some r \<Rightarrow> reservation_drop r g | None \<Rightarrow> g)"

definition remove_handshake :: "conn_handle \<Rightarrow> wt_endpoint \<Rightarrow> wt_endpoint" where
  "remove_handshake h e =
     upd_governor (release_from h (handshake_reservations e))
       (e\<lparr>handshake_reservations := hm_remove h (handshake_reservations e)\<rparr>)"

definition remove_session_reservation :: "conn_handle \<Rightarrow> wt_endpoint \<Rightarrow> wt_endpoint" where
  "remove_session_reservation h e =
     upd_governor (release_from h (session_reservations e))
       (e\<lparr>session_reservations := hm_remove h (session_reservations e)\<rparr>)"

definition remove_stream_reservation :: "u32 \<Rightarrow> wt_endpoint \<Rightarrow> wt_endpoint" where
  "remove_stream_reservation wh e =
     upd_governor (release_from wh (stream_reservations e))
       (e\<lparr>stream_reservations := hm_remove wh (stream_reservations e)\<rparr>)"

definition insert_handshake :: "conn_handle \<Rightarrow> reservation \<Rightarrow> wt_endpoint \<Rightarrow> wt_endpoint" where
  "insert_handshake h r e =
     upd_governor (release_from h (handshake_reservations e))
       (e\<lparr>handshake_reservations := hm_insert h r (handshake_reservations e)\<rparr>)"

definition insert_session_reservation :: "conn_handle \<Rightarrow> reservation \<Rightarrow> wt_endpoint \<Rightarrow> wt_endpoint" where
  "insert_session_reservation h r e =
     upd_governor (release_from h (session_reservations e))
       (e\<lparr>session_reservations := hm_insert h r (session_reservations e)\<rparr>)"

definition insert_stream_reservation :: "u32 \<Rightarrow> reservation \<Rightarrow> wt_endpoint \<Rightarrow> wt_endpoint" where
  "insert_stream_reservation wh r e =
     upd_governor (release_from wh (stream_reservations e))
       (e\<lparr>stream_reservations := hm_insert wh r (stream_reservations e)\<rparr>)"

section \<open>The stream index\<close>

definition HALF_RECV :: byte where
  "HALF_RECV = 1"

definition HALF_SEND :: byte where
  "HALF_SEND = 2"

definition index_insert :: "u32 \<Rightarrow> conn_handle \<Rightarrow> stream_id \<Rightarrow> u64 \<Rightarrow> wt_endpoint \<Rightarrow> wt_endpoint" where
  "index_insert wh h sid session_id e =
     e\<lparr>stream_index := hm_insert wh (h, sid) (stream_index e),
       rev_index := hm_insert (h, sid) wh (rev_index e),
       stream_sessions := hm_insert wh session_id (stream_sessions e)\<rparr>"

definition index_remove :: "u32 \<Rightarrow> wt_endpoint \<Rightarrow> wt_endpoint" where
  "index_remove wh e =
     (let e = (case hm_get (stream_index e) wh of
          Some (h, sid) \<Rightarrow>
            e\<lparr>stream_index := hm_remove wh (stream_index e), rev_index := hm_remove (h, sid) (rev_index e)\<rparr>
        | None \<Rightarrow> e) in
      e\<lparr>stream_sessions := hm_remove wh (stream_sessions e)\<rparr>)"

definition unpause :: "u32 \<Rightarrow> wt_endpoint \<Rightarrow> wt_endpoint" where
  "unpause wh e = e\<lparr>paused := hs_remove wh (paused e)\<rparr>"

definition mark_stream_half_done :: "u32 \<Rightarrow> byte \<Rightarrow> wt_endpoint \<Rightarrow> wt_endpoint" where
  "mark_stream_half_done wh half e =
     (let bits = (case hm_get (half_done e) wh of Some b \<Rightarrow> b | None \<Rightarrow> 0) OR half in
      if bits = HALF_RECV OR HALF_SEND then
        remove_stream_reservation wh (unpause wh (index_remove wh
          (e\<lparr>half_done := hm_remove wh (half_done e)\<rparr>)))
      else e\<lparr>half_done := hm_insert wh bits (half_done e)\<rparr>)"

definition stream_handle_for :: "conn_handle \<Rightarrow> stream_id \<Rightarrow> wt_endpoint \<Rightarrow> u32 option" where
  "stream_handle_for h sid e =
     (let from_session =
        (case hm_get (sessions e) h of
           None \<Rightarrow> None
         | Some s \<Rightarrow>
           (case hm_get (in_streams s) sid of
              Some st \<Rightarrow> (case is_handle st of Some wh \<Rightarrow> Some wh | None \<Rightarrow> hm_get (self_bidi s) sid)
            | None \<Rightarrow> hm_get (self_bidi s) sid)) in
      case from_session of Some wh \<Rightarrow> Some wh | None \<Rightarrow> hm_get (rev_index e) (h, sid))"

definition retire_in_stream :: "conn_handle \<Rightarrow> stream_id \<Rightarrow> wt_endpoint \<Rightarrow> wt_endpoint" where
  "retire_in_stream h sid e =
     (case hm_get (sessions e) h of
        None \<Rightarrow> e
      | Some s \<Rightarrow>
        (case hm_get (in_streams s) sid of
           None \<Rightarrow> e
         | Some st \<Rightarrow>
           let e = upd_session h (\<lambda>s. s\<lparr>in_streams := hm_remove sid (in_streams s)\<rparr>) e in
           case is_handle st of
             Some wh \<Rightarrow> mark_stream_half_done wh HALF_RECV (unpause wh e)
           | None \<Rightarrow> e))"

definition emit_stream_reset :: "conn_handle \<Rightarrow> stream_id \<Rightarrow> u32 \<Rightarrow> wt_endpoint \<Rightarrow> wt_endpoint" where
  "emit_stream_reset h sid code e =
     (case stream_handle_for h sid e of
        Some stream \<Rightarrow>
          (case hm_get (handle_to_id e) h of
             Some conn \<Rightarrow> ep_push_event (StreamReset conn stream code) e
           | None \<Rightarrow> e)
      | None \<Rightarrow> e)"

definition on_stream_stopped :: "conn_handle \<Rightarrow> stream_id \<Rightarrow> u32 \<Rightarrow> wt_endpoint \<Rightarrow> wt_endpoint" where
  "on_stream_stopped h sid code e =
     (case stream_handle_for h sid e of
        Some stream \<Rightarrow>
          (case hm_get (handle_to_id e) h of
             Some conn \<Rightarrow> mark_stream_half_done stream HALF_SEND (ep_push_event (StreamStopped conn stream code) e)
           | None \<Rightarrow> e)
      | None \<Rightarrow> e)"

section \<open>Ending a session\<close>

text \<open>
  Resetting a stream of an ended session. A unidirectional stream has only the half of the side
  that opened it.
\<close>

definition abort_stream :: "conn_handle \<Rightarrow> stream_id \<Rightarrow> wt_endpoint \<Rightarrow> wt_endpoint" where
  "abort_stream h sid e =
     (case hm_get (conns e) h of
        None \<Rightarrow> e
      | Some c \<Rightarrow>
        let gone = ucast WT_SESSION_GONE;
            opened_locally = (sid_initiator sid = q_side c);
            bidi = (sid_dir sid = Dir_Bi);
            e = (if bidi \<or> opened_locally then call h (Call_Reset sid gone) e else e)
        in if bidi \<or> \<not> opened_locally then call h (Call_Stop sid gone) e else e)"

definition drop_stream_entry :: "stream_id \<Rightarrow> session \<Rightarrow> session" where
  "drop_stream_entry sid s =
     s\<lparr>self_bidi := hm_remove sid (self_bidi s), in_streams := hm_remove sid (in_streams s)\<rparr>"

text \<open>One round of the loop of \<^verbatim>\<open>reset_session_streams\<close>.\<close>

definition reset_session_stream :: "conn_handle \<Rightarrow> u32 \<Rightarrow> u32 \<times> stream_id \<Rightarrow> wt_endpoint \<Rightarrow> wt_endpoint" where
  "reset_session_stream h conn_id = (\<lambda>(wh, sid) e.
     let e = upd_session h (drop_stream_entry sid) (abort_stream h sid e);
         e = unpause wh e;
         e = e\<lparr>half_done := hm_remove wh (half_done e)\<rparr>;
         e = index_remove wh (remove_stream_reservation wh e)
     in ep_push_event (StreamReset conn_id wh WT_SESSION_GONE) e)"

definition session_streams :: "conn_handle \<Rightarrow> u64 \<Rightarrow> wt_endpoint \<Rightarrow> (u32 \<times> stream_id) list" where
  "session_streams h session_id e =
     map (\<lambda>(wh, _, sid). (wh, sid))
       (filter (\<lambda>(wh, sh, _). sh = h \<and> hm_get (stream_sessions e) wh = Some session_id) (stream_index e))"

definition reset_session_streams :: "conn_handle \<Rightarrow> u32 \<Rightarrow> u64 \<Rightarrow> wt_endpoint \<Rightarrow> wt_endpoint" where
  "reset_session_streams h conn_id session_id e =
     fold (reset_session_stream h conn_id) (session_streams h session_id e) e"

text \<open>Whether a session is established and not yet ended, and taking it out of the registry.\<close>

definition wt_session_live :: "stream_id \<Rightarrow> session \<Rightarrow> bool" where
  "wt_session_live sid s \<longleftrightarrow>
     (if connect_stream s = Some sid then established s \<and> \<not> connect_closed s else sid \<in> set (extra_sessions s))"

definition drop_wt_session :: "stream_id \<Rightarrow> session \<Rightarrow> session" where
  "drop_wt_session sid s =
     (if connect_stream s = Some sid then s\<lparr>connect_closed := True\<rparr>
      else s\<lparr>extra_sessions := hs_remove sid (extra_sessions s)\<rparr>)
     \<lparr>capsules := hm_remove sid (capsules s), extra_rx := hm_remove sid (extra_rx s)\<rparr>"

definition end_wt_session :: "conn_handle \<Rightarrow> stream_id \<Rightarrow> u32 \<Rightarrow> bytes \<Rightarrow> wt_endpoint \<Rightarrow> wt_endpoint" where
  "end_wt_session h sid code reason e =
     (case hm_get (handle_to_id e) h of
        None \<Rightarrow> e
      | Some conn \<Rightarrow>
        (case hm_get (sessions e) h of
           None \<Rightarrow> e
         | Some s \<Rightarrow>
           let e = upd_session h (drop_wt_session sid) e in
           if \<not> wt_session_live sid s then e
           else push_session_closed conn sid code reason (reset_session_streams h conn sid e)))"

section \<open>Ending a connection\<close>

definition release_stream_of :: "conn_handle \<Rightarrow> u32 \<times> conn_handle \<times> stream_id \<Rightarrow> wt_endpoint \<Rightarrow> wt_endpoint" where
  "release_stream_of h = (\<lambda>(wh, sh, sid) e. if sh = h then remove_stream_reservation wh e else e)"

definition release_connection_budget :: "conn_handle \<Rightarrow> wt_endpoint \<Rightarrow> wt_endpoint" where
  "release_connection_budget h e =
     (let e = remove_session_reservation h (remove_handshake h e) in
      fold (release_stream_of h) (stream_index e) e)"

definition close_conn_protocol_error :: "conn_handle \<Rightarrow> u32 \<Rightarrow> bytes \<Rightarrow> wt_endpoint \<Rightarrow> wt_endpoint" where
  "close_conn_protocol_error h code reason e =
     (let e = (case hm_get (handle_to_id e) h of
          Some conn \<Rightarrow> ep_push_event (ConnectionClosed conn code) e | None \<Rightarrow> e)
      in release_connection_budget h (call h (Call_Close (ucast code) reason) e))"

definition fail_session_before_establish :: "conn_handle \<Rightarrow> wt_endpoint \<Rightarrow> wt_endpoint" where
  "fail_session_before_establish h e =
     (case hm_get (handle_to_id e) h of
        None \<Rightarrow> e
      | Some conn \<Rightarrow>
        let already = (case hm_get (sessions e) h of Some s \<Rightarrow> connect_closed s | None \<Rightarrow> True) in
        if already then e
        else
          let e = upd_session h (\<lambda>s. s\<lparr>connect_closed := True, extra_sessions := []\<rparr>) e;
              e = ep_push_event (ConnectionClosed conn 0) e
          in release_connection_budget h (call h (Call_Close 0 []) e))"

text \<open>The closure of \<^verbatim>\<open>retain\<close> in \<^verbatim>\<open>cleanup_connection\<close>, on an entry of the connection.\<close>

definition forget_stream :: "u32 \<times> conn_handle \<times> stream_id \<Rightarrow> wt_endpoint \<Rightarrow> wt_endpoint" where
  "forget_stream = (\<lambda>(wh, sh, sid) e.
     remove_stream_reservation wh
       ((unpause wh e)\<lparr>half_done := hm_remove wh (half_done e), rev_index := hm_remove (sh, sid) (rev_index e)\<rparr>))"

definition cleanup_connection :: "conn_handle \<Rightarrow> instant \<Rightarrow> wt_endpoint \<Rightarrow> wt_endpoint" where
  "cleanup_connection h now e =
     (let e = e\<lparr>conns := hm_remove h (conns e), sessions := hm_remove h (sessions e)\<rparr>;
          e = remove_session_reservation h (remove_handshake h e);
          e = (case hm_get (handle_to_id e) h of
             Some conn \<Rightarrow>
               e\<lparr>handle_to_id := hm_remove h (handle_to_id e), id_to_handle := hm_remove conn (id_to_handle e),
                 rate_limiter := release_connection conn now (rate_limiter e)\<rparr>
           | None \<Rightarrow> e\<lparr>handle_to_id := hm_remove h (handle_to_id e)\<rparr>);
          e = fold forget_stream (filter (\<lambda>(wh, sh, sid). sh = h) (stream_index e)) e
      in e\<lparr>stream_index := filter (\<lambda>(wh, sh, sid). sh \<noteq> h) (stream_index e)\<rparr>)"

definition flush_conn_transmits :: "conn_handle \<Rightarrow> wt_endpoint \<Rightarrow> wt_endpoint" where
  "flush_conn_transmits h e =
     (case hm_get (conns e) h of
        None \<Rightarrow> e
      | Some c \<Rightarrow> quinn h (\<lambda>c. c\<lparr>q_transmits := []\<rparr>) (e\<lparr>endpoint_tx := endpoint_tx e @ q_transmits c\<rparr>))"

definition close_conn :: "u32 \<Rightarrow> u32 \<Rightarrow> bytes \<Rightarrow> instant \<Rightarrow> wt_endpoint \<Rightarrow> wt_endpoint" where
  "close_conn conn_id code reason now e =
     (case hm_get (id_to_handle e) conn_id of
        None \<Rightarrow> e
      | Some h \<Rightarrow>
        let e = call h (Call_Close (ucast code) reason) e;
            e = ep_push_event (ConnectionClosed conn_id code) e
        in cleanup_connection h now (flush_conn_transmits h e))"

definition close_all :: "u32 \<Rightarrow> bytes \<Rightarrow> instant \<Rightarrow> wt_endpoint \<Rightarrow> wt_endpoint" where
  "close_all code reason now e =
     (let e = fold (\<lambda>conn. close_conn conn code reason now) (map fst (id_to_handle e)) e
      in e\<lparr>rate_limiter := clear_limiter (rate_limiter e)\<rparr>)"

end
