(* ===== verification/Endpoint_Connect.thy ===== *)
theory Endpoint_Connect
  imports Endpoint_Teardown
begin

text \<open>
  CONNECT requests and responses, session capsules and the QPACK streams at the level of the
  endpoint (\<^verbatim>\<open>parse_server_connect\<close>, \<^verbatim>\<open>parse_client_connect\<close>, \<^verbatim>\<open>parse_pending_client_connect\<close>,
  \<^verbatim>\<open>parse_extra_connect_capsules\<close>, \<^verbatim>\<open>retry_blocked_connects\<close> and what they call in
  \<^verbatim>\<open>crates/wasm/src/endpoint.rs\<close>). The framing, capsule and QPACK models are the ones of their own
  theories; \<open>huff\<close> is the Huffman decoder.

  The parsing loops end because every round drops a complete frame from a buffer and nothing that
  a round calls puts bytes into one: \<open>shrinks\<close> says so for a whole endpoint.
\<close>

section \<open>Error codes\<close>

definition H3_EXCESSIVE_LOAD :: u32 where "H3_EXCESSIVE_LOAD = 0x0107"
definition H3_INTERNAL_ERROR :: u32 where "H3_INTERNAL_ERROR = 0x0102"
definition H3_MESSAGE_ERROR :: u32 where "H3_MESSAGE_ERROR = 0x010e"
definition QPACK_DECOMPRESSION_FAILED :: u32 where "QPACK_DECOMPRESSION_FAILED = 0x0200"

section \<open>Buffers only shrink\<close>

definition buffered :: "('k, 'v) hash_map \<Rightarrow> ('v \<Rightarrow> bytes) \<Rightarrow> 'k \<Rightarrow> nat" where
  "buffered m f k = (case hm_get m k of None \<Rightarrow> 0 | Some v \<Rightarrow> length (f v))"

definition session_shrinks :: "session \<Rightarrow> session \<Rightarrow> bool" where
  "session_shrinks s s' \<longleftrightarrow>
     (\<forall>sid. buffered (in_streams s') is_buf sid \<le> buffered (in_streams s) is_buf sid \<and>
            buffered (pending_client_connects s') pc_rx sid \<le> buffered (pending_client_connects s) pc_rx sid \<and>
            buffered (extra_rx s') (\<lambda>b. b) sid \<le> buffered (extra_rx s) (\<lambda>b. b) sid) \<and>
     length (connect_rx s') \<le> length (connect_rx s)"

definition shrinks :: "conn_handle \<Rightarrow> wt_endpoint \<Rightarrow> wt_endpoint \<Rightarrow> bool" where
  "shrinks h e e' \<longleftrightarrow>
     (case hm_get (sessions e') h of
        None \<Rightarrow> True
      | Some s' \<Rightarrow> (case hm_get (sessions e) h of None \<Rightarrow> False | Some s \<Rightarrow> session_shrinks s s'))"

lemma buffered_simps [simp]:
  "buffered (hm_remove k m) f k' = (if k' = k then 0 else buffered m f k')"
  "buffered (hm_modify k g m) f k' = (if k' = k then buffered m (f \<circ> g) k else buffered m f k')"
  by (simp_all add: buffered_def split: option.splits)

lemma session_shrinks_refl [simp]: "session_shrinks s s"
  by (simp add: session_shrinks_def)

lemma session_shrinks_trans: "session_shrinks s s' \<Longrightarrow> session_shrinks s' s'' \<Longrightarrow> session_shrinks s s''"
  unfolding session_shrinks_def by (meson le_trans)

lemma shrinks_refl [simp]: "shrinks h e e"
  by (simp add: shrinks_def split: option.splits)

lemma shrinks_trans: "shrinks h e e' \<Longrightarrow> shrinks h e' e'' \<Longrightarrow> shrinks h e e''"
  by (auto simp: shrinks_def split: option.splits intro: session_shrinks_trans)

lemma shrinks_sessions: "sessions e' = sessions e \<Longrightarrow> shrinks h e e'"
  by (simp add: shrinks_def split: option.splits)

lemma shrinks_upd_session: "(\<And>s. session_shrinks s (f s)) \<Longrightarrow> shrinks h e (upd_session h' f e)"
  by (simp add: shrinks_def upd_session_def split: option.splits)

lemma sessions_frame [simp]:
  "sessions (ep_push_event ev e) = sessions e"
  "sessions (call h c e) = sessions e"
  "sessions (quinn h f e) = sessions e"
  "sessions (set_last_error s e) = sessions e"
  "sessions (upd_governor f' e) = sessions e"
  "sessions (remove_handshake h e) = sessions e"
  "sessions (remove_session_reservation h e) = sessions e"
  "sessions (remove_stream_reservation wh e) = sessions e"
  "sessions (unpause wh e) = sessions e"
  "sessions (index_remove wh e) = sessions e"
  "sessions (push_session_closed conn sid code reason e) = sessions e"
  "sessions (abort_stream h sid e) = sessions e"
  "sessions (release_stream_of h x e) = sessions e"
  by (simp_all add: ep_push_event_def call_def quinn_def set_last_error_def upd_governor_def
      remove_handshake_def remove_session_reservation_def remove_stream_reservation_def unpause_def
      index_remove_def push_session_closed_def abort_stream_def release_stream_of_def Let_def
      split: option.splits prod.splits)

lemma sessions_release_budget [simp]: "sessions (release_connection_budget h e) = sessions e"
proof -
  have "sessions (fold (release_stream_of h) xs e') = sessions e'" for xs e'
    by (induction xs arbitrary: e') auto
  then show ?thesis
    by (simp add: release_connection_budget_def Let_def)
qed

lemma sessions_protocol_error [simp]: "sessions (close_conn_protocol_error h code reason e) = sessions e"
  by (simp add: close_conn_protocol_error_def Let_def split: option.splits)

lemma session_shrinks_drop [simp]:
  "session_shrinks s (drop_stream_entry sid s)" "session_shrinks s (drop_wt_session sid s)"
  by (auto simp: session_shrinks_def drop_stream_entry_def drop_wt_session_def)

lemma shrinks_reset_session_stream: "shrinks h e (reset_session_stream h' conn x e)"
proof -
  obtain wh sid where x: "x = (wh, sid)"
    by fastforce
  have "shrinks h e (upd_session h' (drop_stream_entry sid) (abort_stream h' sid e))"
    by (rule shrinks_trans [OF shrinks_sessions shrinks_upd_session]) simp_all
  then show ?thesis
    by (rule shrinks_trans) (rule shrinks_sessions, simp add: x reset_session_stream_def Let_def)
qed

lemma shrinks_fold: "(\<And>x e. shrinks h e (f x e)) \<Longrightarrow> shrinks h e (fold f xs e)"
  by (induction xs arbitrary: e) (auto intro: shrinks_trans)

lemma shrinks_reset_session_streams: "shrinks h e (reset_session_streams h' conn sid e)"
  by (simp add: reset_session_streams_def shrinks_fold shrinks_reset_session_stream)

lemma shrinks_end_wt_session: "shrinks h e (end_wt_session h' sid code reason e)"
proof -
  have 1: "shrinks h e (upd_session h' (drop_wt_session sid) e)"
    by (rule shrinks_upd_session) simp
  have 2: "shrinks h e' (push_session_closed conn sid code reason (reset_session_streams h' conn sid e'))"
    for e' conn
    by (rule shrinks_trans [OF shrinks_reset_session_streams shrinks_sessions]) simp
  show ?thesis
    using 1 shrinks_trans [OF 1 2] by (simp add: end_wt_session_def Let_def split: option.splits)
qed

section \<open>Session capsules\<close>

fun capsule_effect :: "conn_handle \<Rightarrow> stream_id \<Rightarrow> capsule_action \<Rightarrow> wt_endpoint \<Rightarrow> wt_endpoint" where
  "capsule_effect h sid Session_Draining e =
     (case hm_get (handle_to_id e) h of
        Some conn \<Rightarrow> ep_push_event (SessionDraining conn sid) e | None \<Rightarrow> e)"
| "capsule_effect h sid (Session_Ended code reason) e = end_wt_session h sid code reason e"
| "capsule_effect h sid Session_Malformed e =
     (let e = call h (Call_Reset sid (ucast H3_MESSAGE_ERROR)) e;
          e = call h (Call_Stop sid (ucast H3_MESSAGE_ERROR)) e
      in end_wt_session h sid H3_MESSAGE_ERROR [] (set_last_error ''E_PROTOCOL: malformed WebTransport capsule'' e))"

text \<open>
  The assembler runs first, then its actions in order: an action never reads the assembler, and the
  one that ends the session is the last and drops the assembler. (On a connection without an id the
  source would keep the assembler after such a capsule; every registered session's connection has one.)
\<close>

definition ep_feed_session_capsules :: "conn_handle \<Rightarrow> stream_id \<Rightarrow> bytes \<Rightarrow> wt_endpoint \<Rightarrow> wt_endpoint" where
  "ep_feed_session_capsules h sid payload e =
     (case hm_get (sessions e) h of
        None \<Rightarrow> e
      | Some s \<Rightarrow>
        (case feed_session_capsules (hm_get (capsules s) sid) payload of
           (actions, slot) \<Rightarrow>
             fold (capsule_effect h sid) actions
               (upd_session h (\<lambda>s. s\<lparr>capsules :=
                  (case slot of Some a \<Rightarrow> hm_insert sid a (capsules s) | None \<Rightarrow> hm_remove sid (capsules s))\<rparr>) e)))"

lemma shrinks_capsule_effect: "shrinks h e (capsule_effect h' sid act e)"
proof (cases act)
  case Session_Malformed
  show ?thesis
    unfolding Session_Malformed capsule_effect.simps Let_def
    by (rule shrinks_trans [OF shrinks_sessions shrinks_end_wt_session]) simp
qed (auto simp: shrinks_end_wt_session shrinks_sessions split: option.splits)

lemma shrinks_feed: "shrinks h e (ep_feed_session_capsules h' sid payload e)"
proof -
  have "shrinks h e (upd_session h' (\<lambda>s. s\<lparr>capsules := f s\<rparr>) e)" for f
    by (rule shrinks_upd_session) (simp add: session_shrinks_def)
  from shrinks_trans [OF this shrinks_fold [OF shrinks_capsule_effect]] show ?thesis
    by (auto simp: ep_feed_session_capsules_def split: option.splits prod.splits)
qed

section \<open>Header blocks\<close>

text \<open>Running a QPACK operation of a session; without a session the default.\<close>

definition with_qpack ::
  "conn_handle \<Rightarrow> (qpack_session \<Rightarrow> qpack_session \<times> 'a) \<Rightarrow> 'a \<Rightarrow> wt_endpoint \<Rightarrow> wt_endpoint \<times> 'a" where
  "with_qpack h f d e =
     (case hm_get (sessions e) h of
        None \<Rightarrow> (e, d)
      | Some s \<Rightarrow> (case f (qpack s) of (q, x) \<Rightarrow> (upd_session h (\<lambda>s. s\<lparr>qpack := q\<rparr>) e, x)))"

definition literal_headers :: "bytes \<Rightarrow> encoded_headers" where
  "literal_headers frame = \<lparr>eh_headers_frame = frame, eh_encoder_stream = [], eh_ric = 0\<rparr>"

definition encode_connect_ok_for_session :: "qpack_session \<Rightarrow> qpack_session \<times> encoded_headers" where
  "encode_connect_ok_for_session q =
     (case encode_connect_response_ok_with (qs_encoder q) of
        (enc, Inr hdrs) \<Rightarrow> (q\<lparr>qs_encoder := enc\<rparr>, hdrs)
      | (enc, Inl _) \<Rightarrow> (q\<lparr>qs_encoder := enc\<rparr>, literal_headers encode_connect_response_ok))"

definition encode_request_for_session :: "bytes \<Rightarrow> qpack_session \<Rightarrow> qpack_session \<times> encoded_headers" where
  "encode_request_for_session auth q =
     (case encode_connect_request_with auth (str_lit ''/'') (qs_encoder q) of
        (enc, Inr hdrs) \<Rightarrow> (q\<lparr>qs_encoder := enc\<rparr>, hdrs)
      | (enc, Inl _) \<Rightarrow> (q\<lparr>qs_encoder := enc\<rparr>, literal_headers (encode_connect_request auth (str_lit ''/''))))"

definition write_encoded_headers ::
  "conn_handle \<Rightarrow> stream_id \<Rightarrow> encoded_headers \<Rightarrow> wt_endpoint \<Rightarrow> wt_endpoint" where
  "write_encoded_headers h sid enc e =
     (let e = (if eh_encoder_stream enc \<noteq> [] then
                 (case Option.bind (hm_get (sessions e) h) qpack_encoder_send of
                    Some enc_sid \<Rightarrow> call h (Call_Write enc_sid (eh_encoder_stream enc)) e
                  | None \<Rightarrow> e)
               else e);
          e = call h (Call_Write sid (eh_headers_frame enc)) e
      in if eh_ric enc > 0 then
           upd_session h (\<lambda>s. s\<lparr>qpack := (qpack s)\<lparr>qs_pending_section_ric :=
             (qs_pending_section_ric (qpack s))(sid \<mapsto> eh_ric enc)\<rparr>\<rparr>) e
         else e)"

definition emit_qpack_section_ack :: "conn_handle \<Rightarrow> stream_id \<Rightarrow> nat \<Rightarrow> wt_endpoint \<Rightarrow> wt_endpoint" where
  "emit_qpack_section_ack h sid ric e =
     (if ric = 0 then e
      else case Option.bind (hm_get (sessions e) h) (\<lambda>s. qs_decoder_send (qpack s)) of
        None \<Rightarrow> e
      | Some decoder_send \<Rightarrow> call h (Call_Write decoder_send (encode_section_acknowledgement sid)) e)"

text \<open>The response to a request: status headers written on its stream.\<close>

definition respond :: "conn_handle \<Rightarrow> stream_id \<Rightarrow> bytes \<Rightarrow> wt_endpoint \<Rightarrow> wt_endpoint" where
  "respond h sid status e =
     (case with_qpack h (encode_status_for_session status) (literal_headers (encode_status_response status)) e of
        (e, hdrs) \<Rightarrow> call h (Call_Finish sid) (write_encoded_headers h sid hdrs e))"

lemma shrinks_with_qpack: "shrinks h e (fst (with_qpack h' f d e))"
  by (auto simp: with_qpack_def session_shrinks_def intro!: shrinks_upd_session split: option.splits prod.splits)

lemma shrinks_write_encoded_headers: "shrinks h e (write_encoded_headers h' sid enc e)"
proof -
  have 1: "shrinks h e (upd_session h' (\<lambda>s. s\<lparr>qpack := f s\<rparr>) e1)" if "sessions e1 = sessions e" for e1 f
    using that
    by (intro shrinks_trans [OF shrinks_sessions [OF that] shrinks_upd_session]) (simp add: session_shrinks_def)
  show ?thesis
    unfolding write_encoded_headers_def Let_def
    by (simp add: 1 shrinks_sessions split: option.splits)
qed

lemma sessions_section_ack [simp]: "sessions (emit_qpack_section_ack h sid ric e) = sessions e"
  by (simp add: emit_qpack_section_ack_def split: option.splits)

lemma shrinks_respond: "shrinks h e (respond h' sid status e)"
proof (cases "with_qpack h' (encode_status_for_session status) (literal_headers (encode_status_response status)) e")
  case (Pair e1 hdrs)
  have "shrinks h e e1"
    using shrinks_with_qpack [of h e h'] Pair by (metis fst_conv)
  from shrinks_trans [OF shrinks_trans [OF this shrinks_write_encoded_headers] shrinks_sessions] show ?thesis
    by (simp add: respond_def Pair)
qed

section \<open>Requests on the server\<close>

definition in_stream_of :: "conn_handle \<Rightarrow> stream_id \<Rightarrow> wt_endpoint \<Rightarrow> in_stream option" where
  "in_stream_of h sid e = Option.bind (hm_get (sessions e) h) (\<lambda>s. hm_get (in_streams s) sid)"

definition drain_in_buf :: "conn_handle \<Rightarrow> stream_id \<Rightarrow> nat \<Rightarrow> wt_endpoint \<Rightarrow> wt_endpoint" where
  "drain_in_buf h sid n =
     upd_session h (\<lambda>s. s\<lparr>in_streams := hm_modify sid (\<lambda>st. st\<lparr>is_buf := drop n (is_buf st)\<rparr>) (in_streams s)\<rparr>)"

text \<open>A frame that is no HEADERS frame: DATA of an established session carries capsules.\<close>

definition server_connect_data ::
  "conn_handle \<Rightarrow> stream_id \<Rightarrow> nat \<Rightarrow> nat \<Rightarrow> u64 \<Rightarrow> in_stream \<Rightarrow> wt_endpoint \<Rightarrow> wt_endpoint" where
  "server_connect_data h sid header tot ftype st e =
     (let is_capsule = (case hm_get (sessions e) h of
            Some s \<Rightarrow> ftype = frame_DATA \<and> is_wt_connect sid s | None \<Rightarrow> False);
          payload = drop header (take tot (is_buf st));
          e = drain_in_buf h sid tot e
      in if is_capsule then ep_feed_session_capsules h sid payload e else e)"

text \<open>A CONNECT request that is accepted: the first becomes the primary session.\<close>

definition latch_connect :: "stream_id \<Rightarrow> session \<Rightarrow> session" where
  "latch_connect sid s =
     (if \<not> established s \<or> connect_stream s = None
      then s\<lparr>connect_stream := Some sid, established := True, connect_closed := False\<rparr>
      else s\<lparr>extra_sessions := hs_insert sid (extra_sessions s)\<rparr>)"

definition accept_connect :: "conn_handle \<Rightarrow> u32 \<Rightarrow> stream_id \<Rightarrow> wt_endpoint \<Rightarrow> wt_endpoint" where
  "accept_connect h conn sid e =
     (case with_qpack h encode_connect_ok_for_session (literal_headers encode_connect_response_ok) e of
        (e, hdrs) \<Rightarrow>
          let e = write_encoded_headers h sid hdrs e;
              e = upd_session h (latch_connect sid) e;
              e = remove_handshake h e
          in ep_push_event (SessionEstablished conn sid) e)"

text \<open>A decoded request.\<close>

definition server_request ::
  "conn_handle \<Rightarrow> u32 \<Rightarrow> stream_id \<Rightarrow> header_field list \<Rightarrow> wt_endpoint \<Rightarrow> wt_endpoint" where
  "server_request h conn sid headers e =
     (if \<not> headers_are_webtransport_connect headers then respond h sid (str_lit ''404'') e
      else
        let s = hm_get (sessions e) h in
        if (case s of Some s \<Rightarrow> is_wt_connect sid s | None \<Rightarrow> False) then e
        else if (case s of Some s \<Rightarrow> active_wt_count s | None \<Rightarrow> 0) \<ge> wt_max_sessions e then
          respond h sid (str_lit ''429'')
            (set_last_error ''E_LIMIT_EXCEEDED: SETTINGS_WT_MAX_SESSIONS exceeded'' e)
        else accept_connect h conn sid e)"

text \<open>A HEADERS frame; the flag says whether the loop goes on.\<close>

definition server_connect_headers ::
  "(bytes \<Rightarrow> bytes option) \<Rightarrow> conn_handle \<Rightarrow> u32 \<Rightarrow> stream_id \<Rightarrow> nat \<Rightarrow> nat \<Rightarrow> in_stream
     \<Rightarrow> wt_endpoint \<Rightarrow> wt_endpoint \<times> bool" where
  "server_connect_headers huff h conn sid header tot st e =
     (case hm_get (sessions e) h of
        None \<Rightarrow> (e, False)
      | Some s \<Rightarrow>
        (case decode_field_section huff (drop header (take tot (is_buf st))) (qs_decoder (qpack s)) of
           Inl Blocked \<Rightarrow>
             (case note_qpack_header_blocked h (Some sid) e of
                (e, Inl reason) \<Rightarrow> (close_conn_protocol_error h QPACK_DECOMPRESSION_FAILED reason e, False)
              | (e, Inr _) \<Rightarrow> (e, False))
         | Inl Invalid \<Rightarrow>
             (close_conn_protocol_error h QPACK_DECOMPRESSION_FAILED (str_lit ''QPACK decompression failed'') e, False)
         | Inr (headers, ric) \<Rightarrow>
             let e = clear_qpack_header_blocked h sid e;
                 e = drain_in_buf h sid tot e;
                 e = emit_qpack_section_ack h sid ric e
             in (server_request h conn sid headers e, True)))"

lemma shrinks_accept_connect: "shrinks h e (accept_connect h' conn sid e)"
proof (cases "with_qpack h' encode_connect_ok_for_session (literal_headers encode_connect_response_ok) e")
  case (Pair e1 hdrs)
  have 1: "shrinks h e (write_encoded_headers h' sid hdrs e1)"
    using shrinks_trans [OF shrinks_with_qpack shrinks_write_encoded_headers] Pair by (metis fst_conv)
  have "shrinks h e (upd_session h' (latch_connect sid) (write_encoded_headers h' sid hdrs e1))"
    by (rule shrinks_trans [OF 1 shrinks_upd_session]) (simp add: session_shrinks_def latch_connect_def)
  from shrinks_trans [OF this shrinks_sessions] show ?thesis
    by (simp add: accept_connect_def Pair)
qed

lemma shrinks_server_request: "shrinks h e (server_request h' conn sid headers e)"
proof -
  have "shrinks h e (respond h' sid status (set_last_error err e))" for status err
    by (rule shrinks_trans [OF shrinks_sessions shrinks_respond]) simp
  then show ?thesis
    by (simp add: server_request_def Let_def shrinks_respond shrinks_accept_connect)
qed

text \<open>What a shrinking endpoint still has buffered.\<close>

definition in_buffered :: "conn_handle \<Rightarrow> stream_id \<Rightarrow> wt_endpoint \<Rightarrow> nat" where
  "in_buffered h sid e =
     (case hm_get (sessions e) h of None \<Rightarrow> 0 | Some s \<Rightarrow> buffered (in_streams s) is_buf sid)"

lemma shrinks_in_buffered: "shrinks h e e' \<Longrightarrow> in_buffered h sid e' \<le> in_buffered h sid e"
  by (auto simp: shrinks_def in_buffered_def session_shrinks_def split: option.splits)

lemma in_buffered_drain:
  assumes "in_stream_of h sid e = Some st" and "0 < n" and "n \<le> length (is_buf st)"
  shows "in_buffered h sid (drain_in_buf h sid n e) < in_buffered h sid e"
  using assms
  by (auto simp: in_stream_of_def in_buffered_def drain_in_buf_def upd_session_def buffered_def comp_def
      bind_eq_Some_conv)

lemma in_buffered_sessions: "sessions e' = sessions e \<Longrightarrow> in_buffered h sid e' = in_buffered h sid e"
  by (simp add: in_buffered_def)

lemma in_stream_of_sessions: "sessions e' = sessions e \<Longrightarrow> in_stream_of h sid e' = in_stream_of h sid e"
  by (simp add: in_stream_of_def)

lemma in_stream_of_clear [simp]:
  "in_stream_of h sid (clear_qpack_header_blocked h' sid' e) = in_stream_of h sid e"
  "in_buffered h sid (clear_qpack_header_blocked h' sid' e) = in_buffered h sid e"
  by (cases "hm_get (sessions e) h";
      auto simp: in_stream_of_def in_buffered_def clear_qpack_header_blocked_def upd_session_def)+

lemma server_connect_data_smaller:
  assumes "in_stream_of h sid e = Some st" and "decode_frame_header (is_buf st) = Hdr_Ready header tot ftype"
  shows "in_buffered h sid (server_connect_data h sid header tot ftype st e) < in_buffered h sid e"
proof -
  have "in_buffered h sid (drain_in_buf h sid tot e) < in_buffered h sid e"
    using decode_frame_header_bound [OF assms(2)] by (intro in_buffered_drain [OF assms(1)]) auto
  moreover have "in_buffered h sid (ep_feed_session_capsules h sid payload e') \<le> in_buffered h sid e'" for payload e'
    by (rule shrinks_in_buffered [OF shrinks_feed])
  ultimately show ?thesis
    by (auto simp: server_connect_data_def Let_def intro: le_less_trans)
qed

lemma server_connect_headers_smaller:
  assumes "in_stream_of h sid e = Some st" and "decode_frame_header (is_buf st) = Hdr_Ready header tot ftype"
    and "server_connect_headers huff h conn sid header tot st e = (e', True)"
  shows "in_buffered h sid e' < in_buffered h sid e"
proof -
  let ?e = "drain_in_buf h sid tot (clear_qpack_header_blocked h sid e)"
  have "in_buffered h sid ?e < in_buffered h sid e"
    using decode_frame_header_bound [OF assms(2)] assms(1)
      in_buffered_drain [of h sid "clear_qpack_header_blocked h sid e" st tot] by simp
  moreover obtain headers ric where "e' = server_request h conn sid headers (emit_qpack_section_ack h sid ric ?e)"
    using assms(3) by (auto simp: server_connect_headers_def Let_def split: option.splits sum.splits
        qpack_error.splits prod.splits)
  moreover have "in_buffered h sid (server_request h conn sid headers (emit_qpack_section_ack h sid ric ?e))
      \<le> in_buffered h sid ?e" for headers ric
    using shrinks_in_buffered [OF shrinks_server_request, of h sid h conn sid headers]
    by (metis in_buffered_sessions sessions_section_ack)
  ultimately show ?thesis
    by (metis le_less_trans)
qed

function server_connect_loop ::
  "(bytes \<Rightarrow> bytes option) \<Rightarrow> conn_handle \<Rightarrow> u32 \<Rightarrow> stream_id \<Rightarrow> wt_endpoint \<Rightarrow> wt_endpoint" where
  "server_connect_loop huff h conn sid e =
     (case in_stream_of h sid e of
        None \<Rightarrow> e
      | Some st \<Rightarrow>
        (case decode_frame_header (is_buf st) of
           Hdr_Incomplete \<Rightarrow> e
         | Hdr_TooLarge \<Rightarrow> close_conn_protocol_error h H3_EXCESSIVE_LOAD (str_lit ''H3 frame too large'') e
         | Hdr_Ready header tot ftype \<Rightarrow>
             if ftype \<noteq> frame_HEADERS then
               server_connect_loop huff h conn sid (server_connect_data h sid header tot ftype st e)
             else case server_connect_headers huff h conn sid header tot st e of
               (e', True) \<Rightarrow> server_connect_loop huff h conn sid e'
             | (e', False) \<Rightarrow> e'))"
  by pat_completeness auto
termination
  by (relation "measure (\<lambda>(huff, h, conn, sid, e). in_buffered h sid e)")
    (auto intro: server_connect_data_smaller server_connect_headers_smaller)

definition parse_server_connect ::
  "(bytes \<Rightarrow> bytes option) \<Rightarrow> conn_handle \<Rightarrow> stream_id \<Rightarrow> wt_endpoint \<Rightarrow> wt_endpoint" where
  "parse_server_connect huff h sid e =
     (case hm_get (handle_to_id e) h of
        None \<Rightarrow> e
      | Some conn \<Rightarrow> server_connect_loop huff h conn sid e)"

section \<open>Responses on the client\<close>

text \<open>The primary CONNECT stream.\<close>

definition drain_connect_rx :: "conn_handle \<Rightarrow> nat \<Rightarrow> wt_endpoint \<Rightarrow> wt_endpoint" where
  "drain_connect_rx h n = upd_session h (\<lambda>s. s\<lparr>connect_rx := drop n (connect_rx s)\<rparr>)"

definition client_connect_data :: "conn_handle \<Rightarrow> nat \<Rightarrow> nat \<Rightarrow> u64 \<Rightarrow> session \<Rightarrow> wt_endpoint \<Rightarrow> wt_endpoint" where
  "client_connect_data h header tot ftype s e =
     (let e = drain_connect_rx h tot e in
      case connect_stream s of
        Some sid \<Rightarrow>
          if ftype = frame_DATA \<and> established s \<and> \<not> connect_closed s
          then ep_feed_session_capsules h sid (drop header (take tot (connect_rx s))) e else e
      | None \<Rightarrow> e)"

text \<open>The final or interim status of a CONNECT; the flag says whether the loop goes on.\<close>

definition client_connect_status ::
  "conn_handle \<Rightarrow> u32 \<Rightarrow> bool \<Rightarrow> header_field list \<Rightarrow> wt_endpoint \<Rightarrow> wt_endpoint \<times> bool" where
  "client_connect_status h conn was_established headers e =
     (case classify_connect_status (status_of headers) of
        Success \<Rightarrow>
          if was_established then (e, True)
          else
            let sid = (case Option.bind (hm_get (sessions e) h) connect_stream of Some c \<Rightarrow> c | None \<Rightarrow> 0);
                e = upd_session h (\<lambda>s. s\<lparr>established := True, connect_deadline := None\<rparr>) e;
                e = remove_handshake h e
            in (ep_push_event (SessionEstablished conn sid) e, True)
      | Interim \<Rightarrow> (e, True)
      | Failure \<Rightarrow> if was_established then (e, True) else (fail_session_before_establish h e, False))"

definition client_connect_headers ::
  "(bytes \<Rightarrow> bytes option) \<Rightarrow> conn_handle \<Rightarrow> u32 \<Rightarrow> nat \<Rightarrow> nat \<Rightarrow> session \<Rightarrow> wt_endpoint \<Rightarrow> wt_endpoint \<times> bool" where
  "client_connect_headers huff h conn header tot s e =
     (if connect_closed s then (drain_connect_rx h tot e, True)
      else case decode_field_section huff (drop header (take tot (connect_rx s))) (qs_decoder (qpack s)) of
        Inl Blocked \<Rightarrow>
          (case note_qpack_header_blocked h (connect_stream s) e of
             (e, Inl reason) \<Rightarrow> (close_conn_protocol_error h QPACK_DECOMPRESSION_FAILED reason e, False)
           | (e, Inr _) \<Rightarrow> (e, False))
      | Inl Invalid \<Rightarrow>
          (close_conn_protocol_error h QPACK_DECOMPRESSION_FAILED (str_lit ''QPACK decompression failed'') e, False)
      | Inr (headers, ric) \<Rightarrow>
          let e = (case connect_stream s of Some sid \<Rightarrow> clear_qpack_header_blocked h sid e | None \<Rightarrow> e);
              e = drain_connect_rx h tot e;
              e = (case connect_stream s of Some sid \<Rightarrow> emit_qpack_section_ack h sid ric e | None \<Rightarrow> e)
          in client_connect_status h conn (established s) headers e)"

definition rx_buffered :: "conn_handle \<Rightarrow> wt_endpoint \<Rightarrow> nat" where
  "rx_buffered h e = (case hm_get (sessions e) h of None \<Rightarrow> 0 | Some s \<Rightarrow> length (connect_rx s))"

lemma shrinks_rx_buffered: "shrinks h e e' \<Longrightarrow> rx_buffered h e' \<le> rx_buffered h e"
  by (auto simp: shrinks_def rx_buffered_def session_shrinks_def split: option.splits)

lemma rx_buffered_drain:
  "hm_get (sessions e) h = Some s \<Longrightarrow> 0 < n \<Longrightarrow> n \<le> length (connect_rx s) \<Longrightarrow>
     rx_buffered h (drain_connect_rx h n e) < rx_buffered h e"
  by (simp add: rx_buffered_def drain_connect_rx_def upd_session_def)

lemma shrinks_client_connect_status: "shrinks h e (fst (client_connect_status h conn est headers e))"
proof -
  have 1: "shrinks h e (upd_session h (\<lambda>s. s\<lparr>established := True, connect_deadline := None\<rparr>) e)"
    by (rule shrinks_upd_session) (simp add: session_shrinks_def)
  have 2: "shrinks h e (ep_push_event ev (remove_handshake h
      (upd_session h (\<lambda>s. s\<lparr>established := True, connect_deadline := None\<rparr>) e)))" for ev
    by (rule shrinks_trans [OF 1 shrinks_sessions]) simp
  have 3: "shrinks h e (upd_session h (\<lambda>s. s\<lparr>connect_closed := True, extra_sessions := []\<rparr>) e)"
    by (rule shrinks_upd_session) (simp add: session_shrinks_def)
  have 4: "shrinks h e (fail_session_before_establish h e)"
    unfolding fail_session_before_establish_def Let_def
    by (auto intro!: shrinks_trans [OF 3 shrinks_sessions] split: option.splits)
  show ?thesis
    unfolding client_connect_status_def Let_def by (simp add: 2 4 split: connect_status_kind.splits)
qed

lemma client_connect_data_smaller:
  assumes "hm_get (sessions e) h = Some s" and "decode_frame_header (connect_rx s) = Hdr_Ready header tot ftype"
  shows "rx_buffered h (client_connect_data h header tot ftype s e) < rx_buffered h e"
proof -
  have "rx_buffered h (drain_connect_rx h tot e) < rx_buffered h e"
    using decode_frame_header_bound [OF assms(2)] by (intro rx_buffered_drain [OF assms(1)]) auto
  moreover have "rx_buffered h (ep_feed_session_capsules h sid payload e') \<le> rx_buffered h e'" for sid payload e'
    by (rule shrinks_rx_buffered [OF shrinks_feed])
  ultimately show ?thesis
    by (auto simp: client_connect_data_def Let_def intro: le_less_trans split: option.splits)
qed

lemma client_connect_headers_smaller:
  assumes "hm_get (sessions e) h = Some s" and "decode_frame_header (connect_rx s) = Hdr_Ready header tot ftype"
    and "client_connect_headers huff h conn header tot s e = (e', True)"
  shows "rx_buffered h e' < rx_buffered h e"
proof (cases "connect_closed s")
  case True
  then show ?thesis
    using assms decode_frame_header_bound [OF assms(2)]
    by (auto simp: client_connect_headers_def intro!: rx_buffered_drain [OF assms(1)])
next
  case False
  let ?clear = "case connect_stream s of Some sid \<Rightarrow> clear_qpack_header_blocked h sid e | None \<Rightarrow> e"
  have "rx_buffered h (drain_connect_rx h tot ?clear) < rx_buffered h e"
    using decode_frame_header_bound [OF assms(2)] assms(1)
    by (auto simp: rx_buffered_def drain_connect_rx_def clear_qpack_header_blocked_def upd_session_def
        split: option.splits)
  moreover obtain headers e2 where "sessions e2 = sessions (drain_connect_rx h tot ?clear)"
    and "e' = fst (client_connect_status h conn (established s) headers e2)"
  proof -
    assume *: "\<And>e2 headers. sessions e2 = sessions (drain_connect_rx h tot ?clear) \<Longrightarrow>
      e' = fst (client_connect_status h conn (established s) headers e2) \<Longrightarrow> thesis"
    obtain headers ric where "client_connect_status h conn (established s) headers
        (case connect_stream s of Some sid \<Rightarrow> emit_qpack_section_ack h sid ric (drain_connect_rx h tot ?clear)
         | None \<Rightarrow> drain_connect_rx h tot ?clear) = (e', True)"
      using assms(3) False by (auto simp: client_connect_headers_def Let_def split: sum.splits
          qpack_error.splits prod.splits)
    then show thesis
      by (intro * [of "case connect_stream s of
          Some sid \<Rightarrow> emit_qpack_section_ack h sid ric (drain_connect_rx h tot ?clear)
        | None \<Rightarrow> drain_connect_rx h tot ?clear" headers]) (simp_all split: option.splits)
  qed
  ultimately show ?thesis
    using shrinks_rx_buffered [OF shrinks_client_connect_status [of h e2 conn "established s" headers]]
    by (simp add: rx_buffered_def)
qed

function client_connect_loop ::
  "(bytes \<Rightarrow> bytes option) \<Rightarrow> conn_handle \<Rightarrow> u32 \<Rightarrow> wt_endpoint \<Rightarrow> wt_endpoint" where
  "client_connect_loop huff h conn e =
     (case hm_get (sessions e) h of
        None \<Rightarrow> e
      | Some s \<Rightarrow>
        (case decode_frame_header (connect_rx s) of
           Hdr_Incomplete \<Rightarrow> e
         | Hdr_TooLarge \<Rightarrow> close_conn_protocol_error h H3_EXCESSIVE_LOAD (str_lit ''H3 frame too large'') e
         | Hdr_Ready header tot ftype \<Rightarrow>
             if ftype \<noteq> frame_HEADERS then
               client_connect_loop huff h conn (client_connect_data h header tot ftype s e)
             else case client_connect_headers huff h conn header tot s e of
               (e', True) \<Rightarrow> client_connect_loop huff h conn e'
             | (e', False) \<Rightarrow> e'))"
  by pat_completeness auto
termination
  by (relation "measure (\<lambda>(huff, h, conn, e). rx_buffered h e)")
    (auto intro: client_connect_data_smaller client_connect_headers_smaller)

definition parse_client_connect ::
  "(bytes \<Rightarrow> bytes option) \<Rightarrow> conn_handle \<Rightarrow> wt_endpoint \<Rightarrow> wt_endpoint" where
  "parse_client_connect huff h e =
     (case hm_get (handle_to_id e) h of
        None \<Rightarrow> e
      | Some conn \<Rightarrow> client_connect_loop huff h conn e)"

text \<open>A secondary CONNECT stream after its response carries capsules only.\<close>

definition extra_buffered :: "conn_handle \<Rightarrow> stream_id \<Rightarrow> wt_endpoint \<Rightarrow> nat" where
  "extra_buffered h sid e =
     (case hm_get (sessions e) h of None \<Rightarrow> 0 | Some s \<Rightarrow> buffered (extra_rx s) (\<lambda>b. b) sid)"

definition extra_connect_frame ::
  "conn_handle \<Rightarrow> stream_id \<Rightarrow> nat \<Rightarrow> nat \<Rightarrow> u64 \<Rightarrow> bytes \<Rightarrow> wt_endpoint \<Rightarrow> wt_endpoint" where
  "extra_connect_frame h sid header tot ftype buf e =
     (let e = upd_session h (\<lambda>s. s\<lparr>extra_rx := hm_modify sid (drop tot) (extra_rx s)\<rparr>) e in
      if ftype = frame_DATA then ep_feed_session_capsules h sid (drop header (take tot buf)) e else e)"

lemma shrinks_extra_buffered: "shrinks h e e' \<Longrightarrow> extra_buffered h sid e' \<le> extra_buffered h sid e"
  by (auto simp: shrinks_def extra_buffered_def session_shrinks_def split: option.splits)

lemma extra_connect_frame_smaller:
  assumes "Option.bind (hm_get (sessions e) h) (\<lambda>s. hm_get (extra_rx s) sid) = Some buf"
    and "decode_frame_header buf = Hdr_Ready header tot ftype"
  shows "extra_buffered h sid (extra_connect_frame h sid header tot ftype buf e) < extra_buffered h sid e"
proof -
  let ?e = "upd_session h (\<lambda>s. s\<lparr>extra_rx := hm_modify sid (drop tot) (extra_rx s)\<rparr>) e"
  have "extra_buffered h sid ?e < extra_buffered h sid e"
    using assms(1) decode_frame_header_bound [OF assms(2)]
    by (auto simp: extra_buffered_def upd_session_def buffered_def comp_def bind_eq_Some_conv)
  moreover have "extra_buffered h sid (ep_feed_session_capsules h sid payload e') \<le> extra_buffered h sid e'" for payload e'
    by (rule shrinks_extra_buffered [OF shrinks_feed])
  ultimately show ?thesis
    by (auto simp: extra_connect_frame_def Let_def intro: le_less_trans)
qed

function parse_extra_connect_capsules :: "conn_handle \<Rightarrow> stream_id \<Rightarrow> wt_endpoint \<Rightarrow> wt_endpoint" where
  "parse_extra_connect_capsules h sid e =
     (case Option.bind (hm_get (sessions e) h) (\<lambda>s. hm_get (extra_rx s) sid) of
        None \<Rightarrow> e
      | Some buf \<Rightarrow>
        (case decode_frame_header buf of
           Hdr_Incomplete \<Rightarrow> e
         | Hdr_TooLarge \<Rightarrow> close_conn_protocol_error h H3_EXCESSIVE_LOAD (str_lit ''H3 frame too large'') e
         | Hdr_Ready header tot ftype \<Rightarrow>
             parse_extra_connect_capsules h sid (extra_connect_frame h sid header tot ftype buf e)))"
  by pat_completeness auto
termination
  by (relation "measure (\<lambda>(h, sid, e). extra_buffered h sid e)") (auto intro: extra_connect_frame_smaller)

text \<open>A secondary CONNECT waiting for its response.\<close>

definition drain_pending_rx :: "conn_handle \<Rightarrow> stream_id \<Rightarrow> nat \<Rightarrow> wt_endpoint \<Rightarrow> wt_endpoint" where
  "drain_pending_rx h sid n =
     upd_session h (\<lambda>s. s\<lparr>pending_client_connects :=
       hm_modify sid (\<lambda>p. p\<lparr>pc_rx := drop n (pc_rx p)\<rparr>) (pending_client_connects s)\<rparr>)"

definition pending_connect_status ::
  "conn_handle \<Rightarrow> u32 \<Rightarrow> stream_id \<Rightarrow> header_field list \<Rightarrow> wt_endpoint \<Rightarrow> wt_endpoint \<times> bool" where
  "pending_connect_status h conn sid headers e =
     (case classify_connect_status (status_of headers) of
        Success \<Rightarrow>
          let e = upd_session h (\<lambda>s. s\<lparr>pending_client_connects := hm_remove sid (pending_client_connects s),
                    extra_sessions := hs_insert sid (extra_sessions s)\<rparr>) e
          in (ep_push_event (SessionEstablished conn sid) e, False)
      | Interim \<Rightarrow> (e, True)
      | Failure \<Rightarrow>
          let e = upd_session h (\<lambda>s. s\<lparr>pending_client_connects := hm_remove sid (pending_client_connects s)\<rparr>) e;
              e = call h (Call_Stop sid 0) (call h (Call_Reset sid 0) e)
          in (push_session_closed conn sid 0 [] e, False))"

definition pending_connect_headers ::
  "(bytes \<Rightarrow> bytes option) \<Rightarrow> conn_handle \<Rightarrow> u32 \<Rightarrow> stream_id \<Rightarrow> nat \<Rightarrow> nat \<Rightarrow> bytes \<Rightarrow> wt_endpoint
     \<Rightarrow> wt_endpoint \<times> bool" where
  "pending_connect_headers huff h conn sid header tot rx e =
     (case hm_get (sessions e) h of
        None \<Rightarrow> (e, False)
      | Some s \<Rightarrow>
        (case decode_field_section huff (drop header (take tot rx)) (qs_decoder (qpack s)) of
           Inl Blocked \<Rightarrow>
             (case note_qpack_header_blocked h (Some sid) e of
                (e, Inl reason) \<Rightarrow> (close_conn_protocol_error h QPACK_DECOMPRESSION_FAILED reason e, False)
              | (e, Inr _) \<Rightarrow> (e, False))
         | Inl Invalid \<Rightarrow>
             (close_conn_protocol_error h QPACK_DECOMPRESSION_FAILED (str_lit ''QPACK decompression failed'') e, False)
         | Inr (headers, ric) \<Rightarrow>
             let e = clear_qpack_header_blocked h sid e;
                 e = drain_pending_rx h sid tot e;
                 e = emit_qpack_section_ack h sid ric e
             in pending_connect_status h conn sid headers e))"

definition pending_rx :: "conn_handle \<Rightarrow> stream_id \<Rightarrow> wt_endpoint \<Rightarrow> bytes option" where
  "pending_rx h sid e =
     Option.bind (hm_get (sessions e) h) (\<lambda>s. map_option pc_rx (hm_get (pending_client_connects s) sid))"

definition pending_buffered :: "conn_handle \<Rightarrow> stream_id \<Rightarrow> wt_endpoint \<Rightarrow> nat" where
  "pending_buffered h sid e = (case pending_rx h sid e of None \<Rightarrow> 0 | Some rx \<Rightarrow> length rx)"

lemma pending_buffered_drain:
  "pending_rx h sid e = Some rx \<Longrightarrow> 0 < n \<Longrightarrow> n \<le> length rx \<Longrightarrow>
     pending_buffered h sid (drain_pending_rx h sid n e) < pending_buffered h sid e"
  by (auto simp: pending_buffered_def pending_rx_def drain_pending_rx_def upd_session_def bind_eq_Some_conv)

lemma pending_rx_clear [simp]: "pending_rx h sid (clear_qpack_header_blocked h' sid' e) = pending_rx h sid e"
  by (cases "hm_get (sessions e) h"; auto simp: pending_rx_def clear_qpack_header_blocked_def upd_session_def)

lemma pending_connect_headers_smaller:
  assumes "pending_rx h sid e = Some rx" and "decode_frame_header rx = Hdr_Ready header tot ftype"
    and "pending_connect_headers huff h conn sid header tot rx e = (e', True)"
  shows "pending_buffered h sid e' < pending_buffered h sid e"
proof -
  obtain ric where "e' = emit_qpack_section_ack h sid ric (drain_pending_rx h sid tot (clear_qpack_header_blocked h sid e))"
    using assms(3)
    by (auto simp: pending_connect_headers_def pending_connect_status_def Let_def split: option.splits sum.splits
        qpack_error.splits prod.splits connect_status_kind.splits)
  then have "pending_buffered h sid e' = pending_buffered h sid (drain_pending_rx h sid tot (clear_qpack_header_blocked h sid e))"
    by (simp add: pending_buffered_def pending_rx_def)
  also have "\<dots> < pending_buffered h sid (clear_qpack_header_blocked h sid e)"
    using assms(1) decode_frame_header_bound [OF assms(2)] by (intro pending_buffered_drain [where rx = rx]) auto
  finally show ?thesis
    by (simp add: pending_buffered_def)
qed

function pending_connect_loop ::
  "(bytes \<Rightarrow> bytes option) \<Rightarrow> conn_handle \<Rightarrow> u32 \<Rightarrow> stream_id \<Rightarrow> wt_endpoint \<Rightarrow> wt_endpoint" where
  "pending_connect_loop huff h conn sid e =
     (case pending_rx h sid e of
        None \<Rightarrow> e
      | Some rx \<Rightarrow>
        (case decode_frame_header rx of
           Hdr_Incomplete \<Rightarrow> e
         | Hdr_TooLarge \<Rightarrow> close_conn_protocol_error h H3_EXCESSIVE_LOAD (str_lit ''H3 frame too large'') e
         | Hdr_Ready header tot ftype \<Rightarrow>
             if ftype \<noteq> frame_HEADERS then pending_connect_loop huff h conn sid (drain_pending_rx h sid tot e)
             else case pending_connect_headers huff h conn sid header tot rx e of
               (e', True) \<Rightarrow> pending_connect_loop huff h conn sid e'
             | (e', False) \<Rightarrow> e'))"
  by pat_completeness auto
termination
  by (relation "measure (\<lambda>(huff, h, conn, sid, e). pending_buffered h sid e)")
    (auto intro: pending_connect_headers_smaller intro!: pending_buffered_drain dest: decode_frame_header_bound)

definition parse_pending_client_connect ::
  "(bytes \<Rightarrow> bytes option) \<Rightarrow> conn_handle \<Rightarrow> stream_id \<Rightarrow> wt_endpoint \<Rightarrow> wt_endpoint" where
  "parse_pending_client_connect huff h sid e =
     (case hm_get (handle_to_id e) h of
        None \<Rightarrow> e
      | Some conn \<Rightarrow> pending_connect_loop huff h conn sid e)"

section \<open>The control and QPACK streams\<close>

definition ep_parse_control :: "conn_handle \<Rightarrow> wt_endpoint \<Rightarrow> wt_endpoint" where
  "ep_parse_control h e =
     (case hm_get (sessions e) h of
        None \<Rightarrow> e
      | Some s \<Rightarrow>
        (case parse_control (control s) of
           (c, oversized) \<Rightarrow>
             let e = upd_session h (\<lambda>s. s\<lparr>control := c\<rparr>) e in
             if oversized then
               close_conn_protocol_error h H3_EXCESSIVE_LOAD (str_lit ''H3 control frame too large'') e
             else e))"

text \<open>What the QPACK parsers ask the endpoint to do.\<close>

fun qpack_effect :: "conn_handle \<Rightarrow> bytes \<Rightarrow> conn_action \<Rightarrow> wt_endpoint \<Rightarrow> wt_endpoint" where
  "qpack_effect h reason (Conn_Close code) e = close_conn_protocol_error h code reason e"
| "qpack_effect h reason (Conn_Continue (Some (sid, out))) e = call h (Call_Write sid out) e"
| "qpack_effect h reason (Conn_Continue None) e = e"
| "qpack_effect h reason Conn_Panic e = e\<lparr>panicked := True\<rparr>"

definition ep_parse_qpack_encoder ::
  "(bytes \<Rightarrow> bytes option) \<Rightarrow> conn_handle \<Rightarrow> wt_endpoint \<Rightarrow> wt_endpoint" where
  "ep_parse_qpack_encoder huff h e =
     (case hm_get (sessions e) h of
        None \<Rightarrow> e
      | Some s \<Rightarrow>
        let reason = (if length (qs_encoder_rx (qpack s)) > unat MAX_H3_FRAME_SIZE
              then str_lit ''QPACK encoder stream too large'' else str_lit ''QPACK encoder stream error'') in
        case parse_qpack_encoder huff (qpack s) of
          (q, act) \<Rightarrow> qpack_effect h reason act (upd_session h (\<lambda>s. s\<lparr>qpack := q\<rparr>) e))"

definition ep_parse_qpack_decoder :: "conn_handle \<Rightarrow> wt_endpoint \<Rightarrow> wt_endpoint" where
  "ep_parse_qpack_decoder h e =
     (case hm_get (sessions e) h of
        None \<Rightarrow> e
      | Some s \<Rightarrow>
        let reason = (if length (qs_decoder_rx (qpack s)) > unat MAX_H3_FRAME_SIZE
              then str_lit ''QPACK decoder stream too large'' else str_lit ''QPACK decoder stream error'') in
        case parse_qpack_decoder (qpack s) of
          (q, act) \<Rightarrow> qpack_effect h reason act (upd_session h (\<lambda>s. s\<lparr>qpack := q\<rparr>) e))"

definition retry_blocked_connects ::
  "(bytes \<Rightarrow> bytes option) \<Rightarrow> conn_handle \<Rightarrow> wt_endpoint \<Rightarrow> wt_endpoint" where
  "retry_blocked_connects huff h e =
     (let ids = (case hm_get (sessions e) h of
            Some s \<Rightarrow> map fst (filter (\<lambda>(sid, st). is_kind st = Some frame_HEADERS \<and> is_bidi st) (in_streams s))
          | None \<Rightarrow> []);
          e = fold (parse_server_connect huff h) ids e;
          e = (case hm_get (sessions e) h of
            Some s \<Rightarrow> if connect_self_opened s \<and> connect_rx s \<noteq> [] then parse_client_connect huff h e else e
          | None \<Rightarrow> e);
          pending_ids = (case hm_get (sessions e) h of
            Some s \<Rightarrow> map fst (pending_client_connects s) | None \<Rightarrow> [])
      in fold (parse_pending_client_connect huff h) pending_ids e)"

end
