(* ===== verification/Endpoint_Read.thy ===== *)
theory Endpoint_Read
  imports Endpoint_Connect
begin

text \<open>
  Reading: classification of peer-accepted streams, admission of WebTransport streams, the read
  loops with their backpressure, and datagrams (\<^verbatim>\<open>process_in_stream\<close>, \<^verbatim>\<open>read_one\<close>, \<^verbatim>\<open>read_streams\<close>,
  \<^verbatim>\<open>drain_datagrams\<close> and what they call in \<^verbatim>\<open>crates/wasm/src/endpoint.rs\<close>).
\<close>

section \<open>Routing bytes of a peer-accepted stream\<close>

definition MAX_READ_BATCHES_PER_PUMP :: nat where "MAX_READ_BATCHES_PER_PUMP = 64"
definition MAX_WAITERS_WOKEN_PER_CAPACITY_CHANGE :: nat where "MAX_WAITERS_WOKEN_PER_CAPACITY_CHANGE = 64"
definition PROTOCOL_READ_CHUNK :: nat where "PROTOCOL_READ_CHUNK = 64 * 1024"

datatype route =
    Route_Control
  | Route_QpackEncoder
  | Route_QpackDecoder
  | Route_ServerConnect
  | Route_Ignore
  | Route_WtData u32 bytes "(u32 \<times> u64 \<times> u32 \<times> bool) option"
  | Route_RejectWt string bool u32
  | Route_None

text \<open>An error of the rate limiter as the endpoint sees it; a panic would poison the instance.\<close>

definition rate_check ::
  "instant \<Rightarrow> u32 \<Rightarrow> rate_limit_dimension \<Rightarrow> wt_endpoint \<Rightarrow> wt_endpoint \<times> string option" where
  "rate_check now conn d e =
     (case check_connection now conn d (rate_limiter e) of
        (rl, Inr _) \<Rightarrow> (e\<lparr>rate_limiter := rl\<rparr>, None)
      | (rl, Inl (Err err)) \<Rightarrow> (e\<lparr>rate_limiter := rl\<rparr>, Some err)
      | (rl, Inl (Panic err)) \<Rightarrow> (e\<lparr>rate_limiter := rl, panicked := True\<rparr>, Some err))"

definition put_in_stream :: "conn_handle \<Rightarrow> stream_id \<Rightarrow> in_stream \<Rightarrow> wt_endpoint \<Rightarrow> wt_endpoint" where
  "put_in_stream h sid st = upd_session h (\<lambda>s. s\<lparr>in_streams := hm_modify sid (\<lambda>_. st) (in_streams s)\<rparr>)"

definition decode_kind :: "in_stream \<Rightarrow> in_stream option" where
  "decode_kind st =
     (case is_kind st of
        Some _ \<Rightarrow> Some st
      | None \<Rightarrow>
        (case varint_decode (is_buf st) of
           Some (k, n) \<Rightarrow>
             Some (st\<lparr>is_kind := Some k,
                      is_buf := (if \<not> (k = frame_HEADERS \<and> is_bidi st) then drop n (is_buf st) else is_buf st)\<rparr>)
         | None \<Rightarrow> None))"

definition stream_kind_of :: "bool \<Rightarrow> stream_kind" where
  "stream_kind_of bidi = (if bidi then Bidi else Uni)"

text \<open>Registering a stream handle with its reservation; shared by both directions.\<close>

definition register_stream ::
  "u32 \<Rightarrow> conn_handle \<Rightarrow> stream_id \<Rightarrow> u64 \<Rightarrow> byte \<Rightarrow> reservation \<Rightarrow> wt_endpoint \<Rightarrow> wt_endpoint" where
  "register_stream wh h sid session_id missing r e =
     (let e = index_insert wh h sid session_id (e\<lparr>next_stream := next_stream e + 1\<rparr>);
          e = insert_stream_reservation wh r e
      in e\<lparr>half_done := hm_insert wh missing (half_done e)\<rparr>)"

definition reserve_stream_for ::
  "u32 \<Rightarrow> u32 \<Rightarrow> stream_kind \<Rightarrow> wt_endpoint \<Rightarrow> wt_endpoint \<times> (string + reservation)" where
  "reserve_stream_for conn wh kind e =
     (case reserve_stream conn wh kind (governor (queue e)) of
        (g, r) \<Rightarrow> (e\<lparr>queue := (queue e)\<lparr>governor := g\<rparr>\<rparr>, r))"

text \<open>
  Giving a classified WebTransport stream its handle: \<open>Inl None\<close> is the early return for a
  connection without an id, \<open>Inl (Some err)\<close> a rejection.
\<close>

definition open_in_stream ::
  "conn_handle \<Rightarrow> stream_id \<Rightarrow> instant \<Rightarrow> in_stream \<Rightarrow> wt_endpoint
     \<Rightarrow> wt_endpoint \<times> (string option + u32 \<times> u64 \<times> u32 \<times> bool)" where
  "open_in_stream h sid now st e =
     (let wh = next_stream e in
      if checked_add_word wh 1 = None then
        (e, Inl (Some ''E_LIMIT_EXCEEDED: stream handle space exhausted''))
      else case hm_get (handle_to_id e) h of
        None \<Rightarrow> (e, Inl None)
      | Some conn \<Rightarrow>
        let session_id = (case is_wt_session_id st of Some x \<Rightarrow> x | None \<Rightarrow> 0) in
        (case (if is_server e then rate_check now conn StreamOpen e else (e, None)) of
           (e, Some err) \<Rightarrow> (e, Inl (Some err))
         | (e, None) \<Rightarrow>
           (case reserve_stream_for conn wh (stream_kind_of (is_bidi st)) e of
              (e, Inl err) \<Rightarrow> (e, Inl (Some err))
            | (e, Inr r) \<Rightarrow>
                (register_stream wh h sid session_id (if is_bidi st then 0 else HALF_SEND) r e,
                 Inr (conn, session_id, wh, is_bidi st)))))"

definition reject_wt :: "string \<Rightarrow> bool \<Rightarrow> route" where
  "reject_wt err bidi = Route_RejectWt err bidi WT_BUFFERED_STREAM_REJECTED"

text \<open>
  A classified WebTransport stream. The result is the endpoint, the stream to store and the route;
  \<open>None\<close> for an early return.
\<close>

definition route_wt ::
  "conn_handle \<Rightarrow> stream_id \<Rightarrow> stream_id list \<Rightarrow> bool \<Rightarrow> instant \<Rightarrow> in_stream \<Rightarrow> wt_endpoint
     \<Rightarrow> wt_endpoint \<times> in_stream \<times> route option" where
  "route_wt h sid known finished now st e =
     (let open_it = (\<lambda>st e.
        (case is_handle st of
           Some wh \<Rightarrow> (e, st\<lparr>is_buf := []\<rparr>, Some (Route_WtData wh (is_buf st) None))
         | None \<Rightarrow>
           (case open_in_stream h sid now st e of
              (e, Inl None) \<Rightarrow> (e, st, None)
            | (e, Inl (Some err)) \<Rightarrow> (e, st\<lparr>is_buf := []\<rparr>, Some (reject_wt err (is_bidi st)))
            | (e, Inr (conn, session_id, wh, bidi)) \<Rightarrow>
                (e, st\<lparr>is_handle := Some wh, is_buf := []\<rparr>,
                 Some (Route_WtData wh (is_buf st) (Some (conn, session_id, wh, bidi)))))))
      in
      if is_sid_read st then open_it st e
      else case varint_decode (is_buf st) of
        Some (session_id, n) \<Rightarrow>
          if session_id \<notin> set known then
            (e, st\<lparr>is_buf := []\<rparr>,
             Some (reject_wt ''E_SESSION_CLOSED: unknown WebTransport session id'' (is_bidi st)))
          else
            open_it (st\<lparr>is_sid_read := True, is_wt_session_id := Some session_id,
                       is_buf := drop n (is_buf st)\<rparr>) e
      | None \<Rightarrow> (e, st, if finished then Some Route_None else None))"

text \<open>A request stream: admitted once against the cap, and bounded.\<close>

definition route_connect :: "nat \<Rightarrow> nat \<Rightarrow> in_stream \<Rightarrow> in_stream \<times> route" where
  "route_connect occupied cap st =
     (if \<not> is_connect_admitted st \<and> occupied \<ge> cap then
        (st\<lparr>is_buf := []\<rparr>, Route_RejectWt ''E_LIMIT_EXCEEDED: unlatched CONNECT admission cap'' True 0)
      else
        let st = st\<lparr>is_connect_admitted := True\<rparr> in
        if length (is_buf st) > unat MAX_H3_FRAME_SIZE then
          (st\<lparr>is_buf := []\<rparr>, Route_RejectWt ''E_LIMIT_EXCEEDED: CONNECT request buffer exceeded'' True 0)
        else (st, Route_ServerConnect))"

definition route_in_stream ::
  "conn_handle \<Rightarrow> stream_id \<Rightarrow> bytes \<Rightarrow> bool \<Rightarrow> instant \<Rightarrow> session \<Rightarrow> in_stream \<Rightarrow> wt_endpoint
     \<Rightarrow> wt_endpoint \<times> route option" where
  "route_in_stream h sid data finished now s st e =
     (let known = (if is_sid_read st then [] else live_connect_streams s);
          occupied = count_unlatched_connect_streams s + active_wt_count s;
          cap = max (wt_max_sessions e) 1;
          st = st\<lparr>is_buf := is_buf st @ data\<rparr>
      in case decode_kind st of
        None \<Rightarrow> (put_in_stream h sid st e, None)
      | Some st \<Rightarrow>
        (case classify_peer_stream_kind (the (is_kind st)) (is_bidi st) of
           Class_Control \<Rightarrow>
             (upd_session h (\<lambda>s. s\<lparr>control := (control s)\<lparr>control_rx := control_rx (control s) @ is_buf st\<rparr>\<rparr>)
                (put_in_stream h sid (st\<lparr>is_buf := []\<rparr>) e), Some Route_Control)
         | Class_ServerConnect \<Rightarrow>
             (case route_connect occupied cap st of
                (st, r) \<Rightarrow> (put_in_stream h sid st e, Some r))
         | Class_QpackEncoder \<Rightarrow>
             (upd_session h (\<lambda>s. s\<lparr>qpack := (qpack s)\<lparr>qs_encoder_rx := qs_encoder_rx (qpack s) @ is_buf st\<rparr>\<rparr>)
                (put_in_stream h sid (st\<lparr>is_buf := []\<rparr>) e), Some Route_QpackEncoder)
         | Class_QpackDecoder \<Rightarrow>
             (upd_session h (\<lambda>s. s\<lparr>qpack := (qpack s)\<lparr>qs_decoder_rx := qs_decoder_rx (qpack s) @ is_buf st\<rparr>\<rparr>)
                (put_in_stream h sid (st\<lparr>is_buf := []\<rparr>) e), Some Route_QpackDecoder)
         | Class_WebTransport \<Rightarrow>
             (case route_wt h sid known finished now st e of
                (e, st, r) \<Rightarrow> (put_in_stream h sid st e, r))
         | Class_Ignore \<Rightarrow> (put_in_stream h sid (st\<lparr>is_buf := []\<rparr>) e, Some Route_Ignore)))"

fun take_route ::
  "(bytes \<Rightarrow> bytes option) \<Rightarrow> conn_handle \<Rightarrow> stream_id \<Rightarrow> bool \<Rightarrow> route \<Rightarrow> wt_endpoint \<Rightarrow> wt_endpoint" where
  "take_route huff h sid finished Route_Control e = ep_parse_control h e"
| "take_route huff h sid finished Route_QpackEncoder e =
     retry_blocked_connects huff h (ep_parse_qpack_encoder huff h e)"
| "take_route huff h sid finished Route_QpackDecoder e = ep_parse_qpack_decoder h e"
| "take_route huff h sid finished Route_ServerConnect e = parse_server_connect huff h sid e"
| "take_route huff h sid finished (Route_WtData wh payload opened) e =
     (let e = (case opened of
            Some (conn, session_id, stream, bidi) \<Rightarrow> ep_push_event (StreamOpened conn session_id stream bidi) e
          | None \<Rightarrow> e)
      in if should_emit_stream_payload (payload = []) finished then
           (case hm_get (handle_to_id e) h of
              Some conn \<Rightarrow> ep_push_event (StreamData conn wh finished payload) e
            | None \<Rightarrow> e)
         else e)"
| "take_route huff h sid finished (Route_RejectWt err bidi code) e =
     (let e = set_last_error err e;
          e = call h (Call_Stop sid (ucast code)) e;
          e = (if bidi then call h (Call_Reset sid (ucast code)) e else e)
      in retire_in_stream h sid e)"
| "take_route huff h sid finished Route_Ignore e = e"
| "take_route huff h sid finished Route_None e = e"

definition process_in_stream ::
  "(bytes \<Rightarrow> bytes option) \<Rightarrow> conn_handle \<Rightarrow> stream_id \<Rightarrow> bytes \<Rightarrow> bool \<Rightarrow> instant \<Rightarrow> wt_endpoint
     \<Rightarrow> wt_endpoint" where
  "process_in_stream huff h sid data finished now e =
     (case hm_get (sessions e) h of
        None \<Rightarrow> e
      | Some s \<Rightarrow>
        (case hm_get (in_streams s) sid of
           None \<Rightarrow> e
         | Some st \<Rightarrow>
           (case route_in_stream h sid data finished now s st e of
              (e, None) \<Rightarrow> e
            | (e, Some r) \<Rightarrow> take_route huff h sid finished r e)))"

section \<open>Read limits\<close>

definition required_event_slots_for_read :: "conn_handle \<Rightarrow> stream_id \<Rightarrow> wt_endpoint \<Rightarrow> nat" where
  "required_event_slots_for_read h sid e =
     (case hm_get (sessions e) h of
        None \<Rightarrow> 0
      | Some s \<Rightarrow>
        if hm_get (self_bidi s) sid \<noteq> None then 1
        else case hm_get (in_streams s) sid of
          None \<Rightarrow> 0
        | Some st \<Rightarrow> required_slots_for_in_stream (is_kind st) (is_bidi st) (is_handle st \<noteq> None))"

definition in_stream_read_limit :: "conn_handle \<Rightarrow> stream_id \<Rightarrow> wt_endpoint \<Rightarrow> nat" where
  "in_stream_read_limit h sid e =
     (case in_stream_of h sid e of
        None \<Rightarrow> 0
      | Some st \<Rightarrow>
        (case is_kind st of
           None \<Rightarrow> 1
         | Some kind \<Rightarrow>
           if kind = stream_type_WT_UNI \<or> kind = frame_WT_BIDI then
             if \<not> is_sid_read st then 1
             else case is_handle st of
               None \<Rightarrow> 0
             | Some wh \<Rightarrow>
               (case hm_get (handle_to_id e) h of
                  None \<Rightarrow> 0
                | Some conn \<Rightarrow> available_event_bytes conn (Some wh) (governor (queue e)))
           else PROTOCOL_READ_CHUNK))"

definition conn_read :: "conn_handle \<Rightarrow> stream_id \<Rightarrow> nat \<Rightarrow> wt_endpoint \<Rightarrow> wt_endpoint \<times> bytes \<times> read_outcome" where
  "conn_read h sid limit e =
     (case hm_get (conns e) h of
        None \<Rightarrow> (e, [], Open)
      | Some c \<Rightarrow>
        (case read_stream limit (case hm_get (q_reads c) sid of Some a \<Rightarrow> a | None \<Rightarrow> []) of
           (data, outcome, rest) \<Rightarrow>
             (quinn h (\<lambda>c. c\<lparr>q_reads := hm_insert sid rest (q_reads c)\<rparr>) e, data, outcome)))"

section \<open>Reading one stream\<close>

text \<open>The loop for the client's CONNECT streams: \<open>feed\<close> gets what was read.\<close>

fun protocol_batches ::
  "nat \<Rightarrow> conn_handle \<Rightarrow> stream_id \<Rightarrow> (bytes \<Rightarrow> wt_endpoint \<Rightarrow> wt_endpoint) \<Rightarrow> wt_endpoint
     \<Rightarrow> wt_endpoint \<times> read_outcome" where
  "protocol_batches 0 h sid feed e = (e, Open)"
| "protocol_batches (Suc n) h sid feed e =
     (case conn_read h sid PROTOCOL_READ_CHUNK e of
        (e, data, outcome) \<Rightarrow>
          let made_progress = (data \<noteq> []);
              e = (if made_progress then feed data e else e)
          in if should_stop_read_batch (outcome = Open) made_progress then (e, outcome)
             else protocol_batches n h sid feed e)"

text \<open>The loop for a peer-accepted stream; \<open>None\<close> when it returns early to wait for capacity.\<close>

fun in_stream_batches ::
  "nat \<Rightarrow> (bytes \<Rightarrow> bytes option) \<Rightarrow> conn_handle \<Rightarrow> stream_id \<Rightarrow> nat \<Rightarrow> instant \<Rightarrow> wt_endpoint
     \<Rightarrow> wt_endpoint \<times> read_outcome option" where
  "in_stream_batches 0 huff h sid slots now e = (e, Some Open)"
| "in_stream_batches (Suc n) huff h sid slots now e =
     (if should_wait_for_event_slots slots (has_event_slot_capacity slots (queue e)) then
        (enqueue_capacity_waiter h (set_last_error ''E_QUEUE_FULL: event queue item cap reached'' e), None)
      else
        let limit = in_stream_read_limit h sid e in
        case conn_read h sid limit e of
          (e, data, outcome) \<Rightarrow>
            let made_progress = (data \<noteq> []) in
            if should_backpressure_zero_progress_read limit made_progress (outcome = Open) then
              (enqueue_capacity_waiter h e, None)
            else
              let e = process_in_stream huff h sid data (outcome = Finished) now e in
              if should_stop_read_batch (outcome = Open) made_progress then (e, Some outcome)
              else in_stream_batches n huff h sid slots now e)"

text \<open>The loop for the reply half of a stream this side opened.\<close>

fun self_bidi_batches ::
  "nat \<Rightarrow> conn_handle \<Rightarrow> stream_id \<Rightarrow> u32 \<Rightarrow> u32 \<Rightarrow> wt_endpoint \<Rightarrow> wt_endpoint \<times> read_outcome option" where
  "self_bidi_batches 0 h sid wh conn e = (e, Some Open)"
| "self_bidi_batches (Suc n) h sid wh conn e =
     (if \<not> has_event_slot_capacity 1 (queue e) then
        (enqueue_capacity_waiter h (set_last_error ''E_QUEUE_FULL: event queue item cap reached'' e), None)
      else
        let limit = available_event_bytes conn (Some wh) (governor (queue e)) in
        case conn_read h sid limit e of
          (e, data, outcome) \<Rightarrow>
            let made_progress = (data \<noteq> []);
                finished = (outcome = Finished) in
            if should_backpressure_zero_progress_read limit made_progress (outcome = Open) then
              (enqueue_capacity_waiter h e, None)
            else
              let e = (if should_emit_self_bidi_chunk made_progress finished
                       then ep_push_event (StreamData conn wh finished data) e else e) in
              if should_stop_read_batch (outcome = Open) made_progress then (e, Some outcome)
              else self_bidi_batches n h sid wh conn e)"

definition forget_self_bidi :: "conn_handle \<Rightarrow> stream_id \<Rightarrow> u32 \<Rightarrow> wt_endpoint \<Rightarrow> wt_endpoint" where
  "forget_self_bidi h sid wh e =
     mark_stream_half_done wh HALF_RECV
       (unpause wh (upd_session h (\<lambda>s. s\<lparr>self_bidi := hm_remove sid (self_bidi s)\<rparr>) e))"

fun on_self_bidi_read_outcome ::
  "conn_handle \<Rightarrow> stream_id \<Rightarrow> u32 \<Rightarrow> u32 \<Rightarrow> read_outcome \<Rightarrow> wt_endpoint \<Rightarrow> wt_endpoint" where
  "on_self_bidi_read_outcome h sid wh conn Finished e = forget_self_bidi h sid wh e"
| "on_self_bidi_read_outcome h sid wh conn (Reset code) e =
     forget_self_bidi h sid wh (ep_push_event (StreamReset conn wh (unmap_wt_app_error code)) e)"
| "on_self_bidi_read_outcome h sid wh conn Open e = e"

definition on_connect_stream_ended :: "conn_handle \<Rightarrow> stream_id \<Rightarrow> bool \<Rightarrow> wt_endpoint \<Rightarrow> wt_endpoint" where
  "on_connect_stream_ended h sid is_primary e =
     (let est = (case hm_get (sessions e) h of Some s \<Rightarrow> established s | None \<Rightarrow> False) in
      if is_primary \<and> \<not> est then fail_session_before_establish h e
      else end_wt_session h sid 0 [] e)"

text \<open>The five kinds of streams \<^verbatim>\<open>read_one\<close> tells apart, each as a step of its own.\<close>

definition read_primary_connect ::
  "(bytes \<Rightarrow> bytes option) \<Rightarrow> conn_handle \<Rightarrow> stream_id \<Rightarrow> wt_endpoint \<Rightarrow> wt_endpoint" where
  "read_primary_connect huff h sid e =
     (case protocol_batches MAX_READ_BATCHES_PER_PUMP h sid
             (\<lambda>data e. parse_client_connect huff h (upd_session h (\<lambda>s. s\<lparr>connect_rx := connect_rx s @ data\<rparr>) e)) e of
        (e, outcome) \<Rightarrow> if outcome \<noteq> Open then on_connect_stream_ended h sid True e else e)"

definition read_pending_connect ::
  "(bytes \<Rightarrow> bytes option) \<Rightarrow> conn_handle \<Rightarrow> stream_id \<Rightarrow> wt_endpoint \<Rightarrow> wt_endpoint" where
  "read_pending_connect huff h sid e =
     (case protocol_batches MAX_READ_BATCHES_PER_PUMP h sid
             (\<lambda>data e. parse_pending_client_connect huff h sid
                (upd_session h (\<lambda>s. s\<lparr>pending_client_connects :=
                   hm_modify sid (\<lambda>p. p\<lparr>pc_rx := pc_rx p @ data\<rparr>) (pending_client_connects s)\<rparr>) e)) e of
        (e, outcome) \<Rightarrow>
          if outcome = Open then e
          else if (case hm_get (sessions e) h of
              Some s \<Rightarrow> hm_get (pending_client_connects s) sid \<noteq> None | None \<Rightarrow> False) then
            let e = upd_session h (\<lambda>s. s\<lparr>pending_client_connects := hm_remove sid (pending_client_connects s)\<rparr>) e in
            (case hm_get (handle_to_id e) h of Some conn \<Rightarrow> push_session_closed conn sid 0 [] e | None \<Rightarrow> e)
          else e)"

definition read_extra_connect :: "conn_handle \<Rightarrow> stream_id \<Rightarrow> wt_endpoint \<Rightarrow> wt_endpoint" where
  "read_extra_connect h sid e =
     (case protocol_batches MAX_READ_BATCHES_PER_PUMP h sid
             (\<lambda>data e. parse_extra_connect_capsules h sid
                (upd_session h (\<lambda>s. s\<lparr>extra_rx :=
                   hm_insert sid ((case hm_get (extra_rx s) sid of Some b \<Rightarrow> b | None \<Rightarrow> []) @ data) (extra_rx s)\<rparr>) e)) e of
        (e, outcome) \<Rightarrow> if outcome \<noteq> Open then on_connect_stream_ended h sid False e else e)"

definition read_in_stream ::
  "(bytes \<Rightarrow> bytes option) \<Rightarrow> conn_handle \<Rightarrow> stream_id \<Rightarrow> instant \<Rightarrow> session \<Rightarrow> wt_endpoint \<Rightarrow> wt_endpoint" where
  "read_in_stream huff h sid now s e =
     (case in_stream_batches MAX_READ_BATCHES_PER_PUMP huff h sid (required_event_slots_for_read h sid e) now e of
        (e, None) \<Rightarrow> e
      | (e, Some outcome) \<Rightarrow>
        let e = (case outcome of
              Finished \<Rightarrow> retire_in_stream h sid e
            | Reset code \<Rightarrow> retire_in_stream h sid (emit_stream_reset h sid (unmap_wt_app_error code) e)
            | Open \<Rightarrow> e)
        in if is_wt_connect sid s \<and> outcome \<noteq> Open
           then on_connect_stream_ended h sid (connect_stream s = Some sid) e else e)"

definition read_self_bidi :: "conn_handle \<Rightarrow> stream_id \<Rightarrow> u32 \<Rightarrow> wt_endpoint \<Rightarrow> wt_endpoint" where
  "read_self_bidi h sid wh e =
     (case hm_get (handle_to_id e) h of
        None \<Rightarrow> e
      | Some conn \<Rightarrow>
        (case self_bidi_batches MAX_READ_BATCHES_PER_PUMP h sid wh conn e of
           (e, None) \<Rightarrow> e
         | (e, Some outcome) \<Rightarrow> on_self_bidi_read_outcome h sid wh conn outcome e))"

definition read_one ::
  "(bytes \<Rightarrow> bytes option) \<Rightarrow> conn_handle \<Rightarrow> stream_id \<Rightarrow> instant \<Rightarrow> wt_endpoint \<Rightarrow> wt_endpoint" where
  "read_one huff h sid now e =
     (case hm_get (sessions e) h of
        None \<Rightarrow> e
      | Some s \<Rightarrow>
        if connect_self_opened s \<and> connect_stream s = Some sid then read_primary_connect huff h sid e
        else if hm_get (pending_client_connects s) sid \<noteq> None then read_pending_connect huff h sid e
        else if connect_self_opened s \<and> sid \<in> set (extra_sessions s) then read_extra_connect h sid e
        else if hm_get (in_streams s) sid \<noteq> None then read_in_stream huff h sid now s e
        else case hm_get (self_bidi s) sid of
          Some wh \<Rightarrow> read_self_bidi h sid wh e
        | None \<Rightarrow> e)"

definition readable_streams :: "session \<Rightarrow> u32 hash_set \<Rightarrow> stream_id list" where
  "readable_streams s p =
     (let connect_ids = all_connect_streams s in
      map fst (filter (\<lambda>(sid, st). sid \<notin> set connect_ids \<and>
        (case is_handle st of None \<Rightarrow> True | Some wh \<Rightarrow> wh \<notin> set p)) (in_streams s)) @
      map fst (filter (\<lambda>(sid, wh). sid \<notin> set connect_ids \<and> wh \<notin> set p) (self_bidi s)) @
      map fst (pending_client_connects s))"

definition read_streams ::
  "(bytes \<Rightarrow> bytes option) \<Rightarrow> conn_handle \<Rightarrow> instant \<Rightarrow> wt_endpoint \<Rightarrow> wt_endpoint" where
  "read_streams huff h now e =
     (case hm_get (sessions e) h of
        None \<Rightarrow> e
      | Some s \<Rightarrow>
        fold (\<lambda>sid. read_one huff h sid now)
          (readable_streams s (paused e) @ remdups (all_connect_streams s)) e)"

section \<open>Datagrams\<close>

definition datagram_payload_for_session :: "session \<Rightarrow> bytes \<Rightarrow> (u64 \<times> bytes) option" where
  "datagram_payload_for_session s dg =
     (case unwrap_datagram dg of
        None \<Rightarrow> None
      | Some (qsid, payload) \<Rightarrow> map_option (\<lambda>sid. (sid, payload)) (session_for_qsid qsid s))"

text \<open>A datagram that names a session: rate limit, then the queue. The flag says whether the loop goes on.\<close>

definition deliver_datagram ::
  "u32 \<Rightarrow> u64 \<Rightarrow> bytes \<Rightarrow> instant \<Rightarrow> wt_endpoint \<Rightarrow> wt_endpoint \<times> bool" where
  "deliver_datagram conn session_id payload now e =
     (case (if is_server e then rate_check now conn DatagramIngress e else (e, None)) of
        (e, Some err) \<Rightarrow> (close_conn conn 0 (str_lit ''rate limited'') now (set_last_error err e), False)
      | (e, None) \<Rightarrow>
        (case try_push_event (Datagram conn session_id payload) (queue e) of
           (q, Inl err) \<Rightarrow>
             (close_conn conn 0 (str_lit ''inbound datagram budget exhausted'') now
                (set_last_error err (e\<lparr>queue := q\<rparr>)), False)
         | (q, Inr _) \<Rightarrow> (e\<lparr>queue := q\<rparr>, True)))"

fun drain_datagrams_loop ::
  "bytes list \<Rightarrow> conn_handle \<Rightarrow> u32 \<Rightarrow> instant \<Rightarrow> wt_endpoint \<Rightarrow> wt_endpoint" where
  "drain_datagrams_loop dgs h conn now e =
     (if \<not> has_event_slot_capacity 1 (queue e) \<or> available_event_bytes conn None (governor (queue e)) = 0
      then enqueue_capacity_waiter h e
      else case dgs of
        [] \<Rightarrow> e
      | dg # rest \<Rightarrow>
        let e = quinn h (\<lambda>c. c\<lparr>q_datagrams := rest\<rparr>) e in
        (case Option.bind (hm_get (sessions e) h) (\<lambda>s. datagram_payload_for_session s dg) of
           None \<Rightarrow> drain_datagrams_loop rest h conn now e
         | Some (session_id, payload) \<Rightarrow>
           (case deliver_datagram conn session_id payload now e of
              (e, True) \<Rightarrow> drain_datagrams_loop rest h conn now e
            | (e, False) \<Rightarrow> e)))"

definition drain_datagrams :: "conn_handle \<Rightarrow> instant \<Rightarrow> wt_endpoint \<Rightarrow> wt_endpoint" where
  "drain_datagrams h now e =
     (case hm_get (handle_to_id e) h of
        None \<Rightarrow> e
      | Some conn \<Rightarrow>
        drain_datagrams_loop (case hm_get (conns e) h of Some c \<Rightarrow> q_datagrams c | None \<Rightarrow> []) h conn now e)"

section \<open>Capacity changes\<close>

fun resume_loop :: "nat \<Rightarrow> (bytes \<Rightarrow> bytes option) \<Rightarrow> instant \<Rightarrow> wt_endpoint \<Rightarrow> wt_endpoint" where
  "resume_loop 0 huff now e = e"
| "resume_loop (Suc n) huff now e =
     (case wait_pop_front (capacity_waiters e) of
        (w, None) \<Rightarrow> e
      | (w, Some conn) \<Rightarrow>
        let e = e\<lparr>capacity_waiters := w\<rparr> in
        (case hm_get (id_to_handle e) conn of
           None \<Rightarrow> resume_loop n huff now e
         | Some h \<Rightarrow>
           let e = read_streams huff h now (drain_datagrams h now e) in
           if length (events (queue e)) \<ge> MAX_PENDING_EVENTS then e else resume_loop n huff now e))"

definition resume_waiting_after_capacity_change ::
  "(bytes \<Rightarrow> bytes option) \<Rightarrow> instant \<Rightarrow> wt_endpoint \<Rightarrow> wt_endpoint" where
  "resume_waiting_after_capacity_change huff now e =
     (if wait_order (capacity_waiters e) = [] then e
      else resume_loop MAX_WAITERS_WOKEN_PER_CAPACITY_CHANGE huff now e)"

end
