(* ===== verification/Authority.thy ===== *)
theory Authority
  imports Wt_Prelude
begin

text \<open>
  The TLS server name of an authority (\<^verbatim>\<open>tls_server_name_from_authority\<close> in
  \<^verbatim>\<open>crates/wasm/src/endpoint.rs\<close>), with the string operations of the standard library it uses. A
  string is its UTF-8 encoding.
\<close>

section \<open>Trimming\<close>

text \<open>The UTF-8 encodings of the characters with the property White\_Space.\<close>

definition white_space :: "bytes list" where
  "white_space =
     [[0x09], [0x0A], [0x0B], [0x0C], [0x0D], [0x20], [0xC2, 0x85], [0xC2, 0xA0], [0xE1, 0x9A, 0x80],
      [0xE2, 0x80, 0x80], [0xE2, 0x80, 0x81], [0xE2, 0x80, 0x82], [0xE2, 0x80, 0x83], [0xE2, 0x80, 0x84],
      [0xE2, 0x80, 0x85], [0xE2, 0x80, 0x86], [0xE2, 0x80, 0x87], [0xE2, 0x80, 0x88], [0xE2, 0x80, 0x89],
      [0xE2, 0x80, 0x8A], [0xE2, 0x80, 0xA8], [0xE2, 0x80, 0xA9], [0xE2, 0x80, 0xAF], [0xE2, 0x81, 0x9F],
      [0xE3, 0x80, 0x80]]"

definition starts_with :: "bytes \<Rightarrow> bytes \<Rightarrow> bool" where
  "starts_with s w \<longleftrightarrow> take (length w) s = w"

lemma white_space_nonempty [simp]: "[] \<notin> set white_space"
  by (simp add: white_space_def)

lemma starts_with_append: "starts_with s w \<longleftrightarrow> (\<exists>r. s = w @ r)"
  unfolding starts_with_def by (metis append_eq_conv_conj append_take_drop_id)

lemma find_starts:
  assumes "find (\<lambda>w. w \<noteq> [] \<and> starts_with s w) ws = Some w"
  shows "w \<in> set ws" and "w \<noteq> []" and "\<exists>r. s = w @ r"
  using assms unfolding find_Some_iff starts_with_append by auto

text \<open>Removing words of a list from the front as long as one is there.\<close>

function strip_words :: "bytes list \<Rightarrow> bytes \<Rightarrow> bytes" where
  "strip_words ws s =
     (case find (\<lambda>w. w \<noteq> [] \<and> starts_with s w) ws of
        None \<Rightarrow> s
      | Some w \<Rightarrow> strip_words ws (drop (length w) s))"
  by auto

termination
proof (relation "measure (\<lambda>(ws, s). length s)")
  fix ws s w
  assume "find (\<lambda>w. w \<noteq> [] \<and> starts_with s w) ws = Some w"
  then have "w \<noteq> []" and "\<exists>r. s = w @ r"
    by (rule find_starts)+
  then show "((ws, drop (length w) s), ws, s) \<in> measure (\<lambda>(ws, s). length s)"
    by auto
qed simp

declare strip_words.simps [simp del]

definition trim :: "bytes \<Rightarrow> bytes" where
  "trim s = rev (strip_words (map rev white_space) (rev (strip_words white_space s)))"

definition trimmed :: "bytes \<Rightarrow> bool" where
  "trimmed s \<longleftrightarrow> (\<forall>w\<in>set white_space. \<not> starts_with s w \<and> \<not> starts_with (rev s) (rev w))"

lemma strip_words_fixed: "(\<forall>w\<in>set ws. w \<noteq> [] \<longrightarrow> \<not> starts_with s w) \<Longrightarrow> strip_words ws s = s"
proof -
  assume "\<forall>w\<in>set ws. w \<noteq> [] \<longrightarrow> \<not> starts_with s w"
  then have "find (\<lambda>w. w \<noteq> [] \<and> starts_with s w) ws = None"
    by (auto simp: find_None_iff)
  then show ?thesis
    by (subst strip_words.simps) simp
qed

lemma strip_words_none: "w \<in> set ws \<Longrightarrow> w \<noteq> [] \<Longrightarrow> \<not> starts_with (strip_words ws s) w"
proof (induction ws s rule: strip_words.induct)
  case (1 ws s)
  show ?case
  proof (cases "find (\<lambda>w. w \<noteq> [] \<and> starts_with s w) ws")
    case None
    then have "strip_words ws s = s"
      by (subst strip_words.simps) simp
    then show ?thesis
      using None "1.prems" by (auto simp: find_None_iff)
  next
    case (Some v)
    then have "strip_words ws s = strip_words ws (drop (length v) s)"
      by (subst strip_words.simps) simp
    then show ?thesis
      using "1.IH" [OF Some "1.prems"] by simp
  qed
qed

lemma strip_words_suffix: "\<exists>p. s = p @ strip_words ws s"
proof (induction ws s rule: strip_words.induct)
  case (1 ws s)
  show ?case
  proof (cases "find (\<lambda>w. w \<noteq> [] \<and> starts_with s w) ws")
    case None
    then show ?thesis
      by (subst strip_words.simps) simp
  next
    case (Some v)
    then obtain r where r: "s = v @ r"
      using find_starts(3) by blast
    have step: "strip_words ws s = strip_words ws (drop (length v) s)"
      using Some by (subst strip_words.simps) simp
    obtain p where "drop (length v) s = p @ strip_words ws (drop (length v) s)"
      using "1.IH" [OF Some] by blast
    then have "s = (v @ p) @ strip_words ws s"
      unfolding step by (simp add: r)
    then show ?thesis
      by blast
  qed
qed

lemma trim_trimmed: "trimmed s \<Longrightarrow> trim s = s"
  by (simp add: trim_def trimmed_def strip_words_fixed)

lemma trimmed_trim: "trimmed (trim s)"
proof -
  let ?l = "strip_words white_space s"
  obtain p where "rev ?l = p @ strip_words (map rev white_space) (rev ?l)"
    using strip_words_suffix by blast
  then have l: "?l = trim s @ rev p"
    by (metis rev_append rev_rev_ident trim_def)
  have "\<not> starts_with (trim s) w" if "w \<in> set white_space" for w
  proof -
    have "\<not> starts_with ?l w"
      using strip_words_none that white_space_nonempty by metis
    then show ?thesis
      unfolding starts_with_append by (subst (asm) l) auto
  qed
  moreover have "\<not> starts_with (rev (trim s)) (rev w)" if "w \<in> set white_space" for w
    using that white_space_nonempty unfolding trim_def rev_rev_ident
    by (intro strip_words_none) auto
  ultimately show ?thesis
    by (simp add: trimmed_def)
qed

section \<open>The server name\<close>

definition is_ascii_digit :: "byte \<Rightarrow> bool" where
  "is_ascii_digit b \<longleftrightarrow> 0x30 \<le> b \<and> b \<le> 0x39"

definition colon :: byte where "colon = 0x3A"
definition open_bracket :: byte where "open_bracket = 0x5B"
definition close_bracket :: byte where "close_bracket = 0x5D"

definition rsplit_once :: "byte \<Rightarrow> bytes \<Rightarrow> (bytes \<times> bytes) option" where
  "rsplit_once c s =
     (if c \<in> set s then
        Some (rev (tl (dropWhile (\<lambda>b. b \<noteq> c) (rev s))), rev (takeWhile (\<lambda>b. b \<noteq> c) (rev s)))
      else None)"

definition authority_host :: "bytes \<Rightarrow> bytes" where
  "authority_host auth =
     (case auth of
        b # rest \<Rightarrow>
          if b = open_bracket then
            (if close_bracket \<in> set rest then takeWhile (\<lambda>b. b \<noteq> close_bracket) rest else auth)
          else (case rsplit_once colon auth of
            Some (h, port) \<Rightarrow> if port \<noteq> [] \<and> list_all is_ascii_digit port then h else auth
          | None \<Rightarrow> auth)
      | [] \<Rightarrow> auth)"

definition tls_server_name_from_authority :: "bytes \<Rightarrow> bytes option" where
  "tls_server_name_from_authority authority =
     (let authority = trim authority in
      if authority = [] then None
      else let host = trim (authority_host authority) in
        if host = [] then None else Some host)"

section \<open>Properties\<close>

lemma rsplit_once_last:
  assumes "c \<notin> set port"
  shows "rsplit_once c (h @ c # port) = Some (h, port)"
proof -
  have "dropWhile (\<lambda>b. b \<noteq> c) (rev port @ c # rev h) = c # rev h"
    by (subst dropWhile_append2) (use assms in auto)
  moreover have "takeWhile (\<lambda>b. b \<noteq> c) (rev port @ c # rev h) = rev port"
    by (subst takeWhile_append2) (use assms in auto)
  ultimately show ?thesis
    by (simp add: rsplit_once_def)
qed

lemma digit_no_colon: "list_all is_ascii_digit port \<Longrightarrow> colon \<notin> set port"
  by (auto simp: list_all_iff is_ascii_digit_def colon_def)

lemma authority_host_port:
  assumes "list_all is_ascii_digit port" and "port \<noteq> []" and "h = [] \<or> hd h \<noteq> open_bracket"
  shows "authority_host (h @ colon # port) = h"
  using rsplit_once_last [OF digit_no_colon [OF assms(1)], of h] assms
  by (cases h) (auto simp: authority_host_def colon_def open_bracket_def)

lemma authority_host_plain:
  assumes "colon \<notin> set h" and "h = [] \<or> hd h \<noteq> open_bracket"
  shows "authority_host h = h"
  using assms by (cases h) (auto simp: authority_host_def rsplit_once_def)

lemma authority_host_bracketed:
  assumes "close_bracket \<notin> set h"
  shows "authority_host (open_bracket # h @ close_bracket # rest) = h"
proof -
  have "takeWhile (\<lambda>b. b \<noteq> close_bracket) (h @ close_bracket # rest) = h"
    using assms by (subst takeWhile_append2) auto
  then show ?thesis
    by (simp add: authority_host_def)
qed

lemma white_space_bytes: "w \<in> set white_space \<Longrightarrow> b \<in> set w \<Longrightarrow> b < 0x21 \<or> 0x7F < b"
  by (auto simp: white_space_def)

lemma no_white_space_over:
  assumes "starts_with (h @ c # r) w" and "c \<notin> set w"
  shows "starts_with h w"
proof -
  obtain x where "h @ c # r = w @ x"
    using assms(1) by (auto simp: starts_with_append)
  then consider us where "h = w @ us" | us where "h @ us = w" "c # r = us @ x"
    by (auto simp: append_eq_append_conv2)
  then show ?thesis
  proof cases
    case 2
    with assms(2) have "us = []"
      by (cases us) auto
    with 2 show ?thesis
      by (auto simp: starts_with_append)
  qed (auto simp: starts_with_append)
qed

text \<open>A graphic ASCII byte between two parts keeps white space from reaching over it.\<close>

definition graphic :: "byte \<Rightarrow> bool" where
  "graphic b \<longleftrightarrow> 0x21 \<le> b \<and> b \<le> 0x7F"

lemma white_space_graphic: "w \<in> set white_space \<Longrightarrow> graphic b \<Longrightarrow> b \<notin> set w"
  using white_space_bytes [of w b] by (auto simp: graphic_def not_le)

lemma trimmed_ends:
  assumes "graphic c" and "graphic d" and "h = [] \<or> trimmed h"
  shows "trimmed (h @ c # r @ [d])"
  unfolding trimmed_def
proof (intro ballI conjI notI)
  fix w
  assume w: "w \<in> set white_space"
  then have c: "c \<notin> set w" and d: "d \<notin> set (rev w)" and ne: "w \<noteq> []"
    using assms white_space_graphic white_space_nonempty by force+
  show False if "starts_with (h @ c # r @ [d]) w"
    using no_white_space_over [OF that c] assms(3) w ne by (auto simp: trimmed_def starts_with_append)
  show False if "starts_with (rev (h @ c # r @ [d])) (rev w)"
  proof -
    have "starts_with ([] @ d # rev (h @ c # r)) (rev w)"
      using that by simp
    then have "starts_with [] (rev w)"
      using d by (rule no_white_space_over)
    with ne show False
      by (simp add: starts_with_append)
  qed
qed

lemma graphic_simps [simp]: "graphic colon" "graphic open_bracket" "graphic close_bracket"
  by (simp_all add: graphic_def colon_def open_bracket_def close_bracket_def)

lemma graphic_digit: "is_ascii_digit b \<Longrightarrow> graphic b"
  unfolding is_ascii_digit_def graphic_def by (auto simp: word_le_nat_alt)

lemma server_name_of_host:
  assumes "trimmed a" and "a \<noteq> []" and "authority_host a = h" and "trimmed h" and "h \<noteq> []"
  shows "tls_server_name_from_authority a = Some h"
  using assms by (simp add: tls_server_name_from_authority_def Let_def trim_trimmed)

text \<open>
  The server name that TLS and the ticket store use does not depend on the port: a host, the host with
  a port, and a bracketed host with or without one all give the host.
\<close>

lemma server_name_ignores_port:
  assumes "trimmed h" and "h \<noteq> []" and "port \<noteq> []" and "list_all is_ascii_digit port"
  shows "hd h \<noteq> open_bracket \<Longrightarrow> tls_server_name_from_authority (h @ colon # port) = Some h"
    and "hd h \<noteq> open_bracket \<Longrightarrow> colon \<notin> set h \<Longrightarrow> tls_server_name_from_authority h = Some h"
    and "close_bracket \<notin> set h \<Longrightarrow>
      tls_server_name_from_authority (open_bracket # h @ close_bracket # colon # port) = Some h"
    and "close_bracket \<notin> set h \<Longrightarrow>
      tls_server_name_from_authority (open_bracket # h @ [close_bracket]) = Some h"
proof -
  obtain p d where port: "port = p @ [d]" and d: "graphic d"
    using assms(3,4) graphic_digit by (cases port rule: rev_cases) auto
  have "trimmed (h @ colon # port)"
    using trimmed_ends [OF graphic_simps(1) d, of h p] assms(1) port by simp
  then show "tls_server_name_from_authority (h @ colon # port) = Some h" if "hd h \<noteq> open_bracket"
    using that assms authority_host_port by (intro server_name_of_host) auto
  show "tls_server_name_from_authority h = Some h" if "hd h \<noteq> open_bracket" "colon \<notin> set h"
    using that assms authority_host_plain by (intro server_name_of_host) auto
  have "trimmed ([] @ open_bracket # (h @ close_bracket # colon # p) @ [d])"
    using d by (intro trimmed_ends) auto
  then show "tls_server_name_from_authority (open_bracket # h @ close_bracket # colon # port) = Some h"
    if "close_bracket \<notin> set h"
    using that assms port authority_host_bracketed by (intro server_name_of_host) auto
  have "trimmed ([] @ open_bracket # h @ [close_bracket])"
    by (intro trimmed_ends) auto
  then show "tls_server_name_from_authority (open_bracket # h @ [close_bracket]) = Some h"
    if "close_bracket \<notin> set h"
    using that assms authority_host_bracketed [of h "[]"] by (intro server_name_of_host) auto
qed

end
