(* ===== verification/Endpoint_Host.thy ===== *)
theory Endpoint_Host
  imports Endpoint_Read Authority Ticket_Store
begin

text \<open>
  The operations the host calls and the driver of the endpoint (\<^verbatim>\<open>crates/wasm/src/endpoint.rs\<close>):
  construction, connecting, sessions, streams, datagrams, packets, timers, polling and shutdown.
  Results that only report success are returned beside the state.
\<close>

section \<open>Construction\<close>

definition session_default :: "qpack_local_settings \<Rightarrow> session" where
  "session_default settings =
     \<lparr>authority = [], control = \<lparr>control_rx = [], cs_peer_settings = None\<rparr>, control_send_stream = None,
      connect_stream = None, extra_sessions = [], pending_client_connects = [], connect_self_opened = False,
      established = False, connect_closed = False, connect_deadline = None, connect_rx = [],
      qpack = \<lparr>qs_decoder = qpack_decoder_new settings,
               qs_encoder = qpack_encoder_new
                 (case usize_try_from (max_table_capacity settings) of Some n \<Rightarrow> n | None \<Rightarrow> 0),
               qs_encoder_rx = [], qs_decoder_rx = [], qs_decoder_send = None, qs_pending_section_ric = Map.empty\<rparr>,
      qpack_encoder_send = None, qpack_blocked_streams = [], in_streams = [], capsules = [], extra_rx = [],
      self_bidi = []\<rparr>"

definition qpack_local_settings_disabled :: qpack_local_settings where
  "qpack_local_settings_disabled = \<lparr>max_table_capacity = 0, max_blocked_streams = 0\<rparr>"

text \<open>
  The answer of rustls and quinn to the configuration is an argument. \<open>VarInt_MAX\<close> is the largest
  value of quinn's idle timeout in milliseconds.
\<close>

definition VarInt_MAX :: nat where
  "VarInt_MAX = 2 ^ 62 - 1"

definition build :: "bool \<Rightarrow> wasm_limits \<Rightarrow> wasm_rate_limits \<Rightarrow> bool \<Rightarrow> string + unit \<Rightarrow> string + wt_endpoint" where
  "build srv l rl zero_rtt crypto =
     (case wasm_limits_validate l of
        Inl err \<Rightarrow> Inl err
      | Inr _ \<Rightarrow>
        (case wasm_rate_limits_validate rl of
           Inl err \<Rightarrow> Inl err
         | Inr _ \<Rightarrow>
           (case governor_new l of
              Inl err \<Rightarrow> Inl err
            | Inr g \<Rightarrow>
              (case peer_rate_limiter_new rl l of
                 Inl err \<Rightarrow> Inl err
               | Inr limiter \<Rightarrow>
                 if idle_timeout_ms l > VarInt_MAX then Inl ''E_INTERNAL: idleTimeoutMs exceeds QUIC varint range''
                 else case crypto of
                   Inl err \<Rightarrow> Inl err
                 | Inr _ \<Rightarrow>
                 Inr \<lparr>is_server = srv, conns = [], sessions = [], handle_to_id = [], id_to_handle = [],
                      next_id = 1, stream_index = [], rev_index = [], stream_sessions = [], paused = [],
                      half_done = [], next_stream = 1,
                      queue = \<lparr>events = [], event_reservations = [], governor = g, last_error = None\<rparr>,
                      endpoint_tx = [], rate_limiter = limiter, handshake_reservations = [],
                      session_reservations = [], stream_reservations = [],
                      capacity_waiters = \<lparr>wait_order = [], wait_present = []\<rparr>,
                      handshake_timeout_ms = Wasm_Limits.handshake_timeout_ms l,
                      wt_max_sessions = WT_MAX_SESSIONS_DEFAULT, enable_0rtt = zero_rtt,
                      nst_flush_remaining = [], session_closed_count = 0,
                      qpack_settings = qpack_local_settings_disabled, panicked = False\<rparr>))))"

definition set_wt_max_sessions :: "nat \<Rightarrow> wt_endpoint \<Rightarrow> wt_endpoint" where
  "set_wt_max_sessions v e = e\<lparr>wt_max_sessions := clamp_wt_max_sessions v\<rparr>"

definition set_qpack_settings :: "qpack_local_settings \<Rightarrow> wt_endpoint \<Rightarrow> wt_endpoint" where
  "set_qpack_settings settings e = e\<lparr>qpack_settings := settings\<rparr>"

text \<open>
  The endpoint's ticket store is shared with rustls and, when configured, with other endpoints, so the
  two operations on it take the store and the vault rather than the endpoint's state.
\<close>

definition dump_client_ticket ::
  "(bytes \<Rightarrow> 'n option) \<Rightarrow> bytes list \<Rightarrow> bytes \<Rightarrow> ('n, 'g, 't) in_memory_ticket_store option
     \<Rightarrow> ('n, 'g, 't) client_ticket_vault
     \<Rightarrow> (('n, 'g, 't) in_memory_ticket_store option \<times> ('n, 'g, 't) client_ticket_vault \<times> bytes option) option" where
  "dump_client_ticket server_name rng name store vault =
     (case tls_server_name_from_authority name of
        None \<Rightarrow> Some (store, vault, None)
      | Some host \<Rightarrow>
        (case store of
           None \<Rightarrow> Some (store, vault, None)
         | Some st \<Rightarrow> map_option (\<lambda>(st, vault, blob). (Some st, vault, blob))
             (export_client_tickets server_name rng host st vault)))"

definition import_client_ticket ::
  "(bytes \<Rightarrow> 'n option) \<Rightarrow> bytes \<Rightarrow> bytes \<Rightarrow> ('n, 'g, 't) in_memory_ticket_store option
     \<Rightarrow> ('n, 'g, 't) client_ticket_vault
     \<Rightarrow> ('n, 'g, 't) in_memory_ticket_store option \<times> ('n, 'g, 't) client_ticket_vault \<times> bool" where
  "import_client_ticket server_name name blob store vault =
     (case tls_server_name_from_authority name of
        None \<Rightarrow> (store, vault, False)
      | Some host \<Rightarrow>
        (case store of
           None \<Rightarrow> (store, vault, False)
         | Some st \<Rightarrow>
             (case import_client_tickets server_name host blob st vault of (st, vault, r) \<Rightarrow> (Some st, vault, r))))"

section \<open>New connections\<close>

definition register :: "conn_handle \<Rightarrow> wt_endpoint \<Rightarrow> wt_endpoint \<times> (string + u32)" where
  "register h e =
     (case checked_add_word (next_id e) 1 of
        None \<Rightarrow> (e, Inl ''E_LIMIT_EXCEEDED: connection id space exhausted'')
      | Some following \<Rightarrow>
          (e\<lparr>next_id := following, handle_to_id := hm_insert h (next_id e) (handle_to_id e),
             id_to_handle := hm_insert (next_id e) h (id_to_handle e)\<rparr>, Inr (next_id e)))"

text \<open>
  Admission: the rate limiter for a server, then both budgets. When the second is refused the first
  reservation is dropped.
\<close>

definition admit_new_connection ::
  "instant \<Rightarrow> socket_addr option \<Rightarrow> wt_endpoint \<Rightarrow> wt_endpoint \<times> (string + reservation \<times> reservation)" where
  "admit_new_connection now src e =
     (case (case src of
              None \<Rightarrow> (e, None)
            | Some src \<Rightarrow>
              (case check now src Handshake (rate_limiter e) of
                 (rl, Inr _) \<Rightarrow> (e\<lparr>rate_limiter := rl\<rparr>, None)
               | (rl, Inl (Err err)) \<Rightarrow> (e\<lparr>rate_limiter := rl\<rparr>, Some err)
               | (rl, Inl (Panic err)) \<Rightarrow> (e\<lparr>rate_limiter := rl, panicked := True\<rparr>, Some err))) of
        (e, Some err) \<Rightarrow> (e, Inl err)
      | (e, None) \<Rightarrow>
        (case reserve_handshake (governor (queue e)) of
           (g, Inl err) \<Rightarrow> (upd_governor (\<lambda>_. g) e, Inl err)
         | (g, Inr handshake) \<Rightarrow>
           (case reserve_session 0 g of
              (g, Inl err) \<Rightarrow> (upd_governor (\<lambda>_. reservation_drop handshake g) e, Inl err)
            | (g, Inr sess) \<Rightarrow> (upd_governor (\<lambda>_. g) e, Inr (handshake, sess)))))"

definition millis :: nat where
  "millis = 1000000"

definition add_connection :: "conn_handle \<Rightarrow> quinn_conn \<Rightarrow> bytes \<Rightarrow> instant \<Rightarrow> wt_endpoint \<Rightarrow> wt_endpoint" where
  "add_connection h c auth now e =
     e\<lparr>conns := hm_insert h c (conns e),
       sessions := hm_insert h ((session_default (qpack_settings e))\<lparr>authority := auth,
         connect_deadline := Some (now + handshake_timeout_ms e * millis)\<rparr>) (sessions e)\<rparr>"

text \<open>
  \<^verbatim>\<open>connect\<close>: quinn's answer for a server name is an argument. A return drops the reservations that
  are still local.
\<close>

definition drop_pair :: "reservation \<times> reservation \<Rightarrow> wt_endpoint \<Rightarrow> wt_endpoint" where
  "drop_pair = (\<lambda>(handshake, sess). upd_governor (\<lambda>g. reservation_drop handshake (reservation_drop sess g)))"

definition connect ::
  "bytes \<Rightarrow> (bytes \<Rightarrow> (conn_handle \<times> quinn_conn) option) \<Rightarrow> instant \<Rightarrow> wt_endpoint \<Rightarrow> wt_endpoint \<times> int" where
  "connect auth answer now e =
     (if is_server e then (set_last_error ''E_INTERNAL: client config unavailable'' e, - 1)
      else case admit_new_connection now None e of
        (e, Inl err) \<Rightarrow> (set_last_error err e, - 1)
      | (e, Inr pair) \<Rightarrow>
        (case tls_server_name_from_authority auth of
           None \<Rightarrow> (drop_pair pair (set_last_error ''E_INVALID_ARGUMENT: empty authority host'' e), - 1)
         | Some server_name \<Rightarrow>
           (case answer server_name of
              None \<Rightarrow> (drop_pair pair (set_last_error ''E_INTERNAL: quic connect rejected'' e), - 1)
            | Some (h, c) \<Rightarrow>
              (case register h e of
                 (e, Inl err) \<Rightarrow> (drop_pair pair (set_last_error err e), - 1)
               | (e, Inr conn) \<Rightarrow>
                   (insert_session_reservation h (snd pair) (insert_handshake h (fst pair)
                      (add_connection h c auth now e)), int (unat conn))))))"

text \<open>\<^verbatim>\<open>accept\<close> of \<^verbatim>\<open>recv\<close>: a new connection from \<open>src\<close>; the flag says whether it is driven.\<close>

definition accept_connection ::
  "instant \<Rightarrow> socket_addr \<Rightarrow> conn_handle \<Rightarrow> quinn_conn \<Rightarrow> reservation \<times> reservation \<Rightarrow> wt_endpoint
     \<Rightarrow> wt_endpoint \<times> bool" where
  "accept_connection now src h c pair e =
     (case register h e of
        (e, Inl err) \<Rightarrow> (drop_pair pair (set_last_error err e), False)
      | (e, Inr conn) \<Rightarrow>
        let e = add_connection h c [] now e in
        (case (if is_server e then
                 (case attach_connection conn src now (rate_limiter e) of
                    (rl, Inr _) \<Rightarrow> (e\<lparr>rate_limiter := rl\<rparr>, None)
                  | (rl, Inl (Err err)) \<Rightarrow> (e\<lparr>rate_limiter := rl\<rparr>, Some err)
                  | (rl, Inl (Panic err)) \<Rightarrow> (e\<lparr>rate_limiter := rl, panicked := True\<rparr>, Some err))
               else (e, None)) of
           (e, Some err) \<Rightarrow>
             (drop_pair pair (close_conn conn 0 (str_lit ''rate limited'') now (set_last_error err e)), False)
         | (e, None) \<Rightarrow>
             (insert_session_reservation h (snd pair) (insert_handshake h (fst pair) e), True)))"

section \<open>Opening the protocol streams\<close>

definition quinn_open :: "conn_handle \<Rightarrow> dir \<Rightarrow> wt_endpoint \<Rightarrow> wt_endpoint \<times> stream_id option" where
  "quinn_open h d e =
     (case hm_get (conns e) h of
        None \<Rightarrow> (e, None)
      | Some c \<Rightarrow>
        (case q_open c d of
           [] \<Rightarrow> (e, None)
         | sid # rest \<Rightarrow> (quinn h (\<lambda>c. c\<lparr>q_open := (q_open c)(d := rest)\<rparr>) e, Some sid)))"

definition open_protocol_stream ::
  "conn_handle \<Rightarrow> bytes \<Rightarrow> (stream_id \<Rightarrow> session \<Rightarrow> session) \<Rightarrow> wt_endpoint \<Rightarrow> wt_endpoint" where
  "open_protocol_stream h preamble f e =
     (case quinn_open h Dir_Uni e of
        (e, None) \<Rightarrow> e
      | (e, Some sid) \<Rightarrow> upd_session h (f sid) (call h (Call_Write sid preamble) e))"

definition send_connect_request :: "conn_handle \<Rightarrow> stream_id \<Rightarrow> bytes \<Rightarrow> wt_endpoint \<Rightarrow> wt_endpoint" where
  "send_connect_request h sid auth e =
     (case with_qpack h (encode_request_for_session auth)
             (literal_headers (encode_connect_request auth (str_lit ''/''))) e of
        (e, hdrs) \<Rightarrow> write_encoded_headers h sid hdrs e)"

definition on_connected :: "conn_handle \<Rightarrow> wt_endpoint \<Rightarrow> wt_endpoint" where
  "on_connected h e =
     (if hm_get (conns e) h = None then e
      else
        let e = open_protocol_stream h (encode_control_preamble_with (of_nat (wt_max_sessions e)) (qpack_settings e))
                  (\<lambda>sid s. s\<lparr>control_send_stream := Some sid\<rparr>) e;
            e = open_protocol_stream h (varint_encode stream_type_QPACK_ENCODER [])
                  (\<lambda>sid s. s\<lparr>qpack_encoder_send := Some sid\<rparr>) e;
            e = open_protocol_stream h (varint_encode stream_type_QPACK_DECODER [])
                  (\<lambda>sid s. s\<lparr>qpack := (qpack s)\<lparr>qs_decoder_send := Some sid\<rparr>\<rparr>) e
        in if is_server e then e
           else case quinn_open h Dir_Bi e of
             (e, None) \<Rightarrow> e
           | (e, Some sid) \<Rightarrow>
               let auth = (case hm_get (sessions e) h of Some s \<Rightarrow> authority s | None \<Rightarrow> []);
                   e = send_connect_request h sid auth e
               in upd_session h (\<lambda>s. s\<lparr>connect_stream := Some sid, connect_self_opened := True\<rparr>) e)"

definition new_in_stream :: "dir \<Rightarrow> in_stream" where
  "new_in_stream d =
     \<lparr>is_kind = None, is_bidi = (d = Dir_Bi), is_sid_read = False, is_wt_session_id = None,
      is_handle = None, is_connect_admitted = False, is_buf = []\<rparr>"

definition accept_streams :: "conn_handle \<Rightarrow> dir \<Rightarrow> wt_endpoint \<Rightarrow> wt_endpoint" where
  "accept_streams h d e =
     (case hm_get (conns e) h of
        None \<Rightarrow> e
      | Some c \<Rightarrow>
        fold (\<lambda>sid. upd_session h (\<lambda>s. s\<lparr>in_streams := hm_or_insert sid (new_in_stream d) (in_streams s)\<rparr>))
          (q_accept c d) (quinn h (\<lambda>c. c\<lparr>q_accept := (q_accept c)(d := [])\<rparr>) e))"

section \<open>The driver\<close>

definition on_connection_lost ::
  "(bytes \<Rightarrow> bytes option) \<Rightarrow> conn_handle \<Rightarrow> connection_error \<Rightarrow> instant \<Rightarrow> wt_endpoint \<Rightarrow> wt_endpoint" where
  "on_connection_lost huff h reason now e =
     (case hm_get (handle_to_id e) h of
        None \<Rightarrow> e
      | Some conn \<Rightarrow>
        let e = fold unpause (map fst (filter (\<lambda>(wh, sh, sid). sh = h) (stream_index e))) e;
            e = read_streams huff h now e;
            e = (case connection_lost_signal reason of
               None \<Rightarrow> e
             | Some (err, code) \<Rightarrow>
                 ep_push_event (ConnectionClosed conn code)
                   (case err of Some err \<Rightarrow> set_last_error err e | None \<Rightarrow> e))
        in cleanup_connection h now (flush_conn_transmits h e))"

text \<open>The events of a connection; the flag says whether \<^verbatim>\<open>drive\<close> goes on after the loop.\<close>

fun drive_loop ::
  "(bytes \<Rightarrow> bytes option) \<Rightarrow> conn_handle \<Rightarrow> instant \<Rightarrow> quic_event list \<Rightarrow> wt_endpoint \<Rightarrow> wt_endpoint \<times> bool" where
  "drive_loop huff h now [] e = (e, hm_get (conns e) h \<noteq> None)"
| "drive_loop huff h now (ev # evs) e =
     (if hm_get (conns e) h = None then (e, False)
      else
        let e = quinn h (\<lambda>c. c\<lparr>q_events := evs\<rparr>) e in
        (case ev of
           Quic_Connected \<Rightarrow>
             (case hm_get (handle_to_id e) h of
                None \<Rightarrow> (e, False)
              | Some conn \<Rightarrow>
                let e = on_connected h (ep_push_event (Connected conn) e);
                    e = (if enable_0rtt e then e\<lparr>nst_flush_remaining := hm_insert h 64 (nst_flush_remaining e)\<rparr> else e)
                in drive_loop huff h now evs e)
         | Quic_Opened d \<Rightarrow> drive_loop huff h now evs (accept_streams h d e)
         | Quic_Stopped sid code \<Rightarrow>
             drive_loop huff h now evs (on_stream_stopped h sid (unmap_wt_app_error code) e)
         | Quic_DatagramReceived \<Rightarrow> drive_loop huff h now evs (drain_datagrams h now e)
         | Quic_ConnectionLost reason \<Rightarrow> (on_connection_lost huff h reason now e, False)
         | _ \<Rightarrow> drive_loop huff h now evs e))"

definition drive :: "(bytes \<Rightarrow> bytes option) \<Rightarrow> conn_handle \<Rightarrow> instant \<Rightarrow> wt_endpoint \<Rightarrow> wt_endpoint" where
  "drive huff h now e =
     (case hm_get (conns e) h of
        None \<Rightarrow> e
      | Some c \<Rightarrow>
        (case drive_loop huff h now (q_events c) e of
           (e, False) \<Rightarrow> e
         | (e, True) \<Rightarrow>
             read_streams huff h now (drain_datagrams h now
               (accept_streams h Dir_Bi (accept_streams h Dir_Uni e)))))"

definition drive_all :: "(bytes \<Rightarrow> bytes option) \<Rightarrow> instant \<Rightarrow> wt_endpoint \<Rightarrow> wt_endpoint" where
  "drive_all huff now e = fold (\<lambda>h. drive huff h now) (map fst (conns e)) e"

definition new_answers :: "quinn_call \<Rightarrow> quinn_conn \<Rightarrow> quinn_conn \<Rightarrow> quinn_conn" where
  "new_answers ca c old = c\<lparr>q_side := q_side old, q_calls := q_calls old @ [ca]\<rparr>"

text \<open>
  What quinn makes of a packet. \<open>Packet_New\<close> carries its answer to \<^verbatim>\<open>refuse\<close>, to \<^verbatim>\<open>accept\<close>,
  and the response when \<^verbatim>\<open>accept\<close> fails. \<open>Packet_Event\<close> carries the connection with its new answers,
  which is what \<^verbatim>\<open>handle_event\<close> changes.
\<close>

datatype packet_answer =
    Packet_Nothing
  | Packet_New "bytes \<times> socket_addr" "(conn_handle \<times> quinn_conn) option" bytes "socket_addr option"
  | Packet_Event conn_handle quinn_conn
  | Packet_Response bytes socket_addr

definition recv ::
  "(bytes \<Rightarrow> bytes option) \<Rightarrow> instant \<Rightarrow> socket_addr \<Rightarrow> packet_answer \<Rightarrow> wt_endpoint \<Rightarrow> wt_endpoint" where
  "recv huff now src ans e =
     (case ans of
        Packet_Nothing \<Rightarrow> drive_all huff now e
      | Packet_New refusal accepted buf dest \<Rightarrow>
        (case admit_new_connection now (if is_server e then Some src else None) e of
           (e, Inl err) \<Rightarrow>
             (set_last_error err e)\<lparr>endpoint_tx := endpoint_tx e @ [refusal]\<rparr>
         | (e, Inr pair) \<Rightarrow>
           (case accepted of
              Some (h, c) \<Rightarrow>
                (case accept_connection now src h c pair e of
                   (e, True) \<Rightarrow> drive huff h now e
                 | (e, False) \<Rightarrow> e)
            | None \<Rightarrow>
                drive_all huff now
                  (drop_pair pair (e\<lparr>endpoint_tx := push_transmit_if_ready (endpoint_tx e) buf dest\<rparr>))))
      | Packet_Event h c \<Rightarrow>
        if hm_get (conns e) h = None then drive_all huff now e
        else drive huff h now (quinn h (new_answers Call_Handle_Event c) e)
      | Packet_Response buf dest \<Rightarrow>
          drive_all huff now (e\<lparr>endpoint_tx := push_transmit_if_ready (endpoint_tx e) buf (Some dest)\<rparr>))"

section \<open>Timers\<close>

definition expire_pending :: "conn_handle \<times> u32 \<times> stream_id \<Rightarrow> wt_endpoint \<Rightarrow> wt_endpoint" where
  "expire_pending = (\<lambda>(h, conn, session_id) e.
     let e = set_last_error ''E_HANDSHAKE_TIMEOUT: WebTransport CONNECT timed out'' e in
     case Option.bind (hm_get (sessions e) h) (resolve_wt_session session_id) of
       None \<Rightarrow> e
     | Some sid \<Rightarrow>
       let e = call h (Call_Stop sid 0) (call h (Call_Reset sid 0) e);
           e = upd_session h (\<lambda>s. s\<lparr>pending_client_connects := hm_remove sid (pending_client_connects s),
                                     extra_sessions := hs_remove sid (extra_sessions s)\<rparr>) e
       in push_session_closed conn session_id 0 [] e)"

definition expired_pending :: "instant \<Rightarrow> wt_endpoint \<Rightarrow> (conn_handle \<times> u32 \<times> stream_id) list" where
  "expired_pending now e =
     concat (map (\<lambda>(h, s). case hm_get (handle_to_id e) h of
         None \<Rightarrow> []
       | Some conn \<Rightarrow>
         map (\<lambda>(sid, p). (h, conn, sid))
           (filter (\<lambda>(sid, p). case pc_deadline p of Some d \<Rightarrow> d \<le> now | None \<Rightarrow> False)
             (pending_client_connects s))) (sessions e))"

text \<open>A fired timer leaves a connection with the answers quinn has then, the argument \<open>fired\<close>.\<close>

definition fire_timers :: "(conn_handle \<Rightarrow> quinn_conn) \<Rightarrow> instant \<Rightarrow> wt_endpoint \<Rightarrow> wt_endpoint" where
  "fire_timers fired now e =
     fold (\<lambda>h e. case Option.bind (hm_get (conns e) h) q_timeout of
         Some t \<Rightarrow> if t \<le> now then quinn h (new_answers Call_Handle_Timeout (fired h)) e else e
       | None \<Rightarrow> e) (map fst (conns e)) e"

definition handle_timeout :: "(conn_handle \<Rightarrow> quinn_conn) \<Rightarrow> (bytes \<Rightarrow> bytes option) \<Rightarrow> instant \<Rightarrow> wt_endpoint \<Rightarrow> wt_endpoint" where
  "handle_timeout fired huff now e =
     (let e = fire_timers fired now e;
          expired = map fst (filter (\<lambda>(h, s). connect_deadline_expired (established s) (connect_closed s)
            (connect_deadline s) now) (sessions e));
          e = fold (\<lambda>h e. fail_session_before_establish h
                (set_last_error ''E_HANDSHAKE_TIMEOUT: WebTransport CONNECT timed out'' e)) expired e;
          e = fold expire_pending (expired_pending now e) e
      in drive_all huff now e)"

definition soonest_deadline :: "wt_endpoint \<Rightarrow> instant option" where
  "soonest_deadline e =
     (let add = (\<lambda>t soonest. case t of Some t \<Rightarrow> sooner_deadline soonest t | None \<Rightarrow> soonest);
          soonest = fold (\<lambda>(h, c). add (q_timeout c)) (conns e) None
      in fold (\<lambda>(h, s) soonest.
           fold (\<lambda>(sid, p). add (pc_deadline p)) (pending_client_connects s)
             (if should_track_connect_deadline (established s) (connect_closed s)
              then add (connect_deadline s) soonest else soonest)) (sessions e) soonest)"

text \<open>The time to the next deadline, in nanoseconds where the code gives a float of milliseconds.\<close>

definition next_timeout_value :: "instant \<Rightarrow> instant option \<Rightarrow> int" where
  "next_timeout_value now soonest =
     (case soonest of Some t \<Rightarrow> if t > now then int (t - now) else 0 | None \<Rightarrow> - 1)"

definition next_timeout :: "instant \<Rightarrow> wt_endpoint \<Rightarrow> int" where
  "next_timeout now e = next_timeout_value now (soonest_deadline e)"

section \<open>Polling\<close>

definition ep_release_host_token ::
  "(bytes \<Rightarrow> bytes option) \<Rightarrow> instant \<Rightarrow> nat \<Rightarrow> wt_endpoint \<Rightarrow> wt_endpoint \<times> bool" where
  "ep_release_host_token huff now token e =
     (case queue_release_host_token token (queue e) of
        (q, False) \<Rightarrow> (e\<lparr>queue := q\<rparr>, False)
      | (q, True) \<Rightarrow> (resume_waiting_after_capacity_change huff now (e\<lparr>queue := q\<rparr>), True))"

definition ep_poll_event ::
  "(bytes \<Rightarrow> bytes option) \<Rightarrow> instant \<Rightarrow> wt_endpoint \<Rightarrow> wt_endpoint \<times> wt_event option" where
  "ep_poll_event huff now e =
     (case poll_event (queue e) of
        (q, None) \<Rightarrow> (e\<lparr>queue := q\<rparr>, None)
      | (q, Some ev) \<Rightarrow> (resume_waiting_after_capacity_change huff now (e\<lparr>queue := q\<rparr>), Some ev))"

text \<open>
  One round of the loop of \<^verbatim>\<open>poll_event_encoded\<close>. \<open>Round_Diverges\<close> is the search for a free host
  token that never ends, which the governor's model keeps apart.
\<close>

datatype round =
    Round_Return "bytes option"
  | Round_Continue
  | Round_Diverges

definition poll_encoded_round ::
  "(bytes \<Rightarrow> bytes option) \<Rightarrow> instant \<Rightarrow> wt_endpoint \<Rightarrow> wt_endpoint \<times> round" where
  "poll_encoded_round huff now e =
     (case poll_event_encoded (queue e) of
        (q, Poll_Empty) \<Rightarrow> (e\<lparr>queue := q\<rparr>, Round_Return None)
      | (q, Poll_Encoded bytes) \<Rightarrow>
          (resume_waiting_after_capacity_change huff now (e\<lparr>queue := q\<rparr>), Round_Return (Some bytes))
      | (q, Poll_Diverges) \<Rightarrow> (e\<lparr>queue := q\<rparr>, Round_Diverges)
      | (q, Poll_Lost ev) \<Rightarrow>
        let e = e\<lparr>queue := q\<rparr>; conn = event_conn ev;
            e = (if hm_get (id_to_handle e) conn \<noteq> None then
                   close_conn conn H3_INTERNAL_ERROR (str_lit ''host reservation token space exhausted'') now e
                 else ep_push_event (ConnectionClosed conn H3_INTERNAL_ERROR) e)
        in (resume_waiting_after_capacity_change huff now e, Round_Continue))"

text \<open>The loop with a bound on its rounds; \<open>None\<close> when it has not returned within the bound.\<close>

fun ep_poll_event_encoded ::
  "nat \<Rightarrow> (bytes \<Rightarrow> bytes option) \<Rightarrow> instant \<Rightarrow> wt_endpoint \<Rightarrow> wt_endpoint \<times> bytes option option" where
  "ep_poll_event_encoded 0 huff now e = (e, None)"
| "ep_poll_event_encoded (Suc n) huff now e =
     (case poll_encoded_round huff now e of
        (e, Round_Return r) \<Rightarrow> (e, Some r)
      | (e, Round_Continue) \<Rightarrow> ep_poll_event_encoded n huff now e
      | (e, Round_Diverges) \<Rightarrow> (e, None))"

definition drain_all_transmits :: "wt_endpoint \<Rightarrow> wt_endpoint \<times> (bytes \<times> socket_addr) list" where
  "drain_all_transmits e =
     (e\<lparr>endpoint_tx := [], conns := map (\<lambda>(h, c). (h, c\<lparr>q_transmits := []\<rparr>)) (conns e)\<rparr>,
      endpoint_tx e @ concat (map (\<lambda>(h, c). q_transmits c) (conns e)))"

text \<open>One round of the flush of session tickets in \<^verbatim>\<open>poll_transmits\<close>.\<close>

definition flush_tickets :: "(bytes \<Rightarrow> bytes option) \<Rightarrow> instant \<Rightarrow> conn_handle \<Rightarrow> wt_endpoint \<Rightarrow> wt_endpoint" where
  "flush_tickets huff now h e =
     (if hm_get (conns e) h = None then e\<lparr>nst_flush_remaining := hm_remove h (nst_flush_remaining e)\<rparr>
      else
        let e = drive huff h now e in
        (case hm_get (nst_flush_remaining e) h of
           None \<Rightarrow> e
         | Some left \<Rightarrow>
             if left - 1 = 0 then e\<lparr>nst_flush_remaining := hm_remove h (nst_flush_remaining e)\<rparr>
             else e\<lparr>nst_flush_remaining := hm_insert h (left - 1) (nst_flush_remaining e)\<rparr>))"

definition poll_transmits ::
  "(bytes \<Rightarrow> bytes option) \<Rightarrow> instant \<Rightarrow> wt_endpoint \<Rightarrow> wt_endpoint \<times> (bytes \<times> socket_addr) list" where
  "poll_transmits huff now e =
     drain_all_transmits
       (if enable_0rtt e then fold (flush_tickets huff now) (map fst (nst_flush_remaining e)) e else e)"

section \<open>Operations of the host on sessions\<close>

definition max_datagram_size :: "u32 \<Rightarrow> u64 \<Rightarrow> wt_endpoint \<Rightarrow> nat option" where
  "max_datagram_size conn session_id e =
     (case hm_get (id_to_handle e) conn of
        None \<Rightarrow> None
      | Some h \<Rightarrow>
        (case Option.bind (hm_get (sessions e) h) (resolve_wt_session session_id) of
           None \<Rightarrow> None
         | Some _ \<Rightarrow>
           (case Option.bind (hm_get (conns e) h) q_max_size of
              None \<Rightarrow> None
            | Some transport \<Rightarrow>
                Some (min (Wasm_Limits.max_datagram_size (limits (governor (queue e))))
                          (transport - datagram_prefix_len session_id)))))"

definition send_datagram_framed :: "u32 \<Rightarrow> u64 \<Rightarrow> bytes \<Rightarrow> wt_endpoint \<Rightarrow> wt_endpoint \<times> bool" where
  "send_datagram_framed conn session_id payload e =
     (case hm_get (id_to_handle e) conn of
        None \<Rightarrow> (set_last_error ''E_SESSION_CLOSED: unknown connection'' e, False)
      | Some h \<Rightarrow>
        (case Option.bind (hm_get (sessions e) h) (resolve_wt_session session_id) of
           None \<Rightarrow> (set_last_error ''E_SESSION_CLOSED: session not established'' e, False)
         | Some _ \<Rightarrow>
           (case hm_get (conns e) h of
              None \<Rightarrow> (set_last_error ''E_SESSION_CLOSED: connection missing'' e, False)
            | Some c \<Rightarrow>
              let e = call h (Call_Datagram (wrap_datagram session_id payload))
                        (quinn h (\<lambda>c. c\<lparr>q_sends := tl (q_sends c)\<rparr>) e) in
              (case q_sends c of
                 Datagram_TooLarge # _ \<Rightarrow> (set_last_error ''E_LIMIT_EXCEEDED: maxDatagramSize exceeded'' e, False)
               | Datagram_Failed # _ \<Rightarrow> (set_last_error ''E_QUEUE_FULL: datagram send queue blocked'' e, False)
               | _ \<Rightarrow> (e, True)))))"

definition send_datagram :: "u32 \<Rightarrow> u64 \<Rightarrow> bytes \<Rightarrow> wt_endpoint \<Rightarrow> wt_endpoint \<times> bool" where
  "send_datagram conn session_id payload e =
     (if datagram_payload_exceeds_caps (length payload)
           (Wasm_Limits.max_datagram_size (limits (governor (queue e)))) (max_datagram_size conn session_id e) then
        (set_last_error ''E_LIMIT_EXCEEDED: maxDatagramSize exceeded'' e, False)
      else send_datagram_framed conn session_id payload e)"

definition open_wt_session :: "u32 \<Rightarrow> instant \<Rightarrow> wt_endpoint \<Rightarrow> wt_endpoint \<times> int" where
  "open_wt_session conn now e =
     (case hm_get (id_to_handle e) conn of
        None \<Rightarrow> (set_last_error ''E_SESSION_CLOSED: unknown connection'' e, - 1)
      | Some h \<Rightarrow>
        if is_server e then (set_last_error ''E_UNSUPPORTED_ARGUMENT: open_wt_session is client-only'' e, - 1)
        else case hm_get (sessions e) h of
          None \<Rightarrow> (set_last_error ''E_SESSION_CLOSED: session missing'' e, - 1)
        | Some s \<Rightarrow>
          if \<not> established s then (set_last_error ''E_SESSION_CLOSED: primary session not established'' e, - 1)
          else case cs_peer_settings (control s) of
            None \<Rightarrow> (set_last_error ''E_HANDSHAKE_TIMEOUT: peer SETTINGS not yet received'' e, - 1)
          | Some peer \<Rightarrow>
            let peer_max = (if ps_max_sessions peer = 0 then 1 else unat (ps_max_sessions peer)) in
            if active_wt_count s \<ge> peer_max then
              (set_last_error ''E_LIMIT_EXCEEDED: SETTINGS_WT_MAX_SESSIONS exceeded'' e, - 1)
            else if hm_get (conns e) h = None then (set_last_error ''E_SESSION_CLOSED: connection missing'' e, - 1)
            else case quinn_open h Dir_Bi e of
              (e, None) \<Rightarrow> (set_last_error ''E_LIMIT_EXCEEDED: stream capacity unavailable'' e, - 1)
            | (e, Some sid) \<Rightarrow>
              (upd_session h (\<lambda>s. s\<lparr>pending_client_connects :=
                   hm_insert sid \<lparr>pc_rx = [], pc_deadline = Some (now + handshake_timeout_ms e * millis)\<rparr>
                     (pending_client_connects s)\<rparr>) (send_connect_request h sid (authority s) e),
               if unat sid < 2 ^ 63 then int (unat sid) else - 1))"

definition close_wt_session :: "u32 \<Rightarrow> u64 \<Rightarrow> u32 \<Rightarrow> bytes \<Rightarrow> wt_endpoint \<Rightarrow> wt_endpoint \<times> bool" where
  "close_wt_session conn session_id code reason e =
     (case hm_get (id_to_handle e) conn of
        None \<Rightarrow> (set_last_error ''E_SESSION_CLOSED: unknown connection'' e, False)
      | Some h \<Rightarrow>
        (case hm_get (sessions e) h of
           None \<Rightarrow> (set_last_error ''E_SESSION_CLOSED: session missing'' e, False)
         | Some s \<Rightarrow>
           (case resolve_wt_session session_id s of
              None \<Rightarrow> (set_last_error ''E_SESSION_CLOSED: unknown WebTransport session id'' e, False)
            | Some sid \<Rightarrow>
              let e = (if wt_session_live sid s
                    then call h (Call_Finish sid) (call h (Call_Write sid (close_data_frame code reason)) e)
                    else call h (Call_Stop sid (ucast code)) (call h (Call_Reset sid (ucast code)) e));
                  e = upd_session h (\<lambda>s. (drop_wt_session sid s)
                        \<lparr>pending_client_connects := hm_remove sid (pending_client_connects s)\<rparr>) e;
                  e = reset_session_streams h conn session_id e
              in (push_session_closed conn session_id code [] e, True))))"

definition drain_wt_session :: "u32 \<Rightarrow> u64 \<Rightarrow> wt_endpoint \<Rightarrow> wt_endpoint \<times> bool" where
  "drain_wt_session conn session_id e =
     (case hm_get (id_to_handle e) conn of
        None \<Rightarrow> (set_last_error ''E_SESSION_CLOSED: unknown connection'' e, False)
      | Some h \<Rightarrow>
        (case hm_get (sessions e) h of
           None \<Rightarrow> (set_last_error ''E_SESSION_CLOSED: session missing'' e, False)
         | Some s \<Rightarrow>
           (case resolve_wt_session session_id s of
              None \<Rightarrow> (set_last_error ''E_SESSION_CLOSED: unknown WebTransport session id'' e, False)
            | Some sid \<Rightarrow>
              if \<not> wt_session_live sid s then (set_last_error ''E_SESSION_CLOSED: session not established'' e, False)
              else if hm_get (conns e) h = None then
                (set_last_error ''E_SESSION_CLOSED: connection missing'' e, False)
              else (call h (Call_Write sid drain_data_frame) e, True))))"

section \<open>Operations of the host on streams\<close>

definition stream_header :: "bool \<Rightarrow> u64 \<Rightarrow> bytes" where
  "stream_header bidi session_id =
     varint_encode session_id (varint_encode (if bidi then frame_WT_BIDI else stream_type_WT_UNI) [])"

text \<open>\<^verbatim>\<open>handle as i32\<close>.\<close>

definition as_i32 :: "u32 \<Rightarrow> int" where
  "as_i32 w = (if unat w < 2 ^ 31 then int (unat w) else int (unat w) - 2 ^ 32)"

definition open_stream :: "u32 \<Rightarrow> u64 \<Rightarrow> bool \<Rightarrow> wt_endpoint \<Rightarrow> wt_endpoint \<times> int" where
  "open_stream conn session_id bidi e =
     (case hm_get (id_to_handle e) conn of
        None \<Rightarrow> (set_last_error ''E_SESSION_CLOSED: unknown connection'' e, - 1)
      | Some h \<Rightarrow>
        if Option.bind (hm_get (sessions e) h) (resolve_wt_session session_id) = None then
          (set_last_error ''E_SESSION_CLOSED: session not established'' e, - 1)
        else
          let wh = next_stream e in
          if checked_add_word wh 1 = None then
            (set_last_error ''E_LIMIT_EXCEEDED: stream handle space exhausted'' e, - 1)
          else case reserve_stream_for conn wh (stream_kind_of bidi) e of
            (e, Inl err) \<Rightarrow> (set_last_error err e, - 1)
          | (e, Inr r) \<Rightarrow>
            if hm_get (conns e) h = None then
              (upd_governor (reservation_drop r) (set_last_error ''E_SESSION_CLOSED: connection missing'' e), - 1)
            else case quinn_open h (if bidi then Dir_Bi else Dir_Uni) e of
              (e, None) \<Rightarrow>
                (upd_governor (reservation_drop r)
                   (set_last_error ''E_LIMIT_EXCEEDED: stream capacity unavailable'' e), - 1)
            | (e, Some sid) \<Rightarrow>
                let e = call h (Call_Write sid (stream_header bidi session_id)) e;
                    e = register_stream wh h sid session_id (if bidi then 0 else HALF_RECV) r e;
                    e = (if bidi then upd_session h (\<lambda>s. s\<lparr>self_bidi := hm_insert sid wh (self_bidi s)\<rparr>) e else e)
                in (e, as_i32 wh))"

definition stream_write :: "u32 \<Rightarrow> bytes \<Rightarrow> wt_endpoint \<Rightarrow> wt_endpoint \<times> int" where
  "stream_write wh data e =
     (case hm_get (stream_index e) wh of
        None \<Rightarrow> (set_last_error ''E_STREAM_RESET: unknown stream'' e, - 1)
      | Some (h, sid) \<Rightarrow>
        (case hm_get (conns e) h of
           None \<Rightarrow> (set_last_error ''E_SESSION_CLOSED: connection missing'' e, - 1)
         | Some c \<Rightarrow>
           let e = call h (Call_Write sid data) (quinn h (\<lambda>c. c\<lparr>q_writes := tl (q_writes c)\<rparr>) e) in
           (case q_writes c of
              Write_Ok n # _ \<Rightarrow> (e, int n)
            | Write_Failed # _ \<Rightarrow> (set_last_error ''E_STREAM_RESET: stream write failed'' e, - 1)
            | _ \<Rightarrow> (set_last_error ''E_BACKPRESSURE_TIMEOUT: stream write blocked'' e, 0))))"

definition stream_finish :: "u32 \<Rightarrow> wt_endpoint \<Rightarrow> wt_endpoint" where
  "stream_finish wh e =
     (case hm_get (stream_index e) wh of
        None \<Rightarrow> e
      | Some (h, sid) \<Rightarrow> mark_stream_half_done wh HALF_SEND (call h (Call_Finish sid) e))"

definition stream_reset :: "u32 \<Rightarrow> u32 \<Rightarrow> wt_endpoint \<Rightarrow> wt_endpoint" where
  "stream_reset wh code e =
     (case hm_get (stream_index e) wh of
        None \<Rightarrow> e
      | Some (h, sid) \<Rightarrow> mark_stream_half_done wh HALF_SEND (call h (Call_Reset sid (remap_wt_app_error code)) e))"

definition stream_stop :: "u32 \<Rightarrow> u32 \<Rightarrow> wt_endpoint \<Rightarrow> wt_endpoint" where
  "stream_stop wh code e =
     (case hm_get (stream_index e) wh of
        None \<Rightarrow> e
      | Some (h, sid) \<Rightarrow>
          mark_stream_half_done wh HALF_RECV (unpause wh (call h (Call_Stop sid (remap_wt_app_error code)) e)))"

definition stream_pause :: "u32 \<Rightarrow> wt_endpoint \<Rightarrow> wt_endpoint" where
  "stream_pause wh e = e\<lparr>paused := hs_insert wh (paused e)\<rparr>"

definition stream_resume :: "(bytes \<Rightarrow> bytes option) \<Rightarrow> instant \<Rightarrow> u32 \<Rightarrow> wt_endpoint \<Rightarrow> wt_endpoint" where
  "stream_resume huff now wh e =
     (if wh \<notin> set (paused e) then e
      else case hm_get (stream_index e) wh of
        None \<Rightarrow> unpause wh e
      | Some (h, sid) \<Rightarrow> read_streams huff h now (unpause wh e))"

end
