(* ===== verification/Endpoint_Stable.thy ===== *)
theory Endpoint_Stable
  imports Endpoint_Host
begin

text \<open>
  Invariants of the endpoint. The interface \<open>endpoint_stable\<close> lists the elementary changes the
  operations are made of; an invariant that survives these survives parsing, reading, driving, timers
  and the host's operations, which is proved here once. The predicate \<open>own\<close> restricts the connections
  that are touched, so that the same lemmas also show what an operation on one connection leaves alone
  in the others.
\<close>

declare server_connect_loop.simps [simp del] client_connect_loop.simps [simp del]
  parse_extra_connect_capsules.simps [simp del] pending_connect_loop.simps [simp del]
  drain_datagrams_loop.simps [simp del]

named_theorems stable

locale endpoint_stable =
  fixes inv :: "wt_endpoint \<Rightarrow> bool"
    and own :: "conn_handle \<Rightarrow> bool"
  assumes own_id: "inv e \<Longrightarrow> own h \<Longrightarrow> hm_get (handle_to_id e) h = Some conn \<Longrightarrow>
      hm_get (id_to_handle e) conn = Some h' \<Longrightarrow> own h'"
    and set_last_error [stable]: "inv e \<Longrightarrow> inv (set_last_error err e)"
    and try_push [stable]: "inv e \<Longrightarrow> inv (e\<lparr>queue := fst (try_push_event ev (queue e))\<rparr>)"
    and quinn [stable]: "own h \<Longrightarrow> inv e \<Longrightarrow> inv (quinn h f e)"
    and upd_session [stable]: "own h \<Longrightarrow> inv e \<Longrightarrow> inv (upd_session h g e)"
    and limiter [stable]: "inv e \<Longrightarrow> inv (e\<lparr>rate_limiter := rl\<rparr>)"
    and panic [stable]: "inv e \<Longrightarrow> inv (e\<lparr>panicked := True\<rparr>)"
    and transmit [stable]: "inv e \<Longrightarrow> inv (e\<lparr>endpoint_tx := tx\<rparr>)"
    and closed_count [stable]: "inv e \<Longrightarrow> inv (e\<lparr>session_closed_count := n\<rparr>)"
    and pausing [stable]: "inv e \<Longrightarrow> inv (e\<lparr>paused := p\<rparr>)"
    and halves [stable]: "inv e \<Longrightarrow> inv (e\<lparr>half_done := hd'\<rparr>)"
    and tickets [stable]: "inv e \<Longrightarrow> inv (e\<lparr>nst_flush_remaining := nst\<rparr>)"
    and wait [stable]: "inv e \<Longrightarrow> inv (enqueue_capacity_waiter h e)"
    and wake [stable]: "inv e \<Longrightarrow> inv (e\<lparr>capacity_waiters := fst (wait_pop_front (capacity_waiters e))\<rparr>)"
    and drop_handshake [stable]: "inv e \<Longrightarrow> inv (remove_handshake h e)"
    and drop_session [stable]: "inv e \<Longrightarrow> inv (remove_session_reservation h e)"
    and drop_stream [stable]: "inv e \<Longrightarrow> inv (remove_stream_reservation wh e)"
    and drop_index [stable]: "hm_get (stream_reservations e) wh = None \<Longrightarrow> inv e \<Longrightarrow> inv (index_remove wh e)"
    and refused: "inv e \<Longrightarrow> reserve_stream_for conn wh k e = (e', Inl err) \<Longrightarrow> inv e'"
    and unused: "inv e \<Longrightarrow> reserve_stream_for conn wh k e = (e', Inr r) \<Longrightarrow> inv (upd_governor (reservation_drop r) e')"
    and registered: "inv e \<Longrightarrow> own h \<Longrightarrow> hm_get (handle_to_id e) h = Some conn \<Longrightarrow>
      checked_add_word (next_stream e) 1 \<noteq> None \<Longrightarrow>
      reserve_stream_for conn (next_stream e) k e = (e', Inr r) \<Longrightarrow>
      inv (register_stream (next_stream e) h sid session_id missing r e')"
    and cleanup [stable]: "own h \<Longrightarrow> inv e \<Longrightarrow> inv (cleanup_connection h now e)"
begin

section \<open>Elementary operations\<close>

lemma stable_fold: "(\<And>x e. x \<in> set xs \<Longrightarrow> inv e \<Longrightarrow> inv (f x e)) \<Longrightarrow> inv e \<Longrightarrow> inv (fold f xs e)"
  by (induction xs arbitrary: e) auto

lemma stable_push [stable]: "inv e \<Longrightarrow> inv (ep_push_event ev e)"
  using try_push [of e ev] set_last_error [of "e\<lparr>queue := fst (try_push_event ev (queue e))\<rparr>"]
  by (simp add: ep_push_event_def push_event_def set_last_error_def case_prod_beta split: sum.split)

lemma stable_call [stable]: "own h \<Longrightarrow> inv e \<Longrightarrow> inv (call h c e)"
  by (simp add: call_def stable)

lemma stable_unpause [stable]: "inv e \<Longrightarrow> inv (unpause wh e)"
  by (simp add: unpause_def stable)

lemma stable_session_closed [stable]: "inv e \<Longrightarrow> inv (push_session_closed conn sid code reason e)"
  by (simp add: push_session_closed_def stable)

lemma stable_note_blocked [stable]: "own h \<Longrightarrow> inv e \<Longrightarrow> inv (fst (note_qpack_header_blocked h sid e))"
  by (simp add: note_qpack_header_blocked_def Let_def stable split: option.split)

lemma stable_clear_blocked [stable]: "own h \<Longrightarrow> inv e \<Longrightarrow> inv (clear_qpack_header_blocked h sid e)"
  by (simp add: clear_qpack_header_blocked_def stable)

section \<open>Streams\<close>

lemma reservation_gone [simp]: "hm_get (stream_reservations (remove_stream_reservation wh e)) wh = None"
  by (simp add: remove_stream_reservation_def upd_governor_def)

lemma stable_half_done [stable]: "inv e \<Longrightarrow> inv (mark_stream_half_done wh half e)"
proof -
  assume e: "inv e"
  have swap: "remove_stream_reservation wh (unpause wh (index_remove wh e'))
      = unpause wh (index_remove wh (remove_stream_reservation wh e'))" for e'
    by (simp add: remove_stream_reservation_def unpause_def index_remove_def upd_governor_def Let_def
        split: option.split)
  from e show ?thesis
    by (simp add: mark_stream_half_done_def Let_def swap stable)
qed

lemma stable_retire [stable]: "own h \<Longrightarrow> inv e \<Longrightarrow> inv (retire_in_stream h sid e)"
  by (simp add: retire_in_stream_def Let_def stable split: option.split)

lemma stable_emit_reset [stable]: "inv e \<Longrightarrow> inv (emit_stream_reset h sid code e)"
  by (simp add: emit_stream_reset_def stable split: option.split)

lemma stable_stopped [stable]: "inv e \<Longrightarrow> inv (on_stream_stopped h sid code e)"
  by (simp add: on_stream_stopped_def stable split: option.split)

lemma stable_abort [stable]: "own h \<Longrightarrow> inv e \<Longrightarrow> inv (abort_stream h sid e)"
  by (simp add: abort_stream_def Let_def stable split: option.split)

lemma stable_reset_stream [stable]: "own h \<Longrightarrow> inv e \<Longrightarrow> inv (reset_session_stream h conn x e)"
  by (cases x) (simp add: reset_session_stream_def Let_def stable)

lemma stable_reset_streams [stable]: "own h \<Longrightarrow> inv e \<Longrightarrow> inv (reset_session_streams h conn sid e)"
  by (simp add: reset_session_streams_def stable_fold stable)

lemma stable_end_session [stable]: "own h \<Longrightarrow> inv e \<Longrightarrow> inv (end_wt_session h sid code reason e)"
  by (simp add: end_wt_session_def Let_def stable split: option.split)

section \<open>Connections\<close>

lemma stable_release_stream_of [stable]: "inv e \<Longrightarrow> inv (release_stream_of h x e)"
  by (cases x) (simp add: release_stream_of_def stable)

lemma stable_release_budget [stable]: "inv e \<Longrightarrow> inv (release_connection_budget h e)"
  by (simp add: release_connection_budget_def Let_def stable_fold stable)

lemma stable_protocol_error [stable]: "own h \<Longrightarrow> inv e \<Longrightarrow> inv (close_conn_protocol_error h code reason e)"
  by (simp add: close_conn_protocol_error_def Let_def stable split: option.split)

lemma stable_fail_session [stable]: "own h \<Longrightarrow> inv e \<Longrightarrow> inv (fail_session_before_establish h e)"
  by (simp add: fail_session_before_establish_def Let_def stable split: option.split)

lemma stable_flush [stable]: "own h \<Longrightarrow> inv e \<Longrightarrow> inv (flush_conn_transmits h e)"
  by (simp add: flush_conn_transmits_def stable split: option.split)

lemma stable_close_conn:
  "inv e \<Longrightarrow> (\<And>h. hm_get (id_to_handle e) conn = Some h \<Longrightarrow> own h) \<Longrightarrow> inv (close_conn conn code reason now e)"
  by (simp add: close_conn_def Let_def stable split: option.split)

section \<open>Requests and capsules\<close>

lemma stable_capsule [stable]: "own h \<Longrightarrow> inv e \<Longrightarrow> inv (capsule_effect h sid act e)"
  by (cases act) (simp_all add: Let_def stable split: option.split)

lemma stable_feed [stable]: "own h \<Longrightarrow> inv e \<Longrightarrow> inv (ep_feed_session_capsules h sid payload e)"
  by (simp add: ep_feed_session_capsules_def case_prod_beta stable_fold stable split: option.split)

lemma stable_with_qpack [stable]: "own h \<Longrightarrow> inv e \<Longrightarrow> inv (fst (with_qpack h f d e))"
  by (simp add: with_qpack_def case_prod_beta stable split: option.split)

lemma stable_write_headers [stable]: "own h \<Longrightarrow> inv e \<Longrightarrow> inv (write_encoded_headers h sid enc e)"
  by (simp add: write_encoded_headers_def Let_def stable split: option.split)

lemma stable_section_ack [stable]: "own h \<Longrightarrow> inv e \<Longrightarrow> inv (emit_qpack_section_ack h sid ric e)"
  by (simp add: emit_qpack_section_ack_def stable split: option.split)

lemma stable_respond [stable]: "own h \<Longrightarrow> inv e \<Longrightarrow> inv (respond h sid status e)"
  by (simp add: respond_def case_prod_beta stable)

lemma stable_drains [stable]:
  "own h \<Longrightarrow> inv e \<Longrightarrow> inv (drain_in_buf h sid n e)"
  "own h \<Longrightarrow> inv e \<Longrightarrow> inv (drain_connect_rx h n e)"
  "own h \<Longrightarrow> inv e \<Longrightarrow> inv (drain_pending_rx h sid n e)"
  by (simp_all add: drain_in_buf_def drain_connect_rx_def drain_pending_rx_def stable)

lemma stable_accept_connect [stable]: "own h \<Longrightarrow> inv e \<Longrightarrow> inv (accept_connect h conn sid e)"
  by (simp add: accept_connect_def case_prod_beta Let_def stable)

lemma stable_server_request [stable]: "own h \<Longrightarrow> inv e \<Longrightarrow> inv (server_request h conn sid headers e)"
  by (simp add: server_request_def Let_def stable)

lemma stable_server_data [stable]:
  "own h \<Longrightarrow> inv e \<Longrightarrow> inv (server_connect_data h sid header tot ftype st e)"
  by (simp add: server_connect_data_def Let_def stable)

lemma stable_server_headers [stable]:
  "own h \<Longrightarrow> inv e \<Longrightarrow> inv (fst (server_connect_headers huff h conn sid header tot st e))"
  by (simp add: server_connect_headers_def Let_def case_prod_beta stable
      split: option.split sum.split qpack_error.split)

text \<open>The parsing loops, by induction along their rounds.\<close>

lemma stable_server_loop [stable]: "own h \<Longrightarrow> inv e \<Longrightarrow> inv (server_connect_loop huff h conn sid e)"
proof (induction huff h conn sid e rule: server_connect_loop.induct)
  case (1 huff h conn sid e)
  note p = "1.prems"
  show ?case
  proof (cases "in_stream_of h sid e")
    case None
    then show ?thesis
      by (subst server_connect_loop.simps) (simp add: p)
  next
    case st: (Some st)
    show ?thesis
    proof (cases "decode_frame_header (is_buf st)")
      case hdr: (Hdr_Ready header tot ftype)
      obtain e' b where r: "server_connect_headers huff h conn sid header tot st e = (e', b)"
        by fastforce
      have "inv e'"
        using stable_server_headers [OF p, of huff conn sid header tot st] r by simp
      then show ?thesis
        using "1.IH"(1) [OF st hdr _ p(1) stable_server_data [OF p]] "1.IH"(2) [OF st hdr _ r [symmetric] _ p(1)]
        by (subst server_connect_loop.simps) (cases b, simp_all add: st hdr r)
    qed (subst server_connect_loop.simps, simp add: st p stable)+
  qed
qed

lemma stable_parse_server [stable]: "own h \<Longrightarrow> inv e \<Longrightarrow> inv (parse_server_connect huff h sid e)"
  by (simp add: parse_server_connect_def stable split: option.split)

lemma stable_client_data [stable]:
  "own h \<Longrightarrow> inv e \<Longrightarrow> inv (client_connect_data h header tot ftype s e)"
  by (simp add: client_connect_data_def Let_def stable split: option.split)

lemma stable_client_status [stable]:
  "own h \<Longrightarrow> inv e \<Longrightarrow> inv (fst (client_connect_status h conn est headers e))"
  by (simp add: client_connect_status_def Let_def stable split: connect_status_kind.split)

lemma stable_client_headers [stable]:
  "own h \<Longrightarrow> inv e \<Longrightarrow> inv (fst (client_connect_headers huff h conn header tot s e))"
  by (simp add: client_connect_headers_def Let_def case_prod_beta stable
      split: option.split sum.split qpack_error.split)

lemma stable_client_loop [stable]: "own h \<Longrightarrow> inv e \<Longrightarrow> inv (client_connect_loop huff h conn e)"
proof (induction huff h conn e rule: client_connect_loop.induct)
  case (1 huff h conn e)
  note p = "1.prems"
  show ?case
  proof (cases "hm_get (sessions e) h")
    case None
    then show ?thesis
      by (subst client_connect_loop.simps) (simp add: p)
  next
    case s: (Some s)
    show ?thesis
    proof (cases "decode_frame_header (connect_rx s)")
      case hdr: (Hdr_Ready header tot ftype)
      obtain e' b where r: "client_connect_headers huff h conn header tot s e = (e', b)"
        by fastforce
      have "inv e'"
        using stable_client_headers [OF p, of huff conn header tot s] r by simp
      then show ?thesis
        using "1.IH"(1) [OF s hdr _ p(1) stable_client_data [OF p]] "1.IH"(2) [OF s hdr _ r [symmetric] _ p(1)]
        by (subst client_connect_loop.simps) (cases b, simp_all add: s hdr r)
    qed (subst client_connect_loop.simps, simp add: s p stable)+
  qed
qed

lemma stable_parse_client [stable]: "own h \<Longrightarrow> inv e \<Longrightarrow> inv (parse_client_connect huff h e)"
  by (simp add: parse_client_connect_def stable split: option.split)

lemma stable_extra_frame [stable]:
  "own h \<Longrightarrow> inv e \<Longrightarrow> inv (extra_connect_frame h sid header tot ftype buf e)"
  by (simp add: extra_connect_frame_def Let_def stable)

lemma stable_parse_extra [stable]: "own h \<Longrightarrow> inv e \<Longrightarrow> inv (parse_extra_connect_capsules h sid e)"
proof (induction h sid e rule: parse_extra_connect_capsules.induct)
  case (1 h sid e)
  note p = "1.prems"
  show ?case
  proof (cases "Option.bind (hm_get (sessions e) h) (\<lambda>s. hm_get (extra_rx s) sid)")
    case None
    then show ?thesis
      by (subst parse_extra_connect_capsules.simps) (simp add: p)
  next
    case b: (Some buf)
    show ?thesis
    proof (cases "decode_frame_header buf")
      case hdr: (Hdr_Ready header tot ftype)
      show ?thesis
        using "1.IH" [OF b hdr p(1) stable_extra_frame [OF p]]
        by (subst parse_extra_connect_capsules.simps) (simp add: b hdr)
    qed (subst parse_extra_connect_capsules.simps, simp add: b p stable)+
  qed
qed

lemma stable_pending_status [stable]:
  "own h \<Longrightarrow> inv e \<Longrightarrow> inv (fst (pending_connect_status h conn sid headers e))"
  by (simp add: pending_connect_status_def Let_def stable split: connect_status_kind.split)

lemma stable_pending_headers [stable]:
  "own h \<Longrightarrow> inv e \<Longrightarrow> inv (fst (pending_connect_headers huff h conn sid header tot rx e))"
  by (simp add: pending_connect_headers_def Let_def case_prod_beta stable
      split: option.split sum.split qpack_error.split)

lemma stable_pending_loop [stable]: "own h \<Longrightarrow> inv e \<Longrightarrow> inv (pending_connect_loop huff h conn sid e)"
proof (induction huff h conn sid e rule: pending_connect_loop.induct)
  case (1 huff h conn sid e)
  note p = "1.prems"
  show ?case
  proof (cases "pending_rx h sid e")
    case None
    then show ?thesis
      by (subst pending_connect_loop.simps) (simp add: p)
  next
    case rx: (Some rx)
    show ?thesis
    proof (cases "decode_frame_header rx")
      case hdr: (Hdr_Ready header tot ftype)
      obtain e' b where r: "pending_connect_headers huff h conn sid header tot rx e = (e', b)"
        by fastforce
      have "inv e'"
        using stable_pending_headers [OF p, of huff conn sid header tot rx] r by simp
      then show ?thesis
        using "1.IH"(1) [OF rx hdr _ p(1) stable_drains(3) [OF p]] "1.IH"(2) [OF rx hdr _ r [symmetric] _ p(1)]
        by (subst pending_connect_loop.simps) (cases b, simp_all add: rx hdr r)
    qed (subst pending_connect_loop.simps, simp add: rx p stable)+
  qed
qed

lemma stable_parse_pending [stable]: "own h \<Longrightarrow> inv e \<Longrightarrow> inv (parse_pending_client_connect huff h sid e)"
  by (simp add: parse_pending_client_connect_def stable split: option.split)

lemma stable_parse_control [stable]: "own h \<Longrightarrow> inv e \<Longrightarrow> inv (ep_parse_control h e)"
  by (simp add: ep_parse_control_def Let_def case_prod_beta stable split: option.split)

lemma stable_qpack_effect [stable]: "own h \<Longrightarrow> inv e \<Longrightarrow> inv (qpack_effect h reason act e)"
  by (cases "(h, reason, act, e)" rule: qpack_effect.cases) (simp_all add: stable)

lemma stable_parse_qpack [stable]:
  "own h \<Longrightarrow> inv e \<Longrightarrow> inv (ep_parse_qpack_encoder huff h e)"
  "own h \<Longrightarrow> inv e \<Longrightarrow> inv (ep_parse_qpack_decoder h e)"
  by (simp_all add: ep_parse_qpack_encoder_def ep_parse_qpack_decoder_def Let_def case_prod_beta stable
      split: option.split)

lemma stable_retry_blocked [stable]: "own h \<Longrightarrow> inv e \<Longrightarrow> inv (retry_blocked_connects huff h e)"
  by (simp add: retry_blocked_connects_def Let_def stable_fold stable split: option.split)

section \<open>Reading\<close>

lemma stable_rate_check [stable]: "inv e \<Longrightarrow> inv (fst (rate_check now conn d e))"
  by (simp add: rate_check_def case_prod_beta stable split: sum.split check_error.split)

lemma stable_put [stable]: "own h \<Longrightarrow> inv e \<Longrightarrow> inv (put_in_stream h sid st e)"
  by (simp add: put_in_stream_def stable)

lemma rate_check_frame:
  "handle_to_id (fst (rate_check now conn d e)) = handle_to_id e"
  "id_to_handle (fst (rate_check now conn d e)) = id_to_handle e"
  "next_stream (fst (rate_check now conn d e)) = next_stream e"
  by (simp_all add: rate_check_def case_prod_beta split: sum.split check_error.split)

lemma rate_checked:
  assumes "(if srv then rate_check now conn d e else (e, None)) = (e1, er)" and "inv e"
  shows "inv e1" and "handle_to_id e1 = handle_to_id e" and "id_to_handle e1 = id_to_handle e"
    and "next_stream e1 = next_stream e"
proof -
  have "e1 = (if srv then fst (rate_check now conn d e) else e)"
    using assms(1) by (auto split: if_splits)
  then show "inv e1" and "handle_to_id e1 = handle_to_id e" and "id_to_handle e1 = id_to_handle e"
    and "next_stream e1 = next_stream e"
    using assms(2) by (simp_all add: rate_check_frame stable)
qed

lemma stable_open_in_stream [stable]: "own h \<Longrightarrow> inv e \<Longrightarrow> inv (fst (open_in_stream h sid now st e))"
proof -
  assume p: "own h" "inv e"
  show ?thesis
  proof (cases "hm_get (handle_to_id e) h")
    case None
    with p show ?thesis
      by (simp add: open_in_stream_def Let_def)
  next
    case conn: (Some conn)
    obtain e1 er where x: "(if is_server e then rate_check now conn StreamOpen e else (e, None)) = (e1, er)"
      by fastforce
    note e1 = rate_checked [OF x p(2)]
    obtain e2 r where y: "reserve_stream_for conn (next_stream e) (stream_kind_of (is_bidi st)) e1 = (e2, r)"
      by fastforce
    show ?thesis
      using p x y conn e1 refused [OF e1(1)] registered [OF e1(1) p(1)]
      by (cases er; cases r) (auto simp: open_in_stream_def Let_def)
  qed
qed

lemma stable_route_wt [stable]: "own h \<Longrightarrow> inv e \<Longrightarrow> inv (fst (route_wt h sid known finished now st e))"
  by (auto simp: route_wt_def Let_def case_prod_beta stable split: option.split sum.split)

lemma stable_route [stable]: "own h \<Longrightarrow> inv e \<Longrightarrow> inv (fst (route_in_stream h sid data finished now s st e))"
  by (simp add: route_in_stream_def Let_def case_prod_beta stable split: option.split peer_stream_class.split)

lemma stable_take_route [stable]: "own h \<Longrightarrow> inv e \<Longrightarrow> inv (take_route huff h sid finished r e)"
  by (cases r) (simp_all add: Let_def case_prod_beta stable split: option.split)

lemma stable_process [stable]: "own h \<Longrightarrow> inv e \<Longrightarrow> inv (process_in_stream huff h sid data finished now e)"
  by (simp add: process_in_stream_def case_prod_beta stable split: option.split)

lemma stable_conn_read [stable]: "own h \<Longrightarrow> inv e \<Longrightarrow> inv (fst (conn_read h sid n e))"
  by (simp add: conn_read_def case_prod_beta stable split: option.split)

lemma stable_protocol_batches:
  "own h \<Longrightarrow> inv e \<Longrightarrow> (\<And>d e. inv e \<Longrightarrow> inv (feed d e)) \<Longrightarrow> inv (fst (protocol_batches n h sid feed e))"
  by (induction n arbitrary: e) (simp_all add: Let_def case_prod_beta stable)

lemma stable_in_batches [stable]: "own h \<Longrightarrow> inv e \<Longrightarrow> inv (fst (in_stream_batches n huff h sid slots now e))"
  by (induction n arbitrary: e) (simp_all add: Let_def case_prod_beta stable)

lemma stable_bidi_batches [stable]: "own h \<Longrightarrow> inv e \<Longrightarrow> inv (fst (self_bidi_batches n h sid wh conn e))"
  by (induction n arbitrary: e) (simp_all add: Let_def case_prod_beta stable)

lemma stable_bidi_outcome [stable]: "own h \<Longrightarrow> inv e \<Longrightarrow> inv (on_self_bidi_read_outcome h sid wh conn oc e)"
  by (cases oc) (simp_all add: forget_self_bidi_def stable)

lemma stable_connect_ended [stable]: "own h \<Longrightarrow> inv e \<Longrightarrow> inv (on_connect_stream_ended h sid primary e)"
  by (simp add: on_connect_stream_ended_def Let_def stable)

lemma stable_read_connect [stable]:
  "own h \<Longrightarrow> inv e \<Longrightarrow> inv (read_primary_connect huff h sid e)"
  "own h \<Longrightarrow> inv e \<Longrightarrow> inv (read_pending_connect huff h sid e)"
  "own h \<Longrightarrow> inv e \<Longrightarrow> inv (read_extra_connect h sid e)"
  by (simp_all add: read_primary_connect_def read_pending_connect_def read_extra_connect_def Let_def
      case_prod_beta stable_protocol_batches stable split: option.split)

lemma stable_read_in [stable]: "own h \<Longrightarrow> inv e \<Longrightarrow> inv (read_in_stream huff h sid now s e)"
  by (simp add: read_in_stream_def Let_def case_prod_beta stable split: option.split read_outcome.split)

lemma stable_read_bidi [stable]: "own h \<Longrightarrow> inv e \<Longrightarrow> inv (read_self_bidi h sid wh e)"
  by (simp add: read_self_bidi_def case_prod_beta stable split: option.split)

lemma stable_read_one [stable]: "own h \<Longrightarrow> inv e \<Longrightarrow> inv (read_one huff h sid now e)"
  by (simp add: read_one_def stable split: option.split)

lemma stable_read_streams [stable]: "own h \<Longrightarrow> inv e \<Longrightarrow> inv (read_streams huff h now e)"
  by (simp add: read_streams_def stable_fold stable split: option.split)

section \<open>Datagrams and capacity\<close>

lemma stable_deliver:
  "inv e \<Longrightarrow> own h \<Longrightarrow> hm_get (handle_to_id e) h = Some conn \<Longrightarrow> inv (fst (deliver_datagram conn sid payload now e))"
proof -
  assume p: "inv e" "own h" "hm_get (handle_to_id e) h = Some conn"
  obtain e1 er where x: "(if is_server e then rate_check now conn DatagramIngress e else (e, None)) = (e1, er)"
    by fastforce
  note e1 = rate_checked [OF x p(1)]
  have o: "own h'" if "hm_get (id_to_handle e) conn = Some h'" for h'
    using own_id [OF p that] .
  have c: "inv (close_conn conn code reason now e')" if "inv e'" "id_to_handle e' = id_to_handle e" for code reason e'
    using stable_close_conn [OF that(1), of conn] that(2) o by simp
  obtain q r where y: "try_push_event (Datagram conn sid payload) (queue e1) = (q, r)"
    by fastforce
  have q: "inv (e1\<lparr>queue := q\<rparr>)"
    using try_push [OF e1(1), of "Datagram conn sid payload"] y by simp
  have f: "id_to_handle (set_last_error s e') = id_to_handle e'" for s e'
    by (simp add: set_last_error_def)
  show ?thesis
    using x y e1 q by (cases er; cases r) (simp_all add: deliver_datagram_def c f stable)
qed

lemma deliver_goes_on:
  "deliver_datagram conn sid payload now e = (e', True) \<Longrightarrow> handle_to_id e' = handle_to_id e"
  using rate_check_frame(1) [of now conn DatagramIngress e]
  by (auto simp: deliver_datagram_def split: prod.splits option.splits sum.splits if_splits)

lemma stable_drain_loop:
  "inv e \<Longrightarrow> own h \<Longrightarrow> hm_get (handle_to_id e) h = Some conn \<Longrightarrow> inv (drain_datagrams_loop dgs h conn now e)"
proof (induction dgs arbitrary: e)
  case Nil
  then show ?case
    by (subst drain_datagrams_loop.simps) (simp add: stable)
next
  case (Cons dg dgs)
  let ?e = "quinn h (\<lambda>c. c\<lparr>q_datagrams := dgs\<rparr>) e"
  have e: "inv ?e"
    using Cons.prems by (simp add: stable)
  have id: "hm_get (handle_to_id ?e) h = Some conn"
    using Cons.prems by (simp add: quinn_def)
  show ?case
  proof (cases "Option.bind (hm_get (sessions ?e) h) (\<lambda>s. datagram_payload_for_session s dg)")
    case None
    then show ?thesis
      using Cons.prems Cons.IH [OF e _ id] by (subst drain_datagrams_loop.simps) (simp add: Let_def stable)
  next
    case (Some x)
    obtain sid payload where x: "x = (sid, payload)"
      by fastforce
    obtain e' b where d: "deliver_datagram conn sid payload now ?e = (e', b)"
      by fastforce
    have e': "inv e'"
      using stable_deliver [OF e Cons.prems(2) id, of sid payload now] d by simp
    have "inv (drain_datagrams_loop dgs h conn now e')" if b
      using Cons.IH [OF e' Cons.prems(2)] deliver_goes_on [of conn sid payload now ?e e'] d that id by simp
    then show ?thesis
      using Some x d e' Cons.prems by (subst drain_datagrams_loop.simps) (cases b; simp add: Let_def stable)
  qed
qed

lemma stable_drain_datagrams [stable]: "own h \<Longrightarrow> inv e \<Longrightarrow> inv (drain_datagrams h now e)"
  by (simp add: drain_datagrams_def stable_drain_loop split: option.split)

text \<open>Waking waiters touches any connection.\<close>

lemma stable_resume_loop:
  assumes all: "\<And>h. own h"
  shows "inv e \<Longrightarrow> inv (resume_loop n huff now e)"
proof (induction n arbitrary: e)
  case (Suc n)
  obtain w r where w: "wait_pop_front (capacity_waiters e) = (w, r)"
    by fastforce
  then have "inv (e\<lparr>capacity_waiters := w\<rparr>)"
    using wake [OF Suc.prems] by simp
  then show ?case
    using Suc w by (cases r) (simp_all add: Let_def all stable split: option.split)
qed simp

lemma stable_wakes: "(\<And>h. own h) \<Longrightarrow> inv e \<Longrightarrow> inv (resume_waiting_after_capacity_change huff now e)"
  by (simp add: resume_waiting_after_capacity_change_def stable_resume_loop)

section \<open>Driving one connection\<close>

lemma stable_quinn_open [stable]: "own h \<Longrightarrow> inv e \<Longrightarrow> inv (fst (quinn_open h d e))"
  by (simp add: quinn_open_def stable split: option.split list.split)

lemma stable_open_protocol [stable]: "own h \<Longrightarrow> inv e \<Longrightarrow> inv (open_protocol_stream h preamble f e)"
  by (simp add: open_protocol_stream_def case_prod_beta stable split: option.split)

lemma stable_send_request [stable]: "own h \<Longrightarrow> inv e \<Longrightarrow> inv (send_connect_request h sid auth e)"
  by (simp add: send_connect_request_def case_prod_beta stable)

lemma stable_on_connected [stable]: "own h \<Longrightarrow> inv e \<Longrightarrow> inv (on_connected h e)"
  by (simp add: on_connected_def Let_def case_prod_beta stable split: option.split)

lemma stable_accept_streams [stable]: "own h \<Longrightarrow> inv e \<Longrightarrow> inv (accept_streams h d e)"
  by (simp add: accept_streams_def stable_fold stable split: option.split)

lemma stable_lost [stable]: "own h \<Longrightarrow> inv e \<Longrightarrow> inv (on_connection_lost huff h reason now e)"
  by (simp add: on_connection_lost_def Let_def case_prod_beta stable_fold stable split: option.split)

lemma stable_drive_loop [stable]: "own h \<Longrightarrow> inv e \<Longrightarrow> inv (fst (drive_loop huff h now evs e))"
proof (induction evs arbitrary: e)
  case (Cons ev evs)
  then show ?case
    by (cases ev) (simp_all add: Let_def stable split: option.split)
qed simp

lemma stable_drive [stable]: "own h \<Longrightarrow> inv e \<Longrightarrow> inv (drive huff h now e)"
  by (simp add: drive_def case_prod_beta stable split: option.split bool.split)

end

text \<open>
  An invariant of the whole endpoint also survives what touches every connection: new connections,
  polling, waking waiters and configuration. A handle quinn gives to a new connection is not in use.
\<close>

definition fresh_handles :: "(bytes \<Rightarrow> (conn_handle \<times> quinn_conn) option) \<Rightarrow> wt_endpoint \<Rightarrow> bool" where
  "fresh_handles answer e \<longleftrightarrow> (\<forall>name h c. answer name = Some (h, c) \<longrightarrow> hm_get (handle_to_id e) h = None)"

definition fresh_packet :: "packet_answer \<Rightarrow> wt_endpoint \<Rightarrow> bool" where
  "fresh_packet ans e \<longleftrightarrow>
     (\<forall>refusal h c buf dest. ans = Packet_New refusal (Some (h, c)) buf dest \<longrightarrow> hm_get (handle_to_id e) h = None)"

text \<open>
  One call from outside: by the host, by the network or by a timer. \<open>Answers\<close> is quinn coming to
  other answers between two calls.
\<close>

inductive ep_step :: "(bytes \<Rightarrow> bytes option) \<Rightarrow> wt_endpoint \<Rightarrow> wt_endpoint \<Rightarrow> bool" for huff where
  Connect: "fresh_handles answer e \<Longrightarrow> ep_step huff e (fst (connect auth answer now e))"
| Recv: "fresh_packet ans e \<Longrightarrow> ep_step huff e (recv huff now src ans e)"
| Timeout: "ep_step huff e (handle_timeout fired huff now e)"
| Answers: "ep_step huff e (quinn h f e)"
| Poll: "ep_step huff e (fst (ep_poll_event huff now e))"
| Poll_Encoded: "ep_step huff e (fst (ep_poll_event_encoded n huff now e))"
| Release: "ep_step huff e (fst (ep_release_host_token huff now t e))"
| Transmits: "ep_step huff e (fst (poll_transmits huff now e))"
| Open_Stream: "ep_step huff e (fst (open_stream conn sid bidi e))"
| Write: "ep_step huff e (fst (stream_write wh data e))"
| Finish: "ep_step huff e (stream_finish wh e)"
| Reset: "ep_step huff e (stream_reset wh code e)"
| Stop: "ep_step huff e (stream_stop wh code e)"
| Pause: "ep_step huff e (stream_pause wh e)"
| Resume: "ep_step huff e (stream_resume huff now wh e)"
| Send: "ep_step huff e (fst (send_datagram conn sid payload e))"
| Open_Session: "ep_step huff e (fst (open_wt_session conn now e))"
| Close_Session: "ep_step huff e (fst (close_wt_session conn sid code reason e))"
| Drain_Session: "ep_step huff e (fst (drain_wt_session conn sid e))"
| Close_Conn: "ep_step huff e (close_conn conn code reason now e)"
| Close_All: "ep_step huff e (close_all code reason now e)"
| Max_Sessions: "ep_step huff e (set_wt_max_sessions n e)"
| Qpack: "ep_step huff e (set_qpack_settings settings e)"
| Last_Error: "ep_step huff e (fst (take_last_error e))"

inductive ep_reachable :: "(bytes \<Rightarrow> bytes option) \<Rightarrow> wasm_limits \<Rightarrow> wt_endpoint \<Rightarrow> bool" for huff l where
  Build: "build srv l rl zero_rtt crypto = Inr e \<Longrightarrow> ep_reachable huff l e"
| Step: "ep_reachable huff l e \<Longrightarrow> ep_step huff e e' \<Longrightarrow> ep_reachable huff l e'"

locale endpoint_invariant = endpoint_stable inv "\<lambda>_. True" for inv +
  assumes poll [stable]: "inv e \<Longrightarrow> inv (e\<lparr>queue := fst (poll_event (queue e))\<rparr>)"
    and poll_encoded [stable]: "inv e \<Longrightarrow> inv (e\<lparr>queue := fst (poll_event_encoded (queue e))\<rparr>)"
    and release [stable]: "inv e \<Longrightarrow> inv (e\<lparr>queue := fst (queue_release_host_token t (queue e))\<rparr>)"
    and configure [stable]: "inv e \<Longrightarrow> inv (e\<lparr>wt_max_sessions := n\<rparr>)" "inv e \<Longrightarrow> inv (e\<lparr>qpack_settings := qs\<rparr>)"
    and ids: "inv e \<Longrightarrow> hm_get (id_to_handle e) conn = Some h \<Longrightarrow> hm_get (handle_to_id e) h = Some conn"
    and take_error: "inv e \<Longrightarrow> inv (fst (take_last_error e))"
    and transmits [stable]: "inv e \<Longrightarrow> inv (fst (drain_all_transmits e))"
    and connecting: "inv e \<Longrightarrow> fresh_handles answer e \<Longrightarrow> inv (fst (connect auth answer now e))"
    and admitting: "inv e \<Longrightarrow> admit_new_connection now src e = (e1, Inl err) \<Longrightarrow> inv e1"
    and accepting: "inv e \<Longrightarrow> admit_new_connection now src e = (e1, Inr pair) \<Longrightarrow> hm_get (handle_to_id e) h = None \<Longrightarrow>
      inv (fst (accept_connection now from h c pair e1))"
    and dropping: "inv e \<Longrightarrow> admit_new_connection now src e = (e1, Inr pair) \<Longrightarrow> inv (drop_pair pair e1)"
begin

lemma stable_close [stable]: "inv e \<Longrightarrow> inv (close_conn conn code reason now e)"
  by (rule stable_close_conn) simp_all

lemma stable_resume [stable]: "inv e \<Longrightarrow> inv (resume_waiting_after_capacity_change huff now e)"
  by (simp add: stable_wakes)

lemma stable_drive_all [stable]: "inv e \<Longrightarrow> inv (drive_all huff now e)"
  by (simp add: drive_all_def stable_fold stable)

section \<open>Packets and timers\<close>

lemma drop_pair_transmit: "drop_pair pair (e\<lparr>endpoint_tx := tx\<rparr>) = (drop_pair pair e)\<lparr>endpoint_tx := tx\<rparr>"
  by (simp add: drop_pair_def upd_governor_def case_prod_beta)

lemma stable_packet_new:
  assumes "inv e" and "fresh_packet (Packet_New refusal accepted buf dest) e"
  shows "inv (recv huff now src (Packet_New refusal accepted buf dest) e)"
proof -
  obtain e1 r where a: "admit_new_connection now (if is_server e then Some src else None) e = (e1, r)"
    by fastforce
  show ?thesis
  proof (cases r)
    case (Inl err)
    with a admitting [OF assms(1)] show ?thesis
      by (simp add: recv_def stable)
  next
    case (Inr pair)
    show ?thesis
    proof (cases accepted)
      case None
      with a Inr dropping [OF assms(1)] show ?thesis
        by (simp add: recv_def drop_pair_transmit stable)
    next
      case (Some x)
      obtain h c where x: "x = (h, c)"
        by fastforce
      have "inv (fst (accept_connection now src h c pair e1))"
        using accepting [OF assms(1)] a Inr assms(2) Some x by (simp add: fresh_packet_def)
      with a Inr Some x show ?thesis
        by (simp add: recv_def case_prod_beta stable split: bool.split)
    qed
  qed
qed

lemma stable_recv: "inv e \<Longrightarrow> fresh_packet ans e \<Longrightarrow> inv (recv huff now src ans e)"
  by (cases ans) (simp_all add: stable_packet_new, simp_all add: recv_def stable)

lemma stable_fire [stable]: "inv e \<Longrightarrow> inv (fire_timers fired now e)"
  unfolding fire_timers_def by (rule stable_fold) (simp_all add: stable split: option.split)

lemma stable_expire [stable]: "inv e \<Longrightarrow> inv (expire_pending x e)"
  by (simp add: expire_pending_def case_prod_beta Let_def stable split: option.split)

lemma stable_timeout: "inv e \<Longrightarrow> inv (handle_timeout fired huff now e)"
  by (simp add: handle_timeout_def Let_def stable_fold stable)

section \<open>Polling and the operations of the host\<close>

lemma stable_poll: "inv e \<Longrightarrow> inv (fst (ep_poll_event huff now e))"
  using poll [of e] by (simp add: ep_poll_event_def case_prod_beta stable split: option.split)

lemma stable_release: "inv e \<Longrightarrow> inv (fst (ep_release_host_token huff now t e))"
  using release [of e t] by (simp add: ep_release_host_token_def case_prod_beta stable split: bool.split)

lemma stable_poll_round [stable]: "inv e \<Longrightarrow> inv (fst (poll_encoded_round huff now e))"
  using poll_encoded [of e]
  by (simp add: poll_encoded_round_def case_prod_beta Let_def stable split: poll_outcome.split)

lemma stable_poll_encoded: "inv e \<Longrightarrow> inv (fst (ep_poll_event_encoded n huff now e))"
  by (induction n arbitrary: e) (simp_all add: case_prod_beta stable split: round.split)

lemma stable_flush_tickets [stable]: "inv e \<Longrightarrow> inv (flush_tickets huff now h e)"
  by (simp add: flush_tickets_def Let_def stable split: option.split)

lemma stable_transmits: "inv e \<Longrightarrow> inv (fst (poll_transmits huff now e))"
  by (simp add: poll_transmits_def stable_fold stable)

lemma stable_close_all: "inv e \<Longrightarrow> inv (close_all code reason now e)"
  by (simp add: close_all_def Let_def stable_fold stable)

lemma stable_send_datagram: "inv e \<Longrightarrow> inv (fst (send_datagram conn sid payload e))"
  by (simp add: send_datagram_def send_datagram_framed_def Let_def stable
      split: option.split list.split datagram_answer.split)

lemma stable_session_ops:
  "inv e \<Longrightarrow> inv (fst (open_wt_session conn now e))"
  "inv e \<Longrightarrow> inv (fst (close_wt_session conn sid code reason e))"
  "inv e \<Longrightarrow> inv (fst (drain_wt_session conn sid e))"
  by (simp_all add: open_wt_session_def close_wt_session_def drain_wt_session_def Let_def case_prod_beta stable
      split: option.split)

lemma stable_stream_ops:
  "inv e \<Longrightarrow> inv (fst (stream_write wh data e))"
  "inv e \<Longrightarrow> inv (stream_finish wh e)"
  "inv e \<Longrightarrow> inv (stream_reset wh code e)"
  "inv e \<Longrightarrow> inv (stream_stop wh code e)"
  "inv e \<Longrightarrow> inv (stream_pause wh e)"
  "inv e \<Longrightarrow> inv (stream_resume huff now wh e)"
  by (simp_all add: stream_write_def stream_finish_def stream_reset_def stream_stop_def stream_pause_def
      stream_resume_def Let_def case_prod_beta stable split: option.split list.split write_answer.split)

lemma register_commutes:
  "register_stream wh h sid session_id missing r (quinn h' f e) = quinn h' f (register_stream wh h sid session_id missing r e)"
  by (simp add: register_stream_def index_insert_def insert_stream_reservation_def upd_governor_def quinn_def Let_def)

lemma drop_commutes: "upd_governor f (set_last_error err e) = set_last_error err (upd_governor f e)"
  by (simp add: upd_governor_def set_last_error_def)

lemma quinn_open_cases:
  obtains (none) "quinn_open h d e = (e, None)" | (some) f sid where "quinn_open h d e = (quinn h f e, Some sid)"
  by (cases "hm_get (conns e) h"; cases "q_open (the (hm_get (conns e) h)) d") (auto simp: quinn_open_def)

lemma stable_open_stream:
  assumes e: "inv e"
  shows "inv (fst (open_stream conn sid bidi e))"
proof (cases "hm_get (id_to_handle e) conn")
  case None
  with e show ?thesis
    by (simp add: open_stream_def stable)
next
  case h: (Some h)
  obtain e1 r where x: "reserve_stream_for conn (next_stream e) (stream_kind_of bidi) e = (e1, r)"
    by fastforce
  show ?thesis
  proof (cases r)
    case (Inl err)
    with h e x refused [OF e x [unfolded Inl]] show ?thesis
      by (simp add: open_stream_def Let_def stable)
  next
    case (Inr res)
    note un = unused [OF e x [unfolded Inr]]
    note re = registered [OF e TrueI ids [OF e h] _ x [unfolded Inr]]
    show ?thesis
    proof (cases rule: quinn_open_cases [of h "if bidi then Dir_Bi else Dir_Uni" e1])
      case none
      with h e x Inr un show ?thesis
        by (simp add: open_stream_def Let_def drop_commutes stable)
    next
      case (some f sid')
      with h e x Inr un re [of sid' sid] show ?thesis
        by (simp add: open_stream_def Let_def drop_commutes register_commutes call_def stable)
    qed
  qed
qed

lemma stable_step: "ep_step huff e e' \<Longrightarrow> inv e \<Longrightarrow> inv e'"
  by (induction rule: ep_step.induct)
    (simp_all add: connecting stable_recv stable_timeout stable_poll stable_poll_encoded stable_release
      stable_transmits stable_open_stream stable_stream_ops stable_send_datagram stable_session_ops
      stable_close_all set_wt_max_sessions_def set_qpack_settings_def take_error stable)

lemma stable_reachable:
  assumes "ep_reachable huff l e"
    and "\<And>srv rl zero_rtt crypto e. build srv l rl zero_rtt crypto = Inr e \<Longrightarrow> inv e"
  shows "inv e"
  using assms(1) by (induction rule: ep_reachable.induct) (auto intro: assms(2) stable_step)

end

end
