(* ===== verification/Endpoint_Accounting.thy ===== *)
theory Endpoint_Accounting
  imports Endpoint_Stable
begin

text \<open>
  The invariant of the endpoint: the registry is consistent, every reservation belongs to a registered
  connection or stream, and the governor's counters are exactly what the endpoint, its event queue and
  the host still hold. The endpoint's operations keep it by the lemmas of \<open>endpoint_invariant\<close>.
\<close>

section \<open>What the endpoint holds\<close>

definition kinds_of :: "('k, reservation) hash_map \<Rightarrow> reservation_kind multiset" where
  "kinds_of m = image_mset (\<lambda>r. the (res_kind r)) (mset (map snd m))"

definition res_ok :: "('k, reservation) hash_map \<Rightarrow> bool" where
  "res_ok m \<longleftrightarrow> hm_ok m \<and> (\<forall>k r. hm_get m k = Some r \<longrightarrow> r \<in> range reservation_new)"

definition held :: "wt_endpoint \<Rightarrow> reservation_kind multiset" where
  "held e = kinds_of (handshake_reservations e) + kinds_of (session_reservations e) + kinds_of (stream_reservations e)"

text \<open>\<open>R\<close> are reservations an operation has made and not yet stored.\<close>

definition ep_bal :: "wasm_limits \<Rightarrow> reservation_kind multiset \<Rightarrow> wt_endpoint \<Rightarrow> bool" where
  "ep_bal l R e \<longleftrightarrow> res_ok (handshake_reservations e) \<and> res_ok (session_reservations e) \<and>
     res_ok (stream_reservations e) \<and> queue_ok l (R + held e) (queue e)"

lemma res_kind_new [simp]: "the (res_kind (reservation_new k)) = k"
  by (simp add: reservation_new_def)

lemma res_ok_simps [simp]:
  "res_ok []"
  "res_ok m \<Longrightarrow> res_ok (hm_remove k m)"
  "res_ok m \<Longrightarrow> res_ok (hm_insert k (reservation_new x) m)"
  by (auto simp: res_ok_def split: if_splits)

lemma kinds_of_Nil [simp]: "kinds_of [] = {#}"
  by (simp add: kinds_of_def)

lemma kinds_of_insert: "res_ok m \<Longrightarrow> kinds_of (hm_insert k (reservation_new x) m) = add_mset x (kinds_of (hm_remove k m))"
proof -
  assume "res_ok m"
  then have "mset (map snd (hm_insert k (reservation_new x) m)) = add_mset (reservation_new x) (mset (map snd (hm_remove k m)))"
    by (intro hm_values_insert) (simp add: res_ok_def)
  then show ?thesis
    unfolding kinds_of_def by (metis image_mset_add_mset res_kind_new)
qed

lemma kinds_of_remove:
  assumes "res_ok m"
  obtains "hm_get m k = None" "kinds_of (hm_remove k m) = kinds_of m"
  | x where "hm_get m k = Some (reservation_new x)" "kinds_of m = add_mset x (kinds_of (hm_remove k m))"
proof (cases "hm_get m k")
  case None
  then have "hm_remove k m = m"
    by (simp add: delete_idem map_of_eq_None_iff)
  then show thesis
    using None that(1) by simp
next
  case (Some r)
  then obtain x where x: "r = reservation_new x"
    using assms by (auto simp: res_ok_def)
  have "kinds_of m = image_mset (\<lambda>r. the (res_kind r)) (add_mset r (mset (map snd (hm_remove k m))))"
    unfolding kinds_of_def using hm_values_remove [OF _ Some] assms by (simp add: res_ok_def)
  then show thesis
    using Some x that(2) by (simp add: kinds_of_def)
qed

lemma queue_ok_release_from:
  assumes "queue_ok l (R + kinds_of m) q" and "res_ok m"
  shows "queue_ok l (R + kinds_of (hm_remove k m)) (q\<lparr>governor := release_from k m (governor q)\<rparr>)"
proof (cases rule: kinds_of_remove [OF assms(2), of k])
  case 1
  then show ?thesis
    using assms(1) by (simp add: release_from_def)
next
  case (2 x)
  have "gov_ok l (governor q, add_mset x (R + kinds_of (hm_remove k m) + queued_kinds (events q)))"
    using assms(1) 2 by (simp add: queue_ok_def)
  from gov_ok_step [OF gov_step.Drop this] show ?thesis
    using assms(1) 2 by (simp add: queue_ok_def release_from_def)
qed

lemma queue_ok_drop:
  "queue_ok l (add_mset k R) q \<Longrightarrow> queue_ok l R (q\<lparr>governor := reservation_drop (reservation_new k) (governor q)\<rparr>)"
  using gov_ok_step [OF gov_step.Drop, of l "governor q" k "R + queued_kinds (events q)"]
  by (simp add: queue_ok_def)

lemma queue_ok_reserve:
  assumes "queue_ok l R q" and "reserve_kind k (governor q) = (g, r)"
  shows "queue_ok l (case r of Inr _ \<Rightarrow> add_mset k R | Inl _ \<Rightarrow> R) (q\<lparr>governor := g\<rparr>)"
    and "r = Inr x \<Longrightarrow> x = reservation_new k"
proof -
  have "gov_step (governor q, R + queued_kinds (events q))
      (g, (case r of Inr _ \<Rightarrow> add_mset k R | Inl _ \<Rightarrow> R) + queued_kinds (events q))"
    using assms(2) gov_step.Reserve gov_step.Refuse by (cases r) auto
  from gov_ok_step [OF this] show "queue_ok l (case r of Inr _ \<Rightarrow> add_mset k R | Inl _ \<Rightarrow> R) (q\<lparr>governor := g\<rparr>)"
    using assms(1) by (simp add: queue_ok_def)
  show "r = Inr x \<Longrightarrow> x = reservation_new k"
    using assms(2) reserve_kind_result by blast
qed

section \<open>Balance under the elementary operations\<close>

text \<open>What the balance depends on.\<close>

lemma ep_bal_frame:
  assumes "handshake_reservations e' = handshake_reservations e" "session_reservations e' = session_reservations e"
    and "stream_reservations e' = stream_reservations e" "queue e' = queue e"
  shows "ep_bal l R e' = ep_bal l R e"
  by (simp add: ep_bal_def held_def assms)

lemma ep_bal_simps [simp]:
  "ep_bal l R (quinn h f e) = ep_bal l R e"
  "ep_bal l R (upd_session h g e) = ep_bal l R e"
  "ep_bal l R (set_last_error s e) = ep_bal l R e"
  "ep_bal l R (e\<lparr>rate_limiter := rl\<rparr>) = ep_bal l R e"
  "ep_bal l R (e\<lparr>panicked := b\<rparr>) = ep_bal l R e"
  "ep_bal l R (e\<lparr>endpoint_tx := tx\<rparr>) = ep_bal l R e"
  "ep_bal l R (e\<lparr>session_closed_count := n\<rparr>) = ep_bal l R e"
  "ep_bal l R (e\<lparr>paused := p\<rparr>) = ep_bal l R e"
  "ep_bal l R (e\<lparr>half_done := hs\<rparr>) = ep_bal l R e"
  "ep_bal l R (e\<lparr>nst_flush_remaining := nst\<rparr>) = ep_bal l R e"
  "ep_bal l R (e\<lparr>capacity_waiters := w\<rparr>) = ep_bal l R e"
  "ep_bal l R (e\<lparr>wt_max_sessions := m\<rparr>) = ep_bal l R e"
  "ep_bal l R (e\<lparr>qpack_settings := qs\<rparr>) = ep_bal l R e"
  "ep_bal l R (e\<lparr>conns := cs\<rparr>) = ep_bal l R e"
  "ep_bal l R (e\<lparr>sessions := ss\<rparr>) = ep_bal l R e"
  "ep_bal l R (e\<lparr>handle_to_id := hi\<rparr>) = ep_bal l R e"
  "ep_bal l R (e\<lparr>id_to_handle := ih\<rparr>) = ep_bal l R e"
  "ep_bal l R (e\<lparr>next_id := i\<rparr>) = ep_bal l R e"
  "ep_bal l R (e\<lparr>next_stream := ns\<rparr>) = ep_bal l R e"
  "ep_bal l R (e\<lparr>stream_index := si\<rparr>) = ep_bal l R e"
  "ep_bal l R (e\<lparr>rev_index := ri\<rparr>) = ep_bal l R e"
  "ep_bal l R (e\<lparr>stream_sessions := st\<rparr>) = ep_bal l R e"
  "ep_bal l R (enqueue_capacity_waiter h e) = ep_bal l R e"
  "ep_bal l R (unpause wh e) = ep_bal l R e"
  "ep_bal l R (index_remove wh e) = ep_bal l R e"
  "ep_bal l R (index_insert wh h sid session_id e) = ep_bal l R e"
  by (simp_all add: ep_bal_def held_def quinn_def upd_session_def set_last_error_def enqueue_capacity_waiter_def
      unpause_def index_remove_def index_insert_def Let_def split: option.split)

lemma ep_bal_queue:
  "ep_bal l R e \<Longrightarrow> ep_bal l R (e\<lparr>queue := fst (try_push_event ev (queue e))\<rparr>)"
  "ep_bal l R e \<Longrightarrow> ep_bal l R (ep_push_event ev e)"
  "ep_bal l R e \<Longrightarrow> ep_bal l R (e\<lparr>queue := fst (poll_event (queue e))\<rparr>)"
  "ep_bal l R e \<Longrightarrow> ep_bal l R (e\<lparr>queue := fst (poll_event_encoded (queue e))\<rparr>)"
  "ep_bal l R e \<Longrightarrow> ep_bal l R (e\<lparr>queue := fst (queue_release_host_token t (queue e))\<rparr>)"
  "ep_bal l R e \<Longrightarrow> ep_bal l R (fst (take_last_error e))"
  using queue_ok_try_push [of l "R + held e" "queue e" ev] queue_ok_push [of l "R + held e" "queue e" ev]
    queue_ok_poll [of l "R + held e" "queue e"] queue_ok_poll_encoded(1) [of l "R + held e" "queue e"]
    queue_ok_step [OF queue_step.Release [OF surjective_pairing], of l "R + held e" "queue e" t]
  by (simp_all add: ep_bal_def held_def ep_push_event_def take_last_error_def)

lemma ep_bal_remove:
  assumes "ep_bal l R e"
  shows "ep_bal l R (remove_handshake h e)" and "ep_bal l R (remove_session_reservation h e)"
    and "ep_bal l R (remove_stream_reservation wh e)"
  using assms
    queue_ok_release_from [of l "R + kinds_of (session_reservations e) + kinds_of (stream_reservations e)"
      "handshake_reservations e" "queue e" h]
    queue_ok_release_from [of l "R + kinds_of (handshake_reservations e) + kinds_of (stream_reservations e)"
      "session_reservations e" "queue e" h]
    queue_ok_release_from [of l "R + kinds_of (handshake_reservations e) + kinds_of (session_reservations e)"
      "stream_reservations e" "queue e" wh]
  by (simp_all add: ep_bal_def held_def remove_handshake_def remove_session_reservation_def
      remove_stream_reservation_def upd_governor_def ac_simps)

lemma ep_bal_insert:
  assumes "ep_bal l (add_mset x R) e"
  shows "ep_bal l R (insert_handshake h (reservation_new x) e)"
    and "ep_bal l R (insert_session_reservation h (reservation_new x) e)"
    and "ep_bal l R (insert_stream_reservation wh (reservation_new x) e)"
  using assms
    queue_ok_release_from [of l "add_mset x R + kinds_of (session_reservations e) + kinds_of (stream_reservations e)"
      "handshake_reservations e" "queue e" h]
    queue_ok_release_from [of l "add_mset x R + kinds_of (handshake_reservations e) + kinds_of (stream_reservations e)"
      "session_reservations e" "queue e" h]
    queue_ok_release_from [of l "add_mset x R + kinds_of (handshake_reservations e) + kinds_of (session_reservations e)"
      "stream_reservations e" "queue e" wh]
  by (simp_all add: ep_bal_def held_def insert_handshake_def insert_session_reservation_def
      insert_stream_reservation_def upd_governor_def kinds_of_insert ac_simps)

lemma ep_bal_drop:
  "ep_bal l (add_mset k R) e \<Longrightarrow> ep_bal l R (upd_governor (reservation_drop (reservation_new k)) e)"
  using queue_ok_drop [of l k "R + held e" "queue e"]
  by (simp add: ep_bal_def held_def upd_governor_def)

lemma ep_bal_reserve:
  assumes "ep_bal l R e" and "reserve_kind k (governor (queue e)) = (g, r)"
  shows "ep_bal l (case r of Inr _ \<Rightarrow> add_mset k R | Inl _ \<Rightarrow> R) (upd_governor (\<lambda>_. g) e)"
    and "r = Inr x \<Longrightarrow> x = reservation_new k"
  using queue_ok_reserve [OF _ assms(2), of l "R + held e"] assms(1)
  by (auto simp: ep_bal_def held_def upd_governor_def split: sum.splits)

section \<open>The registry\<close>

definition ep_reg :: "wt_endpoint \<Rightarrow> bool" where
  "ep_reg e \<longleftrightarrow> hm_ok (stream_index e) \<and>
     (\<forall>h conn. hm_get (id_to_handle e) conn = Some h \<longleftrightarrow> hm_get (handle_to_id e) h = Some conn) \<and>
     (\<forall>conn. conn \<in> dom (hm_get (id_to_handle e)) \<longrightarrow> conn < next_id e) \<and>
     dom (hm_get (conns e)) = dom (hm_get (handle_to_id e)) \<and>
     dom (hm_get (sessions e)) = dom (hm_get (handle_to_id e)) \<and>
     dom (hm_get (handshake_reservations e)) \<subseteq> dom (hm_get (handle_to_id e)) \<and>
     dom (hm_get (session_reservations e)) \<subseteq> dom (hm_get (handle_to_id e)) \<and>
     dom (hm_get (stream_reservations e)) \<subseteq> dom (hm_get (stream_index e)) \<and>
     (\<forall>wh h sid. hm_get (stream_index e) wh = Some (h, sid) \<longrightarrow>
        h \<in> dom (hm_get (handle_to_id e)) \<and> wh < next_stream e)"

lemma dom_simps [simp]:
  "dom (hm_get (hm_modify k f m)) = dom (hm_get m)"
  "dom (hm_get (hm_insert k v m)) = insert k (dom (hm_get m))"
  "dom (hm_get (hm_remove k m)) = dom (hm_get m) - {k}"
  by (auto simp: dom_def)

lemma ep_reg_simps [simp]:
  "ep_reg (quinn h f e) = ep_reg e"
  "ep_reg (upd_session h g e) = ep_reg e"
  "ep_reg (e\<lparr>queue := q\<rparr>) = ep_reg e"
  "ep_reg (upd_governor gf e) = ep_reg e"
  "ep_reg (set_last_error s e) = ep_reg e"
  "ep_reg (fst (take_last_error e)) = ep_reg e"
  "ep_reg (ep_push_event ev e) = ep_reg e"
  "ep_reg (e\<lparr>rate_limiter := rl\<rparr>) = ep_reg e"
  "ep_reg (e\<lparr>panicked := b\<rparr>) = ep_reg e"
  "ep_reg (e\<lparr>endpoint_tx := tx\<rparr>) = ep_reg e"
  "ep_reg (e\<lparr>session_closed_count := n\<rparr>) = ep_reg e"
  "ep_reg (e\<lparr>paused := p\<rparr>) = ep_reg e"
  "ep_reg (e\<lparr>half_done := hs\<rparr>) = ep_reg e"
  "ep_reg (e\<lparr>nst_flush_remaining := nst\<rparr>) = ep_reg e"
  "ep_reg (e\<lparr>capacity_waiters := w\<rparr>) = ep_reg e"
  "ep_reg (e\<lparr>wt_max_sessions := m\<rparr>) = ep_reg e"
  "ep_reg (e\<lparr>qpack_settings := qs\<rparr>) = ep_reg e"
  "ep_reg (enqueue_capacity_waiter h e) = ep_reg e"
  "ep_reg (unpause wh e) = ep_reg e"
  by (simp_all add: ep_reg_def quinn_def upd_session_def upd_governor_def set_last_error_def take_last_error_def
      ep_push_event_def enqueue_capacity_waiter_def unpause_def split: option.split)

lemma ep_reg_remove:
  assumes "ep_reg e"
  shows "ep_reg (remove_handshake h e)" and "ep_reg (remove_session_reservation h e)"
    and "ep_reg (remove_stream_reservation wh e)"
  using assms
  by (auto simp: remove_handshake_def remove_session_reservation_def remove_stream_reservation_def)
    (auto simp: ep_reg_def)

lemma ep_reg_index_remove:
  "hm_get (stream_reservations e) wh = None \<Longrightarrow> ep_reg e \<Longrightarrow> ep_reg (index_remove wh e)"
  by (auto simp: index_remove_def ep_reg_def Let_def split: option.splits)

section \<open>Ending a connection\<close>

text \<open>What \<open>cleanup_connection\<close> leaves.\<close>

lemma forget_stream_frame:
  "conns (forget_stream x e) = conns e" "sessions (forget_stream x e) = sessions e"
  "handle_to_id (forget_stream x e) = handle_to_id e" "id_to_handle (forget_stream x e) = id_to_handle e"
  "next_id (forget_stream x e) = next_id e" "next_stream (forget_stream x e) = next_stream e"
  "stream_index (forget_stream x e) = stream_index e"
  "handshake_reservations (forget_stream x e) = handshake_reservations e"
  "session_reservations (forget_stream x e) = session_reservations e"
  "dom (hm_get (stream_reservations (forget_stream x e))) = dom (hm_get (stream_reservations e)) - {fst x}"
  by (cases x; simp add: forget_stream_def remove_stream_reservation_def upd_governor_def unpause_def)+

lemma forget_streams_frame:
  "conns (fold forget_stream xs e) = conns e" "sessions (fold forget_stream xs e) = sessions e"
  "handle_to_id (fold forget_stream xs e) = handle_to_id e" "id_to_handle (fold forget_stream xs e) = id_to_handle e"
  "next_id (fold forget_stream xs e) = next_id e" "next_stream (fold forget_stream xs e) = next_stream e"
  "stream_index (fold forget_stream xs e) = stream_index e"
  "handshake_reservations (fold forget_stream xs e) = handshake_reservations e"
  "session_reservations (fold forget_stream xs e) = session_reservations e"
  "dom (hm_get (stream_reservations (fold forget_stream xs e))) = dom (hm_get (stream_reservations e)) - fst ` set xs"
  by (induction xs arbitrary: e) (simp_all add: forget_stream_frame, blast)

text \<open>The registry without the connection, before its streams are forgotten.\<close>

definition unregister :: "conn_handle \<Rightarrow> instant \<Rightarrow> wt_endpoint \<Rightarrow> wt_endpoint" where
  "unregister h now e =
     (let e = remove_session_reservation h (remove_handshake h
            (e\<lparr>conns := hm_remove h (conns e), sessions := hm_remove h (sessions e)\<rparr>)) in
      case hm_get (handle_to_id e) h of
        Some conn \<Rightarrow>
          e\<lparr>handle_to_id := hm_remove h (handle_to_id e), id_to_handle := hm_remove conn (id_to_handle e),
            rate_limiter := release_connection conn now (rate_limiter e)\<rparr>
      | None \<Rightarrow> e\<lparr>handle_to_id := hm_remove h (handle_to_id e)\<rparr>)"

lemma cleanup_unregister:
  "cleanup_connection h now e =
     (fold forget_stream (filter (\<lambda>(wh, sh, sid). sh = h) (stream_index e)) (unregister h now e))
       \<lparr>stream_index := filter (\<lambda>(wh, sh, sid). sh \<noteq> h) (stream_index e)\<rparr>"
proof -
  have "stream_index (unregister h now e) = stream_index e"
    by (simp add: unregister_def remove_session_reservation_def remove_handshake_def upd_governor_def Let_def
        split: option.split)
  then show ?thesis
    by (simp add: cleanup_connection_def unregister_def Let_def forget_streams_frame)
qed

lemma unregister_frame:
  "conns (unregister h now e) = hm_remove h (conns e)" "sessions (unregister h now e) = hm_remove h (sessions e)"
  "handle_to_id (unregister h now e) = hm_remove h (handle_to_id e)"
  "id_to_handle (unregister h now e) =
     (case hm_get (handle_to_id e) h of Some conn \<Rightarrow> hm_remove conn (id_to_handle e) | None \<Rightarrow> id_to_handle e)"
  "next_id (unregister h now e) = next_id e" "next_stream (unregister h now e) = next_stream e"
  "handshake_reservations (unregister h now e) = hm_remove h (handshake_reservations e)"
  "session_reservations (unregister h now e) = hm_remove h (session_reservations e)"
  "stream_reservations (unregister h now e) = stream_reservations e"
  by (simp_all add: unregister_def remove_session_reservation_def remove_handshake_def upd_governor_def Let_def
      split: option.split)

lemma cleanup_frame:
  "conns (cleanup_connection h now e) = hm_remove h (conns e)"
  "sessions (cleanup_connection h now e) = hm_remove h (sessions e)"
  "handle_to_id (cleanup_connection h now e) = hm_remove h (handle_to_id e)"
  "id_to_handle (cleanup_connection h now e) =
     (case hm_get (handle_to_id e) h of Some conn \<Rightarrow> hm_remove conn (id_to_handle e) | None \<Rightarrow> id_to_handle e)"
  "next_id (cleanup_connection h now e) = next_id e" "next_stream (cleanup_connection h now e) = next_stream e"
  "handshake_reservations (cleanup_connection h now e) = hm_remove h (handshake_reservations e)"
  "session_reservations (cleanup_connection h now e) = hm_remove h (session_reservations e)"
  "stream_index (cleanup_connection h now e) = filter (\<lambda>(wh, sh, sid). sh \<noteq> h) (stream_index e)"
  "dom (hm_get (stream_reservations (cleanup_connection h now e))) =
     dom (hm_get (stream_reservations e)) - fst ` set (filter (\<lambda>(wh, sh, sid). sh = h) (stream_index e))"
  unfolding cleanup_unregister by (simp_all add: forget_streams_frame unregister_frame)

lemma hm_get_filter:
  "hm_ok m \<Longrightarrow> hm_get (filter (\<lambda>(k, v). P v) m) k = (case hm_get m k of None \<Rightarrow> None | Some v \<Rightarrow> if P v then Some v else None)"
  using hm_get_retain [of m P k] by (simp add: hm_retain_def)

lemma ep_bal_cleanup: "ep_bal l R e \<Longrightarrow> ep_bal l R (cleanup_connection h now e)"
proof -
  assume "ep_bal l R e"
  then have "ep_bal l R (unregister h now e)"
    by (simp add: unregister_def Let_def ep_bal_remove split: option.split)
  moreover have "ep_bal l R (forget_stream x e')" if "ep_bal l R e'" for x e'
    using that by (cases x) (simp add: forget_stream_def ep_bal_remove)
  ultimately have "ep_bal l R (fold forget_stream xs (unregister h now e))" for xs
    by (induction xs rule: rev_induct) auto
  then show ?thesis
    by (simp add: cleanup_unregister)
qed

lemma ep_reg_cleanup:
  assumes "ep_reg e"
  shows "ep_reg (cleanup_connection h now e)"
proof -
  define M where "M = fst ` set (filter (\<lambda>(wh, sh, sid). sh = h) (stream_index e))"
  define I where "I = filter (\<lambda>(wh, sh, sid). sh \<noteq> h) (stream_index e)"
  have ok: "hm_ok (stream_index e)"
    using assms by (simp add: ep_reg_def)
  have rest: "hm_get I wh = (case hm_get (stream_index e) wh of None \<Rightarrow> None | Some v \<Rightarrow> if fst v \<noteq> h then Some v else None)" for wh
  proof -
    have "(\<lambda>(wh, sh, sid). sh \<noteq> h) = (\<lambda>(wh :: u32, v :: conn_handle \<times> stream_id). fst v \<noteq> h)"
      by auto
    then show ?thesis
      using hm_get_filter [OF ok, of "\<lambda>v. fst v \<noteq> h" wh] by (simp add: I_def)
  qed
  have mine: "wh \<in> M \<longleftrightarrow> (\<exists>sid. hm_get (stream_index e) wh = Some (h, sid))" for wh
    using ok by (force simp: M_def hm_ok_def image_iff)
  have okI: "hm_ok I"
    using ok by (simp add: I_def hm_ok_def distinct_map_filter)
  note r = assms [unfolded ep_reg_def]
  have 1: "dom (hm_get (stream_reservations e)) - M \<subseteq> dom (hm_get I)"
    using r by (auto simp: dom_def mine rest split: option.split)
  let ?ids = "case hm_get (handle_to_id e) h of Some conn \<Rightarrow> hm_remove conn (id_to_handle e) | None \<Rightarrow> id_to_handle e"
  have 2: "hm_get ?ids conn = Some h' \<longleftrightarrow> hm_get (hm_remove h (handle_to_id e)) h' = Some conn" for conn h'
  proof -
    have "hm_get (handle_to_id e) h = Some conn \<Longrightarrow> hm_get (handle_to_id e) h' = Some conn \<Longrightarrow> h' = h"
      using r by (metis option.inject)
    then show ?thesis
      using r by (auto split: option.split)
  qed
  have 3: "conn \<in> dom (hm_get ?ids) \<longrightarrow> conn < next_id e" for conn
    using r by (auto split: option.splits)
  have 4: "hm_get I wh = Some (h', sid) \<longrightarrow> h' \<in> dom (hm_get (handle_to_id e)) - {h} \<and> wh < next_stream e" for wh h' sid
    using r by (auto simp: rest split: option.splits if_splits) (metis domD)
  have 5: "dom (hm_get (conns e)) - {h} = dom (hm_get (handle_to_id e)) - {h}"
    "dom (hm_get (sessions e)) - {h} = dom (hm_get (handle_to_id e)) - {h}"
    "dom (hm_get (handshake_reservations e)) - {h} \<subseteq> dom (hm_get (handle_to_id e)) - {h}"
    "dom (hm_get (session_reservations e)) - {h} \<subseteq> dom (hm_get (handle_to_id e)) - {h}"
    using r by (simp_all add: Diff_mono)
  show ?thesis
    unfolding ep_reg_def cleanup_frame M_def [symmetric] I_def [symmetric] dom_simps
    by (intro conjI allI; fact okI 1 2 3 4 5)
qed

section \<open>Reserving for a stream\<close>

lemma reserve_stream_kind: "reserve_stream conn wh k g = reserve_kind (RStream conn k) g"
  by (simp add: reserve_stream_id_irrelevant [of conn wh])

lemma ep_bal_stream:
  assumes "ep_bal l R e" and "reserve_stream_for conn wh k e = (e', r)"
  shows "r = Inl err \<Longrightarrow> ep_bal l R e'"
    and "r = Inr x \<Longrightarrow> x = reservation_new (RStream conn k) \<and> ep_bal l (add_mset (RStream conn k) R) e'"
proof -
  obtain g where g: "reserve_kind (RStream conn k) (governor (queue e)) = (g, r)" and e': "e' = upd_governor (\<lambda>_. g) e"
    using assms(2) by (auto simp: reserve_stream_for_def reserve_stream_kind upd_governor_def
        simp del: reserve_kind.simps split: prod.splits)
  show "r = Inl err \<Longrightarrow> ep_bal l R e'"
    and "r = Inr x \<Longrightarrow> x = reservation_new (RStream conn k) \<and> ep_bal l (add_mset (RStream conn k) R) e'"
    using ep_bal_reserve [OF assms(1) g] e' by auto
qed

lemma ep_reg_stream:
  assumes "reserve_stream_for conn wh k e = (e', r)"
  shows "ep_reg e' = ep_reg e" and "next_stream e' = next_stream e" and "handle_to_id e' = handle_to_id e"
  using assms by (auto simp: reserve_stream_for_def upd_governor_def split: prod.splits)

lemma checked_add_word_Some: "checked_add_word (w :: u32) 1 \<noteq> None \<Longrightarrow> w < w + 1"
  by (auto simp: checked_add_word_def word_less_nat_alt unat_word_ariths split: if_splits)

lemma ep_bal_register:
  assumes "ep_bal l (add_mset x R) e"
  shows "ep_bal l R (register_stream wh h sid session_id missing (reservation_new x) e)"
  using assms by (simp add: register_stream_def Let_def ep_bal_insert)

lemma ep_reg_register:
  assumes "ep_reg e" and "hm_get (handle_to_id e) h = Some conn" and "next_stream e < next_stream e + 1"
  shows "ep_reg (register_stream (next_stream e) h sid session_id missing r e)"
proof -
  have "wh < next_stream e + 1" if "wh < next_stream e" for wh
    using that assms(3) by (rule less_trans)
  then show ?thesis
    using assms
    by (auto simp: register_stream_def Let_def index_insert_def insert_stream_reservation_def upd_governor_def ep_reg_def)
qed

interpretation ep_balance: endpoint_stable "ep_bal l R" "\<lambda>_. True" for l R
proof (unfold_locales, goal_cases)
  case (19 e conn wh k e' err)
  then show ?case
    using ep_bal_stream(1) by blast
next
  case (20 e conn wh k e' r)
  then show ?case
    using ep_bal_stream(2) ep_bal_drop by blast
next
  case (21 e h conn k e' r sid session_id missing)
  then show ?case
    using ep_bal_stream(2) ep_bal_register by blast
qed (simp_all add: ep_bal_queue ep_bal_remove ep_bal_cleanup)

section \<open>New connections\<close>

lemma upd_governor_const:
  "upd_governor (\<lambda>_. g') (upd_governor f e) = upd_governor (\<lambda>_. g') e"
  "upd_governor f (upd_governor (\<lambda>_. g) e) = upd_governor (\<lambda>_. f g) e"
  "governor (queue (upd_governor f e)) = f (governor (queue e))"
  by (simp_all add: upd_governor_def)

lemma admit_cases:
  assumes "ep_bal l R e" and "admit_new_connection now src e = (e1, r)"
  shows "case r of Inl _ \<Rightarrow> ep_bal l R e1
    | Inr pair \<Rightarrow> pair = (reservation_new RHandshake, reservation_new (RSession 0)) \<and>
        ep_bal l (add_mset (RSession 0) (add_mset RHandshake R)) e1"
proof -
  obtain e0 x where 0: "(case src of None \<Rightarrow> (e, None)
      | Some src \<Rightarrow> (case check now src Handshake (rate_limiter e) of
           (rl, Inr _) \<Rightarrow> (e\<lparr>rate_limiter := rl\<rparr>, None)
         | (rl, Inl (Err err)) \<Rightarrow> (e\<lparr>rate_limiter := rl\<rparr>, Some err)
         | (rl, Inl (Panic err)) \<Rightarrow> (e\<lparr>rate_limiter := rl, panicked := True\<rparr>, Some err))) = (e0, x)"
    by (rule surj_pair [THEN exE], erule exE)
  have e0: "ep_bal l R e0"
    using 0 assms(1) by (auto split: option.splits prod.splits sum.splits check_error.splits)
  obtain g1 r1 where 1: "reserve_kind RHandshake (governor (queue e0)) = (g1, r1)"
    by fastforce
  let ?e1 = "upd_governor (\<lambda>_. g1) e0"
  obtain g2 r2 where 2: "reserve_kind (RSession 0) (governor (queue ?e1)) = (g2, r2)"
    by fastforce
  note A = ep_bal_reserve [OF e0 1] and B = ep_bal_reserve [OF _ 2]
  have refused: "ep_bal l R (upd_governor (\<lambda>_. reservation_drop (reservation_new RHandshake) g2) e0)"
    if "r1 = Inr y" "r2 = Inl z" for y z
    using ep_bal_drop [OF B(1) [of l "add_mset RHandshake R", simplified that sum.simps]] A that
    by (simp add: upd_governor_const)
  show ?thesis
    using assms(2) [unfolded admit_new_connection_def 0] e0 1 2 A refused B(1) [of l "add_mset RHandshake R"] B(2)
    by (cases x; cases r1; cases r2) (auto simp: upd_governor_const)
qed

lemma admit_reg:
  assumes "admit_new_connection now src e = (e1, r)"
  shows "ep_reg e1 = ep_reg e" and "handle_to_id e1 = handle_to_id e"
  using assms
  by (auto simp: admit_new_connection_def upd_governor_def split: option.splits prod.splits sum.splits check_error.splits)

lemma register_frame:
  assumes "register h e = (e', r)"
  shows "ep_bal l R e' = ep_bal l R e" and "r = Inl err \<Longrightarrow> e' = e"
  using assms by (auto simp: register_def split: option.splits)

lemma ep_bal_add_connection [simp]: "ep_bal l R (add_connection h c auth now e) = ep_bal l R e"
  by (simp add: add_connection_def)

lemma ep_reg_connection:
  assumes "ep_reg e" and "hm_get (handle_to_id e) h = None" and "register h e = (e', Inr conn)"
  shows "ep_reg (add_connection h c auth now e')" and "hm_get (handle_to_id e') h = Some conn"
proof -
  have n: "next_id e < next_id e + 1" and e': "conn = next_id e" "e' = e\<lparr>next_id := next_id e + 1,
      handle_to_id := hm_insert h conn (handle_to_id e), id_to_handle := hm_insert conn h (id_to_handle e)\<rparr>"
    using assms(3) checked_add_word_Some [of "next_id e"]
    by (auto simp: register_def checked_add_word_def split: if_splits)
  note r = assms(1) [unfolded ep_reg_def]
  have new: "hm_get (handle_to_id e) h' \<noteq> Some conn" for h'
  proof
    assume "hm_get (handle_to_id e) h' = Some conn"
    with r have "hm_get (id_to_handle e) conn = Some h'"
      by blast
    with r have "conn < next_id e"
      by blast
    with e'(1) show False
      by simp
  qed
  have below: "c < next_id e + 1" if "c < next_id e" for c
    using that n by (rule less_trans)
  show "ep_reg (add_connection h c auth now e')"
    using r assms(2) new below n e'(1) unfolding e'(2)
    by (auto simp: ep_reg_def add_connection_def)
  show "hm_get (handle_to_id e') h = Some conn"
    by (simp add: e'(2))
qed

lemma ep_reg_insert:
  assumes "ep_reg e" and "hm_get (handle_to_id e) h = Some conn"
  shows "ep_reg (insert_handshake h r e)" and "ep_reg (insert_session_reservation h r e)"
  using assms by (auto simp: insert_handshake_def insert_session_reservation_def upd_governor_def ep_reg_def)

interpretation ep_registry: endpoint_stable ep_reg "\<lambda>_. True"
proof (unfold_locales, goal_cases)
  case (20 e conn wh k e' r)
  then show ?case
    by (simp add: ep_reg_stream)
next
  case (21 e h conn k e' r sid session_id missing)
  then show ?case
    using ep_reg_register [of e' h conn sid session_id missing r] checked_add_word_Some
    by (simp add: ep_reg_stream [OF 21(5)])
qed (simp_all add: ep_reg_remove ep_reg_index_remove ep_reg_cleanup ep_reg_stream)

text \<open>The pair of reservations of a new connection.\<close>

abbreviation admitted :: "reservation_kind multiset" where
  "admitted \<equiv> {#RSession 0, RHandshake#}"

lemma drop_pair_ok:
  "ep_bal l admitted e \<Longrightarrow> ep_bal l {#} (drop_pair (reservation_new RHandshake, reservation_new (RSession 0)) e)"
  "ep_reg (drop_pair pair e) = ep_reg e"
proof -
  have "drop_pair (reservation_new RHandshake, reservation_new (RSession 0)) e =
      upd_governor (reservation_drop (reservation_new RHandshake))
        (upd_governor (reservation_drop (reservation_new (RSession 0))) e)"
    by (simp add: drop_pair_def upd_governor_def)
  then show "ep_bal l admitted e \<Longrightarrow> ep_bal l {#} (drop_pair (reservation_new RHandshake, reservation_new (RSession 0)) e)"
    by (simp add: ep_bal_drop)
  show "ep_reg (drop_pair pair e) = ep_reg e"
    by (simp add: drop_pair_def case_prod_beta)
qed

definition ep_ok :: "wasm_limits \<Rightarrow> wt_endpoint \<Rightarrow> bool" where
  "ep_ok l e \<longleftrightarrow> ep_bal l {#} e \<and> ep_reg e"

lemma admit_ok:
  assumes "ep_ok l e" and "admit_new_connection now src e = (e1, r)"
  shows "r = Inl err \<Longrightarrow> ep_ok l e1"
    and "r = Inr pair \<Longrightarrow> pair = (reservation_new RHandshake, reservation_new (RSession 0))"
    and "r = Inr pair \<Longrightarrow> ep_bal l admitted e1"
    and "ep_reg e1"
  using admit_cases [of l "{#}" e now src e1 r] admit_reg [OF assms(2)] assms
  by (auto simp: ep_ok_def)

lemma stored_ok:
  assumes "ep_bal l admitted e" and "ep_reg e" and "hm_get (handle_to_id e) h = Some conn"
  shows "ep_ok l (insert_session_reservation h (reservation_new (RSession 0))
    (insert_handshake h (reservation_new RHandshake) e))"
proof -
  have "ep_bal l {#RSession 0#} (insert_handshake h (reservation_new RHandshake) e)"
    by (rule ep_bal_insert(1)) (use assms(1) in \<open>simp add: add_mset_commute\<close>)
  moreover have "hm_get (handle_to_id (insert_handshake h (reservation_new RHandshake) e)) h = Some conn"
    using assms(3) by (simp add: insert_handshake_def upd_governor_def)
  ultimately show ?thesis
    using assms by (simp add: ep_ok_def ep_bal_insert ep_reg_insert)
qed

lemma accept_ok:
  assumes "ep_ok l e" and "admit_new_connection now src e = (e1, Inr pair)" and "hm_get (handle_to_id e) h = None"
  shows "ep_ok l (fst (accept_connection now from h c pair e1))"
proof -
  note a = admit_ok [OF assms(1,2)]
  have pair: "pair = (reservation_new RHandshake, reservation_new (RSession 0))" and bal: "ep_bal l admitted e1"
    using a by blast+
  have fresh: "hm_get (handle_to_id e1) h = None"
    using admit_reg(2) [OF assms(2)] assms(3) by simp
  obtain e2 r where r: "register h e1 = (e2, r)"
    by fastforce
  show ?thesis
  proof (cases r)
    case (Inl err)
    then show ?thesis
      using r bal a(4) register_frame(2) [OF r] pair drop_pair_ok by (simp add: accept_connection_def ep_ok_def)
  next
    case (Inr conn)
    let ?e = "add_connection h c [] now e2"
    have e: "ep_bal l admitted ?e" "ep_reg ?e" and id: "hm_get (handle_to_id ?e) h = Some conn"
      using ep_reg_connection [OF a(4) fresh r [unfolded Inr]] register_frame(1) [OF r] bal
      by (simp_all add: add_connection_def)
    obtain e3 x where x: "(if is_server ?e then
         (case attach_connection conn from now (rate_limiter ?e) of
            (rl, Inr _) \<Rightarrow> (?e\<lparr>rate_limiter := rl\<rparr>, None)
          | (rl, Inl (Err err)) \<Rightarrow> (?e\<lparr>rate_limiter := rl\<rparr>, Some err)
          | (rl, Inl (Panic err)) \<Rightarrow> (?e\<lparr>rate_limiter := rl, panicked := True\<rparr>, Some err))
       else (?e, None)) = (e3, x)"
      by (rule surj_pair [THEN exE], erule exE)
    have e3: "ep_bal l admitted e3" "ep_reg e3" "hm_get (handle_to_id e3) h = Some conn"
      using x e id by (auto split: if_splits prod.splits sum.splits check_error.splits)
    show ?thesis
    proof (cases x)
      case None
      then show ?thesis
        using stored_ok [OF e3] r Inr x pair by (simp add: accept_connection_def Let_def)
    next
      case (Some err)
      have "ep_bal l admitted (close_conn conn 0 reason now (set_last_error err e3))"
        and "ep_reg (close_conn conn 0 reason now (set_last_error err e3))" for reason
        using e3 by (simp_all add: ep_balance.stable_close_conn ep_registry.stable_close_conn)
      then show ?thesis
        using Some r Inr x pair drop_pair_ok by (simp add: accept_connection_def Let_def ep_ok_def)
    qed
  qed
qed

lemma connect_ok:
  assumes "ep_ok l e" and "fresh_handles answer e"
  shows "ep_ok l (fst (connect auth answer now e))"
proof -
  obtain e1 r where adm: "admit_new_connection now None e = (e1, r)"
    by fastforce
  note a = admit_ok [OF assms(1) adm]
  have err: "ep_ok l (set_last_error m e)" for m
    using assms(1) by (simp add: ep_ok_def)
  have dropped: "ep_ok l (drop_pair pair (set_last_error m e1))" if "r = Inr pair" for pair m
    using a that drop_pair_ok by (simp add: ep_ok_def)
  have stored: "ep_ok l (fst (case register h e1 of
        (e, Inl err) \<Rightarrow> (drop_pair pair (set_last_error err e), - 1)
      | (e, Inr conn) \<Rightarrow>
          (insert_session_reservation h (snd pair) (insert_handshake h (fst pair) (add_connection h c auth now e)),
           int (unat conn))))"
    if "r = Inr pair" "answer name = Some (h, c)" for pair h c name
  proof -
    have fresh: "hm_get (handle_to_id e1) h = None"
      using admit_reg(2) [OF adm] assms(2) that(2) by (auto simp: fresh_handles_def)
    obtain e2 q where q: "register h e1 = (e2, q)"
      by fastforce
    show ?thesis
    proof (cases q)
      case (Inl m)
      then show ?thesis
        using q register_frame(2) [OF q] dropped [OF that(1), of m] by simp
    next
      case (Inr conn)
      have "ep_ok l (insert_session_reservation h (snd pair) (insert_handshake h (fst pair) (add_connection h c auth now e2)))"
        using stored_ok [of l "add_connection h c auth now e2" h conn] that(1) a
          ep_reg_connection [OF a(4) fresh q [unfolded Inr]] register_frame(1) [OF q]
        by (simp add: add_connection_def)
      then show ?thesis
        using q Inr by simp
    qed
  qed
  show ?thesis
    using err a dropped stored
    by (cases r) (auto simp: connect_def adm ep_ok_def split: option.split)
qed

interpretation ep_sound: endpoint_invariant "ep_ok l" for l
proof (unfold_locales, goal_cases)
  case (19 e conn wh k e' err)
  then show ?case
    using ep_balance.refused ep_registry.refused unfolding ep_ok_def by blast
next
  case (20 e conn wh k e' r)
  then show ?case
    using ep_balance.unused ep_registry.unused unfolding ep_ok_def by blast
next
  case (21 e h conn k e' r sid session_id missing)
  then show ?case
    using ep_balance.registered [of l "{#}" e h conn k e' r] ep_registry.registered [of e h conn k e' r]
    by (simp add: ep_ok_def)
next
  case (28 e conn h)
  then show ?case
    by (auto simp: ep_ok_def ep_reg_def)
next
  case (30 e)
  have "map fst (map (\<lambda>(h, c). (h, c\<lparr>q_transmits := []\<rparr>)) (conns e)) = map fst (conns e)"
    by (simp add: case_prod_beta)
  then have "dom (hm_get (map (\<lambda>(h, c). (h, c\<lparr>q_transmits := []\<rparr>)) (conns e))) = dom (hm_get (conns e))"
    by (metis dom_map_of_conv_image_fst set_map)
  with 30 show ?case
    by (simp add: ep_ok_def drain_all_transmits_def) (simp add: ep_reg_def)
next
  case (31 e answer auth now)
  then show ?case
    by (rule connect_ok)
next
  case (32 e now src e1 err)
  then show ?case
    using admit_ok(1) by blast
next
  case (33 e now src e1 pair h peer c)
  then show ?case
    by (rule accept_ok)
next
  case (34 e now src e1 pair)
  then show ?case
    using admit_ok(2,3) [OF 34 refl] admit_ok(4) [OF 34] drop_pair_ok by (simp add: ep_ok_def)
qed (simp_all add: ep_ok_def ep_bal_queue ep_bal_remove ep_reg_remove ep_reg_index_remove ep_bal_cleanup ep_reg_cleanup)

end
