(* ===== verification/Endpoint_Safety.thy ===== *)
theory Endpoint_Safety
  imports Endpoint_Accounting
begin

text \<open>
  What the endpoint promises over any run: accounting, a consistent registry, a clean shutdown,
  isolation of connections, and polling that returns. Each result instantiates the invariant of
  \<open>Endpoint_Accounting\<close> or the interface \<open>endpoint_stable\<close>.
\<close>

section \<open>The invariant over runs\<close>

lemma ep_ok_build:
  assumes "build srv l rl zero_rtt crypto = Inr e"
  shows "ep_ok l e"
proof -
  obtain g where g: "governor_new l = Inr g" and q: "queue e = \<lparr>events = [], event_reservations = [], governor = g, last_error = None\<rparr>"
    and maps: "handshake_reservations e = []" "session_reservations e = []" "stream_reservations e = []"
      "stream_index e = []" "handle_to_id e = []" "id_to_handle e = []" "conns e = []" "sessions e = []"
    using assms by (auto simp: build_def split: sum.splits if_splits)
  have "queue_ok l {#} (queue e)"
    unfolding q by (rule queue_ok_reachable [OF queue_reachable.Start [OF g]])
  then show ?thesis
    using maps by (simp add: ep_ok_def ep_bal_def held_def ep_reg_def)
qed

lemma ep_ok_reachable: "ep_reachable huff l e \<Longrightarrow> ep_ok l e"
  by (erule ep_sound.stable_reachable) (rule ep_ok_build)

text \<open>
  C1. Conservation across the endpoint. Whatever the host calls, the network sends and the timers do, each
  counter of the governor is exactly what the endpoint's handshakes, sessions and streams, its queued
  events and the tokens in the host's hands account for, and it is within its limit.
\<close>

theorem endpoint_conserves:
  assumes "ep_reachable huff l e"
  shows "counter_value (governor (queue e)) c
      = (\<Sum>k\<in>#held e + queued_kinds (events (queue e)) + mset (map snd (host_tokens (governor (queue e)))). weight k c) \<and>
    counter_value (governor (queue e)) c \<le> limit_of l c"
  using ep_ok_reachable [OF assms]
    governor_ledger.balancedD [of "governor (queue e)" "outstanding (governor (queue e)) (held e + queued_kinds (events (queue e)))" c]
  by (simp add: ep_ok_def ep_bal_def queue_ok_def gov_ok_def outstanding_def governor_ledger.justified_def)

text \<open>
  C6. The registry is well formed in every state: connection ids and handles correspond one to one, every
  connection has exactly one quinn connection and one session, reservations belong to registered
  connections and streams, every stream belongs to a registered connection, ids and stream handles are
  below the next ones, and at most 65536 events wait.
\<close>

theorem endpoint_well_formed:
  assumes "ep_reachable huff l e"
  shows "(hm_get (id_to_handle e) conn = Some h \<longleftrightarrow> hm_get (handle_to_id e) h = Some conn) \<and>
    (hm_get (conns e) h \<noteq> None \<longleftrightarrow> hm_get (handle_to_id e) h \<noteq> None) \<and>
    (hm_get (sessions e) h \<noteq> None \<longleftrightarrow> hm_get (handle_to_id e) h \<noteq> None) \<and>
    (hm_get (id_to_handle e) conn \<noteq> None \<longrightarrow> conn < next_id e) \<and>
    (hm_get (handshake_reservations e) h \<noteq> None \<longrightarrow> hm_get (handle_to_id e) h \<noteq> None) \<and>
    (hm_get (session_reservations e) h \<noteq> None \<longrightarrow> hm_get (handle_to_id e) h \<noteq> None) \<and>
    (hm_get (stream_reservations e) wh \<noteq> None \<longrightarrow> hm_get (stream_index e) wh \<noteq> None) \<and>
    (hm_get (stream_index e) wh = Some (sh, sid) \<longrightarrow> hm_get (handle_to_id e) sh \<noteq> None \<and> wh < next_stream e) \<and>
    length (events (queue e)) \<le> MAX_PENDING_EVENTS"
proof -
  have r: "ep_reg e" and q: "length (events (queue e)) \<le> MAX_PENDING_EVENTS"
    using ep_ok_reachable [OF assms] by (simp_all add: ep_ok_def ep_bal_def queue_ok_def)
  show ?thesis
    using q r [unfolded ep_reg_def set_eq_iff subset_iff domIff] by blast
qed

section \<open>Shutdown\<close>

lemma close_conn_frame:
  assumes "ep_reg e" and "hm_get (id_to_handle e) conn = Some h"
  shows "handle_to_id (close_conn conn code reason now e) = hm_remove h (handle_to_id e)"
    and "id_to_handle (close_conn conn code reason now e) = hm_remove conn (id_to_handle e)"
proof -
  have "hm_get (handle_to_id e) h = Some conn"
    using assms by (simp add: ep_reg_def)
  then show "handle_to_id (close_conn conn code reason now e) = hm_remove h (handle_to_id e)"
    and "id_to_handle (close_conn conn code reason now e) = hm_remove conn (id_to_handle e)"
    using assms(2)
    by (simp_all add: close_conn_def Let_def cleanup_frame flush_conn_transmits_def ep_push_event_def call_def quinn_def
        split: option.split)
qed

lemma close_conns_frame:
  "ep_reg e \<Longrightarrow> dom (hm_get (id_to_handle (fold (\<lambda>conn. close_conn conn code reason now) ids e)))
     = dom (hm_get (id_to_handle e)) - set ids"
proof (induction ids arbitrary: e)
  case (Cons conn ids)
  have "ep_reg (close_conn conn code reason now e)"
    using Cons.prems by (simp add: ep_registry.stable_close_conn)
  moreover have "dom (hm_get (id_to_handle (close_conn conn code reason now e))) = dom (hm_get (id_to_handle e)) - {conn}"
  proof (cases "hm_get (id_to_handle e) conn")
    case None
    then show ?thesis
      by (auto simp: close_conn_def)
  next
    case (Some h)
    then show ?thesis
      using close_conn_frame(2) [OF Cons.prems Some] by simp
  qed
  ultimately show ?case
    using Cons.IH by auto
qed simp

lemma hm_dom_empty: "dom (hm_get m) = {} \<Longrightarrow> m = []"
  by (rule hm_empty) auto

text \<open>
  C7. Closing everything leaves nothing behind: no connection, session, stream or reservation is
  registered any more, so what the governor still counts are undelivered events and tokens of the host.
\<close>

theorem endpoint_drains:
  assumes "ep_reachable huff l e"
  shows "conns (close_all code reason now e) = [] \<and> sessions (close_all code reason now e) = [] \<and>
    handle_to_id (close_all code reason now e) = [] \<and> id_to_handle (close_all code reason now e) = [] \<and>
    stream_index (close_all code reason now e) = [] \<and> held (close_all code reason now e) = {#} \<and>
    counter_value (governor (queue (close_all code reason now e))) c
      = (\<Sum>k\<in>#queued_kinds (events (queue (close_all code reason now e)))
          + mset (map snd (host_tokens (governor (queue (close_all code reason now e))))). weight k c)"
proof -
  let ?e = "close_all code reason now e"
  have ok: "ep_ok l e"
    by (rule ep_ok_reachable [OF assms])
  then have ok': "ep_ok l ?e"
    by (rule ep_sound.stable_close_all)
  have "dom (hm_get (id_to_handle ?e)) = {}"
    using close_conns_frame [of e code reason now "map fst (id_to_handle e)"] ok
    by (simp add: close_all_def Let_def ep_ok_def dom_map_of_conv_image_fst)
  then have ids: "id_to_handle ?e = []"
    by (rule hm_dom_empty)
  have r: "ep_reg ?e"
    using ok' by (simp add: ep_ok_def)
  have none: "hm_get (handle_to_id ?e) h = None" for h
    using r ids by (cases "hm_get (handle_to_id ?e) h") (auto simp: ep_reg_def)
  then have handles: "handle_to_id ?e = []"
    by (rule hm_empty)
  have rest: "conns ?e = []" "sessions ?e = []" "handshake_reservations ?e = []" "session_reservations ?e = []"
    using r [unfolded ep_reg_def handles] by (auto intro!: hm_dom_empty)
  have "hm_get (stream_index ?e) wh = None" for wh
    using r [unfolded ep_reg_def handles] by (cases "hm_get (stream_index ?e) wh") auto
  then have index: "stream_index ?e = []"
    by (rule hm_empty)
  have streams: "stream_reservations ?e = []"
    using r [unfolded ep_reg_def index] by (auto intro!: hm_dom_empty)
  have held: "held ?e = {#}"
    using rest streams by (simp add: held_def)
  show ?thesis
    using ids handles rest index held ok'
      governor_ledger.balancedD(1) [of "governor (queue ?e)" "outstanding (governor (queue ?e)) (queued_kinds (events (queue ?e)))" c]
    by (simp add: ep_ok_def ep_bal_def queue_ok_def gov_ok_def outstanding_def governor_ledger.justified_def)
qed

section \<open>Isolation of connections\<close>

text \<open>What belongs to one connection.\<close>

definition view :: "conn_handle \<Rightarrow> wt_endpoint \<Rightarrow> quinn_conn option \<times> session option" where
  "view h e = (hm_get (conns e) h, hm_get (sessions e) h)"

lemma view_simps:
  "view h' (set_last_error err e) = view h' e"
  "view h' (e\<lparr>queue := q\<rparr>) = view h' e"
  "h \<noteq> h' \<Longrightarrow> view h' (quinn h f e) = view h' e"
  "h \<noteq> h' \<Longrightarrow> view h' (upd_session h g e) = view h' e"
  "view h' (e\<lparr>rate_limiter := rl\<rparr>) = view h' e"
  "view h' (e\<lparr>panicked := b\<rparr>) = view h' e"
  "view h' (e\<lparr>endpoint_tx := tx\<rparr>) = view h' e"
  "view h' (e\<lparr>session_closed_count := n\<rparr>) = view h' e"
  "view h' (e\<lparr>paused := p\<rparr>) = view h' e"
  "view h' (e\<lparr>half_done := hs\<rparr>) = view h' e"
  "view h' (e\<lparr>nst_flush_remaining := nst\<rparr>) = view h' e"
  "view h' (e\<lparr>capacity_waiters := w\<rparr>) = view h' e"
  "view h' (enqueue_capacity_waiter h e) = view h' e"
  "view h' (remove_handshake h e) = view h' e"
  "view h' (remove_session_reservation h e) = view h' e"
  "view h' (remove_stream_reservation wh e) = view h' e"
  "view h' (index_remove wh e) = view h' e"
  "view h' (upd_governor gf e) = view h' e"
  "view h' (register_stream wh h sid session_id missing r e) = view h' e"
  "view h' (fst (reserve_stream_for conn wh k e)) = view h' e"
  "h \<noteq> h' \<Longrightarrow> view h' (cleanup_connection h now e) = view h' e"
  by (simp_all add: view_def set_last_error_def quinn_def upd_session_def enqueue_capacity_waiter_def remove_handshake_def
      remove_session_reservation_def remove_stream_reservation_def index_remove_def upd_governor_def register_stream_def
      index_insert_def insert_stream_reservation_def reserve_stream_for_def cleanup_frame Let_def case_prod_beta
      split: option.split)

lemma ep_reg_inj:
  "ep_reg e \<Longrightarrow> hm_get (id_to_handle e) conn = Some h2 \<Longrightarrow> hm_get (handle_to_id e) h = Some conn \<Longrightarrow> h2 = h"
  unfolding ep_reg_def by (metis option.inject)

interpretation isolated: endpoint_stable "\<lambda>e. ep_reg e \<and> view h' e = v" "\<lambda>h. h \<noteq> h'" for h' v
proof (unfold_locales, goal_cases)
  case (1 e h conn h2)
  then show ?case
    using ep_reg_inj [of e conn h2 h] by auto
next
  case (19 e conn wh k e' err)
  then show ?case
    using ep_registry.refused view_simps(20) [of h' conn wh k e] by auto
next
  case (20 e conn wh k e' r)
  then show ?case
    using ep_registry.unused view_simps(20) [of h' conn wh k e] by (auto simp: view_simps)
next
  case (21 e h conn k e' r sid session_id missing)
  then show ?case
    using ep_registry.registered view_simps(20) [of h' conn "next_stream e" k e] by (auto simp: view_simps)
qed (simp_all add: view_simps ep_reg_remove ep_reg_index_remove ep_reg_cleanup)

text \<open>
  C4. Isolation: a packet for one connection, and everything it sets off, leaves the quinn connection and
  the session of every other connection as they were.
\<close>

theorem connection_isolation:
  assumes "ep_reachable huff l e" and "hm_get (conns e) h \<noteq> None" and "h' \<noteq> h"
  shows "hm_get (conns (recv huff now src (Packet_Event h c) e)) h' = hm_get (conns e) h' \<and>
    hm_get (sessions (recv huff now src (Packet_Event h c) e)) h' = hm_get (sessions e) h'"
proof -
  have r: "ep_reg e"
    using ep_ok_reachable [OF assms(1)] by (simp add: ep_ok_def)
  let ?e = "quinn h (new_answers Call_Handle_Event c) e"
  have "ep_reg ?e \<and> view h' ?e = view h' e"
    using r assms(3) by (simp add: view_simps)
  then have "view h' (drive huff h now ?e) = view h' e"
    using isolated.stable_drive [of h h' ?e "view h' e" huff now] assms(3) by simp
  then show ?thesis
    using assms(2) by (auto simp: recv_def view_def)
qed

section \<open>Polling returns\<close>

text \<open>Between two polls the event queue only grows at its end.\<close>

lemma queued_simps:
  "events (queue (set_last_error err e)) = events (queue e)"
  "events (queue (quinn h f e)) = events (queue e)"
  "events (queue (upd_session h g e)) = events (queue e)"
  "events (queue (enqueue_capacity_waiter h e)) = events (queue e)"
  "events (queue (remove_handshake h e)) = events (queue e)"
  "events (queue (remove_session_reservation h e)) = events (queue e)"
  "events (queue (remove_stream_reservation wh e)) = events (queue e)"
  "events (queue (index_remove wh e)) = events (queue e)"
  "events (queue (upd_governor gf e)) = events (queue e)"
  "events (queue (register_stream wh h sid session_id missing r e)) = events (queue e)"
  "events (queue (fst (reserve_stream_for conn wh k e))) = events (queue e)"
  by (simp_all add: set_last_error_def quinn_def upd_session_def enqueue_capacity_waiter_def remove_handshake_def
      remove_session_reservation_def remove_stream_reservation_def index_remove_def upd_governor_def register_stream_def
      index_insert_def insert_stream_reservation_def reserve_stream_for_def Let_def case_prod_beta split: option.split)

lemma queued_forget: "events (queue (fold forget_stream xs e)) = events (queue e)"
  by (induction xs arbitrary: e)
    (auto simp: forget_stream_def remove_stream_reservation_def upd_governor_def unpause_def case_prod_beta)

lemma queued_cleanup: "events (queue (cleanup_connection h now e)) = events (queue e)"
  by (simp add: cleanup_unregister queued_forget unregister_def queued_simps Let_def split: option.split)

lemma queued_try_push: "\<exists>xs. events (fst (try_push_event ev q)) = events q @ xs"
  by (auto simp: try_push_event_def split: prod.split sum.split)

lemma queued_more: "\<exists>xs. events q = pre @ xs \<Longrightarrow> \<exists>xs. events (fst (try_push_event ev q)) = pre @ xs"
  using queued_try_push [of ev q] by auto

interpretation appended: endpoint_stable "\<lambda>e. \<exists>xs. events (queue e) = pre @ xs" "\<lambda>_. True" for pre
proof (unfold_locales, goal_cases)
  case (3 e ev)
  then show ?case
    using queued_more [of "queue e" pre ev] by simp
next
  case (19 e conn wh k e' err)
  then show ?case
    using queued_simps(11) [of conn wh k e] by simp
next
  case (20 e conn wh k e' r)
  then show ?case
    using queued_simps(11) [of conn wh k e] by (simp add: queued_simps)
next
  case (21 e h conn k e' r sid session_id missing)
  then show ?case
    using queued_simps(11) [of conn "next_stream e" k e] by (simp add: queued_simps)
qed (simp_all add: queued_simps queued_cleanup)

lemma queued_push:
  assumes "length (events (queue e)) < MAX_PENDING_EVENTS" and "event_kind ev = None"
  shows "events (queue (ep_push_event ev e)) = events (queue e) @ [ev]"
  using assms
  by (cases rule: event_reservation_cases [of ev "governor (queue e)"])
    (simp_all add: ep_push_event_def push_event_def try_push_event_def)

lemma queued_close_conn:
  assumes "hm_get (id_to_handle e) conn = Some h" and "length (events (queue e)) < MAX_PENDING_EVENTS"
  shows "events (queue (close_conn conn code reason now e)) = events (queue e) @ [ConnectionClosed conn code]"
proof -
  let ?e = "call h (Call_Close (ucast code) reason) e"
  have "events (queue (ep_push_event (ConnectionClosed conn code) ?e)) = events (queue e) @ [ConnectionClosed conn code]"
    using queued_push [of ?e "ConnectionClosed conn code"] assms(2) by (simp add: call_def queued_simps)
  then show ?thesis
    using assms(1)
    by (simp add: close_conn_def Let_def queued_cleanup flush_conn_transmits_def queued_simps split: option.split)
qed

text \<open>
  A round that goes on has taken the first event and left one that needs no token behind the others.
\<close>

lemma poll_round_cases:
  assumes "ep_ok l e"
  obtains (returns) e' r where "poll_encoded_round huff now e = (e', Round_Return r)"
  | (goes_on) ev k evs e' cc xs where "poll_encoded_round huff now e = (e', Round_Continue)"
      "events (queue e) = ev # evs" "event_kind ev = Some k" "event_kind cc = None"
      "events (queue e') = evs @ cc # xs"
proof -
  have q: "queue_ok l (held e) (queue e)"
    using assms by (simp add: ep_ok_def ep_bal_def)
  obtain q' o' where p: "poll_event_encoded (queue e) = (q', o')"
    by fastforce
  show thesis
  proof (cases o')
    case (Poll_Lost ev)
    then obtain k evs where ev: "events (queue e) = ev # evs" "event_kind ev = Some k" "events q' = evs"
      using p queue_ok_head(1) [OF q]
      by (auto simp: poll_event_encoded_def split: list.splits option.splits prod.splits sum.splits)
    let ?e = "e\<lparr>queue := q'\<rparr>"
    let ?cc = "ConnectionClosed (event_conn ev) H3_INTERNAL_ERROR"
    let ?c = "if hm_get (id_to_handle ?e) (event_conn ev) \<noteq> None then
        close_conn (event_conn ev) H3_INTERNAL_ERROR (str_lit ''host reservation token space exhausted'') now ?e
      else ep_push_event ?cc ?e"
    have "length (events (queue ?e)) < MAX_PENDING_EVENTS"
      using q ev by (simp add: queue_ok_def)
    then have "events (queue ?c) = evs @ [?cc]"
      using queued_close_conn [of ?e "event_conn ev"] queued_push [of ?e ?cc] ev(3) by auto
    then have "\<exists>xs. events (queue (resume_waiting_after_capacity_change huff now ?c)) = (evs @ [?cc]) @ xs"
      by (intro appended.stable_wakes) simp_all
    then obtain xs where "events (queue (resume_waiting_after_capacity_change huff now ?c)) = evs @ ?cc # xs"
      by auto
    then show thesis
      using goes_on [of _ ev evs k ?cc xs] p Poll_Lost ev by (simp add: poll_encoded_round_def Let_def)
  next
    case Poll_Diverges
    with q p have False
      using queue_ok_poll_encoded(2) [OF q] by simp
    then show thesis ..
  qed (use returns p in \<open>simp_all add: poll_encoded_round_def\<close>)
qed

lemma poll_bounded:
  assumes "ep_ok l e" and "events (queue e) = pre @ cc # xs" and "event_kind cc = None"
  shows "snd (ep_poll_event_encoded (Suc (length pre)) huff now e) \<noteq> None"
  using assms
proof (induction pre arbitrary: e xs)
  case Nil
  show ?case
    by (cases rule: poll_round_cases [OF Nil(1), of huff now]) (use Nil in auto)
next
  case (Cons a pre)
  show ?case
  proof (cases rule: poll_round_cases [OF Cons.prems(1), of huff now])
    case (2 ev k evs e' cc' ys)
    have "ep_ok l e'"
      using ep_sound.stable_poll_round [OF Cons.prems(1), of huff now] 2(1) by simp
    then show ?thesis
      using Cons.IH [of e' "xs @ cc' # ys"] Cons.prems 2 by simp
  qed simp
qed

text \<open>
  C8. Polling an encoded event always returns, even when no host token is free: a payload that cannot be
  delivered closes its connection, the notice needs no token, and nothing is put before it. 65537
  rounds are enough.
\<close>

theorem poll_encoded_returns:
  assumes "ep_reachable huff l e"
  shows "\<exists>e' r. ep_poll_event_encoded (MAX_PENDING_EVENTS + 1) huff now e = (e', Some r)"
proof -
  have ok: "ep_ok l e"
    by (rule ep_ok_reachable [OF assms])
  have mono: "snd (ep_poll_event_encoded n huff now e) \<noteq> None \<Longrightarrow> n \<le> m \<Longrightarrow>
      snd (ep_poll_event_encoded m huff now e) \<noteq> None" for n m e
  proof (induction n arbitrary: m e)
    case (Suc n)
    then show ?case
      by (cases m) (auto split: prod.splits round.splits)
  qed simp
  have "snd (ep_poll_event_encoded (Suc MAX_PENDING_EVENTS) huff now e) \<noteq> None"
  proof (cases rule: poll_round_cases [OF ok, of huff now])
    case (2 ev k evs e' cc xs)
    have "ep_ok l e'"
      using ep_sound.stable_poll_round [OF ok, of huff now] 2(1) by simp
    then have "snd (ep_poll_event_encoded (Suc (length evs)) huff now e') \<noteq> None"
      using 2 poll_bounded by blast
    moreover have "Suc (length evs) \<le> MAX_PENDING_EVENTS"
      using ok 2(2) by (simp add: ep_ok_def ep_bal_def queue_ok_def)
    ultimately have "snd (ep_poll_event_encoded MAX_PENDING_EVENTS huff now e') \<noteq> None"
      by (rule mono)
    then show ?thesis
      using 2(1) by simp
  qed simp
  then show ?thesis
    by (cases "ep_poll_event_encoded (Suc MAX_PENDING_EVENTS) huff now e") auto
qed

end
