(* ===== verification/Endpoint_Delivery.thy ===== *)
theory Endpoint_Delivery
  imports Endpoint_Safety
begin

text \<open>
  Delivery of stream data: what quinn hands out for a stream reaches the event queue whole, in order
  and once, with its end. The reading loops ask for room first and read no more than the governor
  will grant, so no data they push is refused. A reset by the peer is pushed after them without asking
  again, so on a queue that the read has filled it is lost.
\<close>

section \<open>What a stream carries\<close>

text \<open>The bytes of an answer and of an event, the end of the stream, and its reset with the code of the application.\<close>

datatype stream_item = Byte_Item byte | End_Item | Reset_Item u32

fun answer_trace :: "read_answer \<Rightarrow> stream_item list" where
  "answer_trace (Chunk c) = map Byte_Item c"
| "answer_trace End_Of_Stream = [End_Item]"
| "answer_trace (Reset_By_Peer code) = [Reset_Item (unmap_wt_app_error code)]"
| "answer_trace _ = []"

fun event_trace :: "u32 \<Rightarrow> u32 \<Rightarrow> wt_event \<Rightarrow> stream_item list" where
  "event_trace conn wh (StreamData c w fin data) =
     (if c = conn \<and> w = wh then map Byte_Item data @ (if fin then [End_Item] else []) else [])"
| "event_trace conn wh (StreamReset c w code) = (if c = conn \<and> w = wh then [Reset_Item code] else [])"
| "event_trace conn wh _ = []"

text \<open>The same without resets: a byte, or \<^term>\<open>None\<close> for the end.\<close>

fun answer_items :: "read_answer \<Rightarrow> byte option list" where
  "answer_items (Chunk c) = map Some c"
| "answer_items End_Of_Stream = [None]"
| "answer_items _ = []"

fun event_items :: "u32 \<Rightarrow> u32 \<Rightarrow> wt_event \<Rightarrow> byte option list" where
  "event_items conn wh (StreamData c w fin data) =
     (if c = conn \<and> w = wh then map Some data @ (if fin then [None] else []) else [])"
| "event_items conn wh _ = []"

definition reads_left :: "conn_handle \<Rightarrow> stream_id \<Rightarrow> wt_endpoint \<Rightarrow> read_answer list" where
  "reads_left h sid e =
     (case hm_get (conns e) h of
        None \<Rightarrow> []
      | Some c \<Rightarrow> (case hm_get (q_reads c) sid of Some a \<Rightarrow> a | None \<Rightarrow> []))"

definition incoming :: "conn_handle \<Rightarrow> stream_id \<Rightarrow> wt_endpoint \<Rightarrow> byte option list" where
  "incoming h sid e = concat (map answer_items (reads_left h sid e))"

definition queued_items :: "u32 \<Rightarrow> u32 \<Rightarrow> wt_endpoint \<Rightarrow> byte option list" where
  "queued_items conn wh e = concat (map (event_items conn wh) (events (queue e)))"

definition incoming_trace :: "conn_handle \<Rightarrow> stream_id \<Rightarrow> wt_endpoint \<Rightarrow> stream_item list" where
  "incoming_trace h sid e = concat (map answer_trace (reads_left h sid e))"

definition queued_trace :: "u32 \<Rightarrow> u32 \<Rightarrow> wt_endpoint \<Rightarrow> stream_item list" where
  "queued_trace conn wh e = concat (map (event_trace conn wh) (events (queue e)))"

fun reset_trace :: "read_outcome \<Rightarrow> stream_item list" where
  "reset_trace (Reset code) = [Reset_Item (unmap_wt_app_error code)]"
| "reset_trace _ = []"

abbreviation outcome_trace :: "read_outcome \<Rightarrow> stream_item list" where
  "outcome_trace oc \<equiv> (if oc = Finished then [End_Item] else []) @ reset_trace oc"

fun data_item :: "stream_item \<Rightarrow> byte option list" where
  "data_item (Byte_Item b) = [Some b]"
| "data_item End_Item = [None]"
| "data_item (Reset_Item _) = []"

lemma items_of_trace:
  "answer_items a = concat (map data_item (answer_trace a))"
  "event_items conn wh ev = concat (map data_item (event_trace conn wh ev))"
  "concat (map data_item (reset_trace oc)) = []"
proof -
  have bytes: "concat (map (data_item \<circ> Byte_Item) c) = map Some c" for c
    by (induction c) auto
  show "answer_items a = concat (map data_item (answer_trace a))"
    by (cases a) (simp_all add: bytes)
  show "event_items conn wh ev = concat (map data_item (event_trace conn wh ev))"
    by (cases ev) (auto simp: bytes)
  show "concat (map data_item (reset_trace oc)) = []"
    by (cases oc) simp_all
qed

lemma data_of_concat: "concat (map f (concat (map g xs))) = concat (map (\<lambda>x. concat (map f (g x))) xs)"
  by (induction xs) auto

lemma data_of_trace:
  "incoming h sid e = concat (map data_item (incoming_trace h sid e))"
  "queued_items conn wh e = concat (map data_item (queued_trace conn wh e))"
  by (simp_all add: incoming_def incoming_trace_def queued_items_def queued_trace_def data_of_concat items_of_trace [symmetric])

section \<open>Reading\<close>

lemma map_take_drop: "map f (take n c) @ map f (drop n c) @ ys = map f c @ ys"
  by (metis append_assoc append_take_drop_id map_append)

lemma read_chunks_items:
  "read_chunks room out ans = (data, oc, rest) \<Longrightarrow> Closed_Stream \<notin> set ans \<Longrightarrow>
     map Byte_Item data @ outcome_trace oc @ concat (map answer_trace rest) = map Byte_Item out @ concat (map answer_trace ans) \<and>
     length data \<le> length out + room \<and> Closed_Stream \<notin> set rest"
proof (induction room out ans rule: read_chunks.induct)
  case (2 room out a rest')
  show ?case
  proof (cases a)
    case (Chunk c)
    show ?thesis
    proof (cases "room = 0 \<or> c = [] \<or> length c > room")
      case True
      then show ?thesis
        using 2(2,3) Chunk by (auto simp: map_take_drop split: if_splits)
    next
      case False
      then show ?thesis
        using 2(1) [OF _ Chunk] 2(2,3) Chunk by auto
    qed
  qed (use 2(2,3) in \<open>auto split: if_splits\<close>)
qed auto

lemma read_stream_items:
  assumes "read_stream limit ans = (data, oc, rest)" and "Closed_Stream \<notin> set ans"
  shows "map Byte_Item data @ outcome_trace oc @ concat (map answer_trace rest) = concat (map answer_trace ans)"
    and "length data \<le> limit" and "Closed_Stream \<notin> set rest"
proof -
  have "map Byte_Item data @ outcome_trace oc @ concat (map answer_trace rest) = concat (map answer_trace ans) \<and>
      length data \<le> limit \<and> Closed_Stream \<notin> set rest"
    using assms read_chunks_items [of limit "[]" ans data oc rest]
    by (auto simp: read_stream_def split: list.splits read_answer.splits if_splits)
  then show "map Byte_Item data @ outcome_trace oc @ concat (map answer_trace rest) = concat (map answer_trace ans)"
    and "length data \<le> limit" and "Closed_Stream \<notin> set rest"
    by blast+
qed

lemma conn_read_items:
  assumes "conn_read h sid limit e = (e1, data, oc)" and "Closed_Stream \<notin> set (reads_left h sid e)"
  shows "map Byte_Item data @ outcome_trace oc @ incoming_trace h sid e1 = incoming_trace h sid e"
    and "length data \<le> limit" and "Closed_Stream \<notin> set (reads_left h sid e1)"
    and "queue e1 = queue e" and "sessions e1 = sessions e" and "handle_to_id e1 = handle_to_id e"
proof -
  have "map Byte_Item data @ outcome_trace oc @ incoming_trace h sid e1 = incoming_trace h sid e \<and>
      length data \<le> limit \<and> Closed_Stream \<notin> set (reads_left h sid e1) \<and>
      queue e1 = queue e \<and> sessions e1 = sessions e \<and> handle_to_id e1 = handle_to_id e"
    using assms read_stream_items [of limit "reads_left h sid e" data oc]
    by (auto simp: conn_read_def incoming_trace_def reads_left_def quinn_def split: option.splits prod.splits)
  then show "map Byte_Item data @ outcome_trace oc @ incoming_trace h sid e1 = incoming_trace h sid e"
    and "length data \<le> limit" and "Closed_Stream \<notin> set (reads_left h sid e1)"
    and "queue e1 = queue e" and "sessions e1 = sessions e" and "handle_to_id e1 = handle_to_id e"
    by blast+
qed

section \<open>Pushing what was read\<close>

lemma limits_valid: "ep_reachable huff l e \<Longrightarrow> wasm_limits_validate l = Inr ()"
  by (induction rule: ep_reachable.induct) (auto simp: build_def governor_new_def split: sum.splits if_splits)

lemma read_data_fits:
  assumes "ep_ok l e" and "wasm_limits_validate l = Inr ()" and "max_queued_bytes_global l \<le> usize_MAX"
    and "has_event_slot_capacity slots (queue e)" and "slots \<noteq> 0"
    and "length data \<le> available_event_bytes conn (Some wh) (governor (queue e))" and "data \<noteq> [] \<or> fin"
  shows "events (queue (ep_push_event (StreamData conn wh fin data) e)) = events (queue e) @ [StreamData conn wh fin data]"
proof -
  have "gov_ok l (governor (queue e), held e + queued_kinds (events (queue e)))"
    using assms(1) by (simp add: ep_ok_def ep_bal_def queue_ok_def)
  moreover have "stream_event_charge data fin \<le> available_event_bytes conn (Some wh) (governor (queue e))"
    using assms(6,7) by (cases data) (auto simp: stream_event_charge_def)
  ultimately obtain g r where "reserve_event_bytes conn (Some wh) (stream_event_charge data fin) (governor (queue e)) = (g, Inr r)"
    using reserve_iff_available assms(2,3) by blast
  then show ?thesis
    using assms(4,5)
    by (auto simp: ep_push_event_def push_event_def try_push_event_def has_event_slot_capacity_def sat_add_def
        MAX_PENDING_EVENTS_def usize_MAX_def split: if_splits)
qed

section \<open>The reading loops\<close>

lemma items_push:
  "reads_left h sid (ep_push_event ev e) = reads_left h sid e"
  "incoming_trace h sid (ep_push_event ev e) = incoming_trace h sid e"
  "event_trace conn wh ev = [] \<Longrightarrow> queued_trace conn wh (ep_push_event ev e) = queued_trace conn wh e"
  "handle_to_id (ep_push_event ev e) = handle_to_id e"
  by (auto simp: incoming_trace_def reads_left_def queued_trace_def ep_push_event_def push_event_def try_push_event_def
      split: prod.split sum.split)

lemma items_frame [simp]:
  "incoming_trace h sid (set_last_error err e) = incoming_trace h sid e"
  "incoming_trace h sid (enqueue_capacity_waiter h' e) = incoming_trace h sid e"
  "incoming_trace h sid (upd_session h' g e) = incoming_trace h sid e"
  "incoming_trace h sid (mark_stream_half_done wh' half e) = incoming_trace h sid e"
  "incoming_trace h sid (unpause wh' e) = incoming_trace h sid e"
  "queued_trace conn wh (set_last_error err e) = queued_trace conn wh e"
  "queued_trace conn wh (enqueue_capacity_waiter h' e) = queued_trace conn wh e"
  "queued_trace conn wh (upd_session h' g e) = queued_trace conn wh e"
  "queued_trace conn wh (mark_stream_half_done wh' half e) = queued_trace conn wh e"
  "queued_trace conn wh (unpause wh' e) = queued_trace conn wh e"
  by (simp_all add: incoming_trace_def reads_left_def queued_trace_def mark_stream_half_done_def set_last_error_def
      enqueue_capacity_waiter_def upd_session_def remove_stream_reservation_def unpause_def index_remove_def
      upd_governor_def Let_def split: option.split)

lemma delivered_read:
  assumes "ep_ok l e" and "wasm_limits_validate l = Inr ()" and "max_queued_bytes_global l \<le> usize_MAX"
    and "has_event_slot_capacity slots (queue e)" and "slots \<noteq> 0"
    and "length data \<le> available_event_bytes conn (Some wh) (governor (queue e))"
  shows "queued_trace conn wh (if data \<noteq> [] \<or> fin then ep_push_event (StreamData conn wh fin data) e else e)
    = queued_trace conn wh e @ map Byte_Item data @ (if fin then [End_Item] else [])"
  using read_data_fits [OF assms, of fin] by (auto simp: queued_trace_def)

definition pending_trace :: "read_outcome option \<Rightarrow> stream_item list" where
  "pending_trace r = (case r of Some oc \<Rightarrow> reset_trace oc | None \<Rightarrow> [])"

lemma self_bidi_items:
  assumes "ep_ok l e" and "wasm_limits_validate l = Inr ()" and "max_queued_bytes_global l \<le> usize_MAX"
    and "Closed_Stream \<notin> set (reads_left h sid e)" and "self_bidi_batches n h sid wh conn e = (e', r)"
  shows "queued_trace conn wh e' @ pending_trace r @ incoming_trace h sid e' = queued_trace conn wh e @ incoming_trace h sid e"
  using assms
proof (induction n arbitrary: e)
  case (Suc n)
  let ?limit = "available_event_bytes conn (Some wh) (governor (queue e))"
  obtain e1 data oc where read: "conn_read h sid ?limit e = (e1, data, oc)"
    using prod_cases3 by blast
  note r = conn_read_items [OF read Suc.prems(4)]
  have ok1: "ep_ok l e1"
    using ep_sound.stable_conn_read [OF TrueI Suc.prems(1), of h sid ?limit] read by simp
  let ?e2 = "if data \<noteq> [] \<or> oc = Finished then ep_push_event (StreamData conn wh (oc = Finished) data) e1 else e1"
  have ok2: "ep_ok l ?e2" and clean: "Closed_Stream \<notin> set (reads_left h sid ?e2)"
    using ep_sound.stable_push [OF ok1] r(3) ok1 by (auto simp: items_push)
  show ?case
  proof (cases "has_event_slot_capacity 1 (queue e)")
    case True
    then have "queued_trace conn wh ?e2 @ reset_trace oc @ incoming_trace h sid ?e2 = queued_trace conn wh e @ incoming_trace h sid e"
      using delivered_read [OF ok1 Suc.prems(2,3), of 1 data conn wh "oc = Finished"] r
      by (auto simp: queued_trace_def items_push(2))
    then show ?thesis
      using Suc.IH [OF ok2 Suc.prems(2,3) clean] Suc.prems(5) read True r
      by (auto simp: Let_def should_emit_self_bidi_chunk_def should_backpressure_zero_progress_read_def
          should_stop_read_batch_def pending_trace_def split: if_splits)
  qed (use Suc.prems(5) in \<open>auto simp: pending_trace_def\<close>)
qed (auto simp: pending_trace_def)

text \<open>A stream of the peer that has its handle, with no byte held back by the parser.\<close>

definition opened_stream :: "in_stream \<Rightarrow> u32 \<Rightarrow> bool" where
  "opened_stream st wh \<longleftrightarrow>
     (\<exists>k. is_kind st = Some k \<and> classify_peer_stream_kind k (is_bidi st) = Class_WebTransport) \<and>
     is_sid_read st \<and> is_handle st = Some wh \<and> is_buf st = []"

lemma opened_kind:
  assumes "opened_stream st wh"
  obtains k where "is_kind st = Some k" "k = stream_type_WT_UNI \<or> k = frame_WT_BIDI"
    "required_slots_for_in_stream (is_kind st) (is_bidi st) (is_handle st \<noteq> None) = 1"
  using assms by (auto simp: opened_stream_def classify_peer_stream_kind_def split: if_splits)

lemma process_opened:
  assumes "hm_get (handle_to_id e) h = Some conn" and "in_stream_of h sid e = Some st" and "opened_stream st wh"
  shows "process_in_stream huff h sid data fin now e =
    (if data \<noteq> [] \<or> fin then ep_push_event (StreamData conn wh fin data) (put_in_stream h sid st e)
     else put_in_stream h sid st e)"
proof -
  obtain s k where "hm_get (sessions e) h = Some s" "hm_get (in_streams s) sid = Some st" "is_kind st = Some k"
      "classify_peer_stream_kind k (is_bidi st) = Class_WebTransport"
    using assms by (auto simp: in_stream_of_def opened_stream_def bind_eq_Some_conv)
  then have "process_in_stream huff h sid data fin now e =
      (if data \<noteq> [] \<or> fin then ep_push_event (StreamData conn wh fin data) (put_in_stream h sid (st\<lparr>is_buf := []\<rparr>) e)
       else put_in_stream h sid (st\<lparr>is_buf := []\<rparr>) e)"
    using assms
    by (simp add: process_in_stream_def opened_stream_def route_in_stream_def decode_kind_def route_wt_def
        should_emit_stream_payload_def put_in_stream_def upd_session_def)
  moreover have unchanged: "st\<lparr>is_buf := []\<rparr> = st"
    using assms(3) by (simp add: opened_stream_def)
  ultimately show ?thesis
    by (simp only: unchanged)
qed

lemma put_opened:
  assumes "in_stream_of h sid e = Some st"
  shows "in_stream_of h sid (put_in_stream h sid st e) = Some st"
    and "in_stream_of h sid (ep_push_event ev e) = Some st"
  using assms by (auto simp: in_stream_of_def put_in_stream_def upd_session_def ep_push_event_def bind_eq_Some_conv)

lemma waiting_frame [simp]:
  "in_stream_of h sid (enqueue_capacity_waiter h' e) = in_stream_of h sid e"
  "in_stream_of h sid (set_last_error err e) = in_stream_of h sid e"
  "handle_to_id (enqueue_capacity_waiter h' e) = handle_to_id e"
  "handle_to_id (set_last_error err e) = handle_to_id e"
  by (simp_all add: in_stream_of_def enqueue_capacity_waiter_def set_last_error_def split: option.split)

lemma limit_opened:
  assumes "hm_get (handle_to_id e) h = Some conn" and "in_stream_of h sid e = Some st" and "opened_stream st wh"
  shows "in_stream_read_limit h sid e = available_event_bytes conn (Some wh) (governor (queue e))"
proof -
  obtain k where "is_kind st = Some k" "k = stream_type_WT_UNI \<or> k = frame_WT_BIDI"
    using opened_kind [OF assms(3)] by blast
  then show ?thesis
    using assms by (simp add: in_stream_read_limit_def opened_stream_def)
qed

lemma items_put [simp]:
  "incoming_trace h sid (put_in_stream h' sid' st e) = incoming_trace h sid e"
  "reads_left h sid (put_in_stream h' sid' st e) = reads_left h sid e"
  "queued_trace conn wh (put_in_stream h' sid' st e) = queued_trace conn wh e"
  "handle_to_id (put_in_stream h' sid' st e) = handle_to_id e"
  "queue (put_in_stream h' sid' st e) = queue e"
  by (simp_all add: put_in_stream_def incoming_trace_def reads_left_def queued_trace_def upd_session_def)

lemma in_stream_items:
  assumes "ep_ok l e" and "wasm_limits_validate l = Inr ()" and "max_queued_bytes_global l \<le> usize_MAX"
    and "Closed_Stream \<notin> set (reads_left h sid e)" and "hm_get (handle_to_id e) h = Some conn"
    and "in_stream_of h sid e = Some st" and "opened_stream st wh"
    and "in_stream_batches n huff h sid slots now e = (e', r)" and "slots \<noteq> 0"
  shows "queued_trace conn wh e' @ pending_trace r @ incoming_trace h sid e' = queued_trace conn wh e @ incoming_trace h sid e
    \<and> hm_get (handle_to_id e') h = Some conn \<and> in_stream_of h sid e' = Some st"
  using assms(1,4,5,6,8)
proof (induction n arbitrary: e)
  case (Suc n)
  let ?limit = "available_event_bytes conn (Some wh) (governor (queue e))"
  obtain e1 data oc where read: "conn_read h sid ?limit e = (e1, data, oc)"
    using prod_cases3 by blast
  note r = conn_read_items [OF read Suc.prems(2)]
  note limit = limit_opened [OF Suc.prems(3,4) assms(7)]
  have st1: "in_stream_of h sid e1 = Some st" and id1: "hm_get (handle_to_id e1) h = Some conn"
    using Suc.prems(3,4) r(5,6) by (simp_all add: in_stream_of_def)
  have ok1: "ep_ok l (put_in_stream h sid st e1)"
    using ep_sound.stable_conn_read [OF TrueI Suc.prems(1), of h sid ?limit] read
      ep_sound.upd_session [OF TrueI, of l e1] by (simp add: put_in_stream_def)
  let ?e2 = "process_in_stream huff h sid data (oc = Finished) now e1"
  have same: "queued_trace conn wh e1 = queued_trace conn wh e"
    using r(4) by (simp add: queued_trace_def)
  note process = process_opened [OF id1 st1 assms(7), of huff data "oc = Finished" now]
  have ok2: "ep_ok l ?e2" and clean: "Closed_Stream \<notin> set (reads_left h sid ?e2)"
    and id2: "hm_get (handle_to_id ?e2) h = Some conn" and st2: "in_stream_of h sid ?e2 = Some st"
    using ep_sound.stable_push [OF ok1] r(3) ok1 id1 put_opened [OF st1] put_opened [OF put_opened(1) [OF st1]]
    by (auto simp: process items_push)
  show ?case
  proof (cases "has_event_slot_capacity slots (queue e)")
    case True
    then have "queued_trace conn wh ?e2 @ reset_trace oc @ incoming_trace h sid ?e2 = queued_trace conn wh e @ incoming_trace h sid e"
      using delivered_read [OF ok1 assms(2,3), of slots data conn wh "oc = Finished"] assms(9) r
      by (auto simp: queued_trace_def process items_push(2))
    then show ?thesis
      using Suc.IH [OF ok2 clean id2 st2] Suc.prems(5) read True r(1) limit same id1 st1 id2 st2
      by (auto simp: Let_def should_wait_for_event_slots_def should_backpressure_zero_progress_read_def
          should_stop_read_batch_def pending_trace_def split: if_splits)
  qed (use Suc.prems assms(9) in \<open>auto simp: should_wait_for_event_slots_def pending_trace_def\<close>)
qed (auto simp: pending_trace_def)

lemma items_retire [simp]:
  "incoming_trace h sid (retire_in_stream h' sid' e) = incoming_trace h sid e"
  "queued_trace conn wh (retire_in_stream h' sid' e) = queued_trace conn wh e"
  "incoming_trace h sid (emit_stream_reset h' sid' code e) = incoming_trace h sid e"
  "events (queue (retire_in_stream h' sid' e)) = events (queue e)"
  "events (queue (unpause wh' e)) = events (queue e)"
  "events (queue (mark_stream_half_done wh' half e)) = events (queue e)"
proof -
  have paused: "events (queue (unpause wh e)) = events (queue e)" for wh e
    by (simp add: unpause_def)
  then have half: "events (queue (mark_stream_half_done wh half e)) = events (queue e)" for wh half e
    by (simp add: mark_stream_half_done_def queued_simps Let_def)
  show "events (queue (unpause wh' e)) = events (queue e)"
    "events (queue (mark_stream_half_done wh' half e)) = events (queue e)"
    "events (queue (retire_in_stream h' sid' e)) = events (queue e)"
    by (simp_all add: retire_in_stream_def paused half queued_simps Let_def split: option.split)
  show "incoming_trace h sid (retire_in_stream h' sid' e) = incoming_trace h sid e"
    "queued_trace conn wh (retire_in_stream h' sid' e) = queued_trace conn wh e"
    "incoming_trace h sid (emit_stream_reset h' sid' code e) = incoming_trace h sid e"
    by (simp_all add: retire_in_stream_def emit_stream_reset_def items_push Let_def split: option.split)
qed

text \<open>A reset is pushed without a look at the queue: it arrives, or the queue is full.\<close>

lemma reset_pushed:
  assumes "ep_ok l e"
  obtains "queued_trace conn wh (ep_push_event (StreamReset conn wh code) e) = queued_trace conn wh e @ [Reset_Item code]"
  | "queued_trace conn wh (ep_push_event (StreamReset conn wh code) e) = queued_trace conn wh e"
    "length (events (queue (ep_push_event (StreamReset conn wh code) e))) = MAX_PENDING_EVENTS"
proof (cases "length (events (queue e)) < MAX_PENDING_EVENTS")
  case True
  then show thesis
    using that(1) queued_push [of e "StreamReset conn wh code"] by (simp add: queued_trace_def)
next
  case False
  then have "length (events (queue e)) = MAX_PENDING_EVENTS"
    using assms by (simp add: ep_ok_def ep_bal_def queue_ok_def)
  then show thesis
    using that(2) by (simp add: queued_trace_def ep_push_event_def push_event_def try_push_event_def)
qed

lemma read_one_in_stream:
  assumes "hm_get (sessions e) h = Some s" and "hm_get (in_streams s) sid = Some st" and "\<not> is_wt_connect sid s"
    and "hm_get (pending_client_connects s) sid = None"
    and "in_stream_batches MAX_READ_BATCHES_PER_PUMP huff h sid (required_event_slots_for_read h sid e) now e = (e', r)"
  shows "read_one huff h sid now e = (case r of None \<Rightarrow> e' | Some Finished \<Rightarrow> retire_in_stream h sid e'
    | Some (Reset code) \<Rightarrow> retire_in_stream h sid (emit_stream_reset h sid (unmap_wt_app_error code) e') | Some Open \<Rightarrow> e')"
proof -
  have "read_one huff h sid now e = read_in_stream huff h sid now s e"
    using assms(1,2,3,4) by (simp add: read_one_def is_wt_connect_def)
  also have "\<dots> = (case r of None \<Rightarrow> e' | Some Finished \<Rightarrow> retire_in_stream h sid e'
      | Some (Reset code) \<Rightarrow> retire_in_stream h sid (emit_stream_reset h sid (unmap_wt_app_error code) e') | Some Open \<Rightarrow> e')"
    using assms(3,5) by (simp add: read_in_stream_def split: option.split read_outcome.split)
  finally show ?thesis .
qed

text \<open>The end of a read, with the outcome of its last batch.\<close>

definition report_reset :: "u32 \<Rightarrow> u32 \<Rightarrow> read_outcome option \<Rightarrow> wt_endpoint \<Rightarrow> wt_endpoint" where
  "report_reset conn wh r e =
     (case r of Some (Reset code) \<Rightarrow> ep_push_event (StreamReset conn wh (unmap_wt_app_error code)) e | _ \<Rightarrow> e)"

lemma delivered_outcome:
  assumes "ep_ok l e" and "queued_trace conn wh e @ pending_trace r @ incoming_trace h sid e = t"
    and "events (queue e') = events (queue (report_reset conn wh r e))" and "incoming_trace h sid e' = incoming_trace h sid e"
  shows "\<exists>lost. queued_trace conn wh e' @ lost @ incoming_trace h sid e' = t \<and>
    (lost = [] \<or> (\<exists>code. lost = [Reset_Item code]) \<and> length (events (queue e')) = MAX_PENDING_EVENTS)"
proof -
  have q: "queued_trace conn wh e' = queued_trace conn wh (report_reset conn wh r e)"
    using assms(3) by (simp add: queued_trace_def)
  consider (reset) code where "r = Some (Reset code)" | (other) "pending_trace r = []" "report_reset conn wh r e = e"
    by (cases r; cases "the r") (auto simp: pending_trace_def report_reset_def)
  then show ?thesis
  proof cases
    case reset
    then have "report_reset conn wh r e = ep_push_event (StreamReset conn wh (unmap_wt_app_error code)) e"
      and "pending_trace r = [Reset_Item (unmap_wt_app_error code)]"
      by (simp_all add: report_reset_def pending_trace_def)
    then show ?thesis
      using assms(2-4) q by (cases rule: reset_pushed [OF assms(1), of conn wh "unmap_wt_app_error code"]) auto
  qed (use assms(2,4) q in auto)
qed

lemma reported_bidi:
  "events (queue (case r of None \<Rightarrow> e | Some oc \<Rightarrow> on_self_bidi_read_outcome h sid wh conn oc e))
     = events (queue (report_reset conn wh r e))"
  "incoming_trace h sid (case r of None \<Rightarrow> e | Some oc \<Rightarrow> on_self_bidi_read_outcome h sid wh conn oc e) = incoming_trace h sid e"
  by (cases r; cases "the r"; simp add: report_reset_def forget_self_bidi_def queued_simps items_push)+

lemma reported_in:
  assumes "hm_get (handle_to_id e) h = Some conn" and "in_stream_of h sid e = Some st" and "opened_stream st wh"
  shows "events (queue (case r of None \<Rightarrow> e | Some Finished \<Rightarrow> retire_in_stream h sid e
      | Some (Reset code) \<Rightarrow> retire_in_stream h sid (emit_stream_reset h sid (unmap_wt_app_error code) e) | Some Open \<Rightarrow> e))
    = events (queue (report_reset conn wh r e))"
    and "incoming_trace h sid (case r of None \<Rightarrow> e | Some Finished \<Rightarrow> retire_in_stream h sid e
      | Some (Reset code) \<Rightarrow> retire_in_stream h sid (emit_stream_reset h sid (unmap_wt_app_error code) e) | Some Open \<Rightarrow> e)
    = incoming_trace h sid e"
proof -
  have "stream_handle_for h sid e = Some wh"
    using assms(2,3) by (auto simp: stream_handle_for_def in_stream_of_def opened_stream_def bind_eq_Some_conv)
  then have "emit_stream_reset h sid code e = ep_push_event (StreamReset conn wh code) e" for code
    using assms(1) by (simp add: emit_stream_reset_def)
  then show "events (queue (case r of None \<Rightarrow> e | Some Finished \<Rightarrow> retire_in_stream h sid e
      | Some (Reset code) \<Rightarrow> retire_in_stream h sid (emit_stream_reset h sid (unmap_wt_app_error code) e) | Some Open \<Rightarrow> e))
    = events (queue (report_reset conn wh r e))"
    by (simp add: report_reset_def split: option.split read_outcome.split)
qed (simp split: option.split read_outcome.split)

text \<open>The bytes alone, which a reset does not concern.\<close>

lemma in_stream_data:
  assumes "ep_ok l e" and "wasm_limits_validate l = Inr ()" and "max_queued_bytes_global l \<le> usize_MAX"
    and "Closed_Stream \<notin> set (reads_left h sid e)" and "hm_get (handle_to_id e) h = Some conn"
    and "in_stream_of h sid e = Some st" and "opened_stream st wh"
    and "in_stream_batches n huff h sid slots now e = (e', r)" and "slots \<noteq> 0"
  shows "queued_items conn wh e' @ incoming h sid e' = queued_items conn wh e @ incoming h sid e"
proof -
  have "concat (map data_item (pending_trace r)) = []"
    using items_of_trace(3) by (cases r) (simp_all add: pending_trace_def)
  then show ?thesis
    using arg_cong [OF in_stream_items [OF assms, THEN conjunct1], of "\<lambda>t. concat (map data_item t)"]
    by (simp add: data_of_trace del: concat_eq_Nil_conv)
qed

lemma data_frame [simp]:
  "incoming h sid (retire_in_stream h' sid' e) = incoming h sid e"
  "queued_items conn wh (retire_in_stream h' sid' e) = queued_items conn wh e"
  "incoming h sid (emit_stream_reset h' sid' code e) = incoming h sid e"
  "queued_items conn wh (emit_stream_reset h' sid' code e) = queued_items conn wh e"
proof -
  have push: "queued_items conn wh (ep_push_event (StreamReset c w code) e) = queued_items conn wh e" for c w
    by (auto simp: queued_items_def ep_push_event_def push_event_def try_push_event_def split: prod.split sum.split)
  show "queued_items conn wh (emit_stream_reset h' sid' code e) = queued_items conn wh e"
    by (simp add: emit_stream_reset_def push split: option.split)
qed (simp_all add: data_of_trace)

text \<open>
  C2. Stream data arrives whole, in order and once. For a stream with a handle (opened by the peer, or the
  reply half of one opened here) what quinn still has to hand out follows what the event queue holds for
  that stream, and a read moves bytes, the end of the stream and its reset from the front of the one to
  the end of the other: the concatenation of both is the same before and after, with one exception. A
  reset by the peer is pushed without a second look at the queue, so when the data before it took the
  last place, the reset, and nothing else, is lost. This needs a reachable endpoint whose byte limit fits
  \<^verbatim>\<open>usize\<close>, and a stream that quinn does not report as already closed.
\<close>

theorem stream_delivery:
  assumes "ep_reachable huff l e" and "max_queued_bytes_global l \<le> usize_MAX"
    and "hm_get (handle_to_id e) h = Some conn" and "hm_get (sessions e) h = Some s"
    and "Closed_Stream \<notin> set (reads_left h sid e)" and "\<not> is_wt_connect sid s" and "hm_get (pending_client_connects s) sid = None"
    and "case hm_get (in_streams s) sid of
        Some st \<Rightarrow> hm_get (self_bidi s) sid = None \<and> opened_stream st wh
      | None \<Rightarrow> hm_get (self_bidi s) sid = Some wh"
  shows "\<exists>lost. queued_trace conn wh (read_one huff h sid now e) @ lost @ incoming_trace h sid (read_one huff h sid now e)
      = queued_trace conn wh e @ incoming_trace h sid e \<and>
    (lost = [] \<or> (\<exists>code. lost = [Reset_Item code])
       \<and> length (events (queue (read_one huff h sid now e))) = MAX_PENDING_EVENTS)"
proof -
  note lim = ep_ok_reachable [OF assms(1)] limits_valid [OF assms(1)] assms(2,5)
  show ?thesis
  proof (cases "hm_get (in_streams s) sid")
    case None
    obtain e' r where b: "self_bidi_batches MAX_READ_BATCHES_PER_PUMP h sid wh conn e = (e', r)"
      by fastforce
    have ok: "ep_ok l e'"
      using ep_sound.stable_bidi_batches [OF TrueI lim(1), of MAX_READ_BATCHES_PER_PUMP h sid wh conn] b by simp
    have "read_one huff h sid now e = read_self_bidi h sid wh e"
      using assms(4,6,7,8) None by (simp add: read_one_def is_wt_connect_def)
    also have "\<dots> = (case r of None \<Rightarrow> e' | Some oc \<Rightarrow> on_self_bidi_read_outcome h sid wh conn oc e')"
      using assms(3) b by (simp add: read_self_bidi_def split: option.split)
    finally have "read_one huff h sid now e = \<dots>" .
    then show ?thesis
      using delivered_outcome [OF ok self_bidi_items [OF lim b] reported_bidi] by simp
  next
    case (Some st)
    then have st: "in_stream_of h sid e = Some st" "opened_stream st wh"
      using assms(4,8) by (simp_all add: in_stream_of_def)
    have "required_slots_for_in_stream (is_kind st) (is_bidi st) (is_handle st \<noteq> None) = 1"
      by (rule opened_kind [OF st(2)])
    then have slots: "required_event_slots_for_read h sid e = 1"
      using assms(4,8) Some by (simp add: required_event_slots_for_read_def)
    obtain e' r where b: "in_stream_batches MAX_READ_BATCHES_PER_PUMP huff h sid 1 now e = (e', r)"
      by fastforce
    have ok: "ep_ok l e'"
      using ep_sound.stable_in_batches [OF TrueI lim(1), of MAX_READ_BATCHES_PER_PUMP huff h sid 1 now] b by simp
    note i = in_stream_items [OF lim assms(3) st b one_neq_zero]
    show ?thesis
      unfolding read_one_in_stream [OF assms(4) Some assms(6,7), unfolded slots, OF b]
      by (rule delivered_outcome [OF ok _ reported_in]) (use i st(2) in blast)+
  qed
qed

text \<open>
  The exception is real: with one place left in the queue, a chunk and the reset behind it arrive in one
  batch, the chunk takes the place, and the host never learns of the reset.
\<close>

theorem stream_reset_lost:
  assumes "ep_reachable huff l e" and "max_queued_bytes_global l \<le> usize_MAX"
    and "hm_get (handle_to_id e) h = Some conn" and "hm_get (sessions e) h = Some s"
    and "\<not> is_wt_connect sid s" and "hm_get (pending_client_connects s) sid = None" and "hm_get (in_streams s) sid = None"
    and "hm_get (self_bidi s) sid = Some wh" and "reads_left h sid e = [Chunk c, Reset_By_Peer code]" and "c \<noteq> []"
    and "length c < available_event_bytes conn (Some wh) (governor (queue e))" and "Suc (length (events (queue e))) = MAX_PENDING_EVENTS"
  shows "events (queue (read_one huff h sid now e)) = events (queue e) @ [StreamData conn wh False c] \<and>
    reads_left h sid (read_one huff h sid now e) = []"
proof -
  let ?limit = "available_event_bytes conn (Some wh) (governor (queue e))"
  have "read_stream ?limit (reads_left h sid e) = (c, Reset code, [])"
    using assms(9-11) by (simp add: read_stream_def)
  then obtain e1 where read: "conn_read h sid ?limit e = (e1, c, Reset code)" and left: "reads_left h sid e1 = []"
    and same: "queue e1 = queue e"
    using assms(9) by (auto simp: conn_read_def reads_left_def quinn_def split: option.splits)
  have ok1: "ep_ok l e1"
    using ep_sound.stable_conn_read [OF TrueI ep_ok_reachable [OF assms(1)], of h sid ?limit] read by simp
  let ?e2 = "ep_push_event (StreamData conn wh False c) e1"
  have slot: "has_event_slot_capacity 1 (queue e)"
    using assms(12) by (simp add: has_event_slot_capacity_def sat_add_def)
  have ev: "events (queue ?e2) = events (queue e) @ [StreamData conn wh False c]"
    using read_data_fits [OF ok1 limits_valid [OF assms(1)] assms(2), of 1 c conn wh False] slot same assms(10,11) by simp
  have "self_bidi_batches (Suc n) h sid wh conn e = (?e2, Some (Reset code))" for n
    using read slot assms(10)
    by (simp add: Let_def should_emit_self_bidi_chunk_def should_backpressure_zero_progress_read_def should_stop_read_batch_def)
  from this [of 63] have "self_bidi_batches MAX_READ_BATCHES_PER_PUMP h sid wh conn e = (?e2, Some (Reset code))"
    by (simp add: MAX_READ_BATCHES_PER_PUMP_def)
  moreover have "read_one huff h sid now e = read_self_bidi h sid wh e"
    using assms(4-8) by (simp add: read_one_def is_wt_connect_def)
  ultimately have "read_one huff h sid now e
      = forget_self_bidi h sid wh (ep_push_event (StreamReset conn wh (unmap_wt_app_error code)) ?e2)"
    using assms(3) by (simp add: read_self_bidi_def)
  moreover have "events (queue (ep_push_event (StreamReset conn wh (unmap_wt_app_error code)) ?e2)) = events (queue ?e2)"
    using ev assms(12) by (simp add: ep_push_event_def [of "StreamReset _ _ _"] push_event_def try_push_event_def)
  moreover have "reads_left h sid (forget_self_bidi h sid wh e') = reads_left h sid e'" for e'
    by (simp add: forget_self_bidi_def reads_left_def mark_stream_half_done_def unpause_def upd_session_def index_remove_def
        remove_stream_reservation_def upd_governor_def Let_def split: option.split)
  ultimately show ?thesis
    using ev left by (simp add: forget_self_bidi_def queued_simps items_push)
qed

end
