(* ===== verification/Endpoint_Sessions.thy ===== *)
theory Endpoint_Sessions
  imports Endpoint_Delivery
begin

text \<open>
  Sessions over their life: a request is admitted or refused, a session ends once and takes its
  streams with it, and what outlives it.
\<close>

section \<open>Admission\<close>

lemma hm_get_upd_session: "hm_get (sessions (upd_session h f e)) h = map_option f (hm_get (sessions e) h)"
  by (simp add: upd_session_def)

text \<open>Sessions that differ in nothing but their QPACK state.\<close>

definition same_registry :: "session \<Rightarrow> session \<Rightarrow> bool" where
  "same_registry s s' \<longleftrightarrow> (\<exists>q. s' = s\<lparr>qpack := q\<rparr>)"

lemma same_registryD:
  assumes "same_registry s s'"
  shows "active_wt_count s' = active_wt_count s" and "is_wt_connect sid s' = is_wt_connect sid s"
    and "same_registry s (s'\<lparr>qpack := q\<rparr>)"
  using assms by (auto simp: same_registry_def active_wt_count_def is_wt_connect_def)

lemma registry_write:
  assumes "hm_get (sessions e) h = Some s"
  shows "\<exists>s'. hm_get (sessions (write_encoded_headers h sid hdrs (fst (with_qpack h f d e)))) h = Some s' \<and> same_registry s s'"
  using assms
  by (auto simp: with_qpack_def write_encoded_headers_def call_def quinn_def upd_session_def same_registry_def Let_def
      split: prod.split option.split)

lemma registry_respond:
  assumes "hm_get (sessions e) h = Some s"
  obtains s' where "hm_get (sessions (respond h sid status e)) h = Some s'" "same_registry s s'"
proof -
  obtain e' hdrs where w: "with_qpack h (encode_status_for_session status) (literal_headers (encode_status_response status)) e
      = (e', hdrs)"
    by fastforce
  then show thesis
    using that registry_write [OF assms, of sid hdrs "encode_status_for_session status"
        "literal_headers (encode_status_response status)"]
    by (auto simp: respond_def call_def quinn_def)
qed

lemma latch_count: "active_wt_count (latch_connect sid s) \<le> Suc (active_wt_count s)"
  by (auto simp: active_wt_count_def latch_connect_def primary_wt_session_live_def hs_insert_def)

lemma registry_accept:
  assumes "hm_get (sessions e) h = Some s"
  obtains s' where "hm_get (sessions (accept_connect h conn sid e)) h = Some (latch_connect sid s')" "same_registry s s'"
proof -
  obtain e' hdrs where w: "with_qpack h encode_connect_ok_for_session (literal_headers encode_connect_response_ok) e = (e', hdrs)"
    by fastforce
  then obtain s' where "hm_get (sessions (write_encoded_headers h sid hdrs e')) h = Some s'" "same_registry s s'"
    using registry_write [OF assms, of sid hdrs encode_connect_ok_for_session "literal_headers encode_connect_response_ok"]
    by auto
  then show thesis
    using that [of s'] w
    by (simp add: accept_connect_def remove_handshake_def upd_governor_def ep_push_event_def upd_session_def Let_def)
qed

text \<open>
  C9. The session cap: a request on a stream becomes a session of the connection exactly when it is an
  extended CONNECT for WebTransport and the connection has fewer sessions than
  \<^verbatim>\<open>SETTINGS_WT_MAX_SESSIONS\<close> allows, and the connection never goes above the cap.
\<close>

theorem session_cap:
  assumes "hm_get (sessions e) h = Some s"
  shows "\<exists>s'. hm_get (sessions (server_request h conn sid headers e)) h = Some s' \<and>
    active_wt_count s' \<le> max (active_wt_count s) (wt_max_sessions e) \<and>
    (is_wt_connect sid s' \<longleftrightarrow> is_wt_connect sid s \<or>
       headers_are_webtransport_connect headers \<and> active_wt_count s < wt_max_sessions e)"
proof -
  let ?full = "set_last_error ''E_LIMIT_EXCEEDED: SETTINGS_WT_MAX_SESSIONS exceeded'' e"
  have refused: ?thesis if eq: "server_request h conn sid headers e = respond h sid status e'" and same: "sessions e' = sessions e"
      and no: "\<not> (headers_are_webtransport_connect headers \<and> active_wt_count s < wt_max_sessions e)" for status e'
  proof -
    obtain s' where "hm_get (sessions (respond h sid status e')) h = Some s'" "same_registry s s'"
      using registry_respond [of e' h s sid status] assms same by auto
    then show ?thesis
      using same_registryD [of s s'] eq no by auto
  qed
  show ?thesis
  proof (cases "headers_are_webtransport_connect headers")
    case True
    consider "is_wt_connect sid s" | "\<not> is_wt_connect sid s" "active_wt_count s \<ge> wt_max_sessions e"
      | "\<not> is_wt_connect sid s" "active_wt_count s < wt_max_sessions e"
      by linarith
    then show ?thesis
    proof cases
      case 2
      then show ?thesis
        using True assms by (intro refused [of "str_lit ''429''" ?full]) (simp_all add: server_request_def set_last_error_def)
    next
      case 3
      obtain s' where "hm_get (sessions (accept_connect h conn sid e)) h = Some (latch_connect sid s')" "same_registry s s'"
        using registry_accept [OF assms] by blast
      moreover have "is_wt_connect sid (latch_connect sid s')"
        by (simp add: is_wt_connect_def latch_connect_def hs_insert_def)
      ultimately show ?thesis
        using 3 True assms latch_count [of sid s'] same_registryD(1) [of s s'] by (simp add: server_request_def)
    qed (use True assms in \<open>simp add: server_request_def\<close>)
  qed (use refused [of "str_lit ''404''" e] in \<open>simp add: server_request_def\<close>)
qed

section \<open>Ending a session\<close>

lemma not_live_after_drop: "\<not> wt_session_live sid (drop_wt_session sid s)"
  by (auto simp: wt_session_live_def drop_wt_session_def hs_remove_def)

lemma hm_remove_absent: "hm_get m k = None \<Longrightarrow> hm_remove k m = m"
  by (induction m) (auto split: if_splits)

lemma abort_frame [simp]:
  "queue (abort_stream h sid e) = queue e" "sessions (abort_stream h sid e) = sessions e"
  "handle_to_id (abort_stream h sid e) = handle_to_id e" "stream_index (abort_stream h sid e) = stream_index e"
  "stream_sessions (abort_stream h sid e) = stream_sessions e"
  by (simp_all add: abort_stream_def call_def quinn_def Let_def split: option.split)

lemma reset_stream_frame:
  "handle_to_id (reset_session_stream h conn w e) = handle_to_id e"
  "stream_index (reset_session_stream h conn (wh, sid) e) = hm_remove wh (stream_index e)"
  "stream_sessions (reset_session_stream h conn (wh, sid) e) = hm_remove wh (stream_sessions e)"
  "hm_get (sessions (reset_session_stream h conn (wh, sid) e)) h = map_option (drop_stream_entry sid) (hm_get (sessions e) h)"
  by (simp_all add: reset_session_stream_def Let_def ep_push_event_def index_remove_def remove_stream_reservation_def
      upd_governor_def unpause_def upd_session_def hm_remove_absent split: option.split prod.split)

text \<open>
  An event without a payload needs a place in the queue and nothing else; without a place it is dropped.
\<close>

lemma take_take_append: "take n (take n xs @ ys) = take n (xs @ ys)"
  by (simp add: min_def)

lemma push_taken:
  assumes "length (events (queue e)) \<le> MAX_PENDING_EVENTS" and "event_kind ev = None"
  shows "events (queue (ep_push_event ev e)) = take MAX_PENDING_EVENTS (events (queue e) @ [ev])"
proof (cases "length (events (queue e)) < MAX_PENDING_EVENTS")
  case False
  then show ?thesis
    using assms(1) by (simp add: ep_push_event_def push_event_def try_push_event_def)
qed (use queued_push [OF _ assms(2), of e] in simp)

lemma reset_stream_events:
  assumes "length (events (queue e)) \<le> MAX_PENDING_EVENTS"
  shows "events (queue (reset_session_stream h conn (wh, sid) e))
    = take MAX_PENDING_EVENTS (events (queue e) @ [StreamReset conn wh WT_SESSION_GONE])"
proof -
  let ?e = "index_remove wh (remove_stream_reservation wh
    ((unpause wh (upd_session h (drop_stream_entry sid) (abort_stream h sid e)))
      \<lparr>half_done := hm_remove wh (half_done (unpause wh (upd_session h (drop_stream_entry sid) (abort_stream h sid e))))\<rparr>))"
  have same: "events (queue ?e) = events (queue e)"
    by (simp add: queued_simps)
  have "reset_session_stream h conn (wh, sid) e = ep_push_event (StreamReset conn wh WT_SESSION_GONE) ?e"
    by (simp add: reset_session_stream_def Let_def)
  then show ?thesis
    using push_taken [of ?e "StreamReset conn wh WT_SESSION_GONE"] assms same by simp
qed

text \<open>
  What quinn is told of a stream whose session is gone: to reset the half this side sends on and to stop
  the half it receives on, as far as the stream has them.
\<close>

definition gone_calls :: "side \<Rightarrow> stream_id \<Rightarrow> quinn_call list" where
  "gone_calls me sid =
     (if sid_dir sid = Dir_Bi \<or> sid_initiator sid = me then [Call_Reset sid (ucast WT_SESSION_GONE)] else []) @
     (if sid_dir sid = Dir_Bi \<or> sid_initiator sid \<noteq> me then [Call_Stop sid (ucast WT_SESSION_GONE)] else [])"

lemma hm_get_call: "hm_get (conns (call h c e)) h = map_option (\<lambda>q. q\<lparr>q_calls := q_calls q @ [c]\<rparr>) (hm_get (conns e) h)"
  by (cases "hm_get (conns e) h") (simp_all add: call_def quinn_def log_call_def)

lemma abort_calls:
  assumes "hm_get (conns e) h = Some c"
  shows "hm_get (conns (abort_stream h sid e)) h = Some (c\<lparr>q_calls := q_calls c @ gone_calls (q_side c) sid\<rparr>)"
  using assms by (simp add: abort_stream_def gone_calls_def Let_def hm_get_call)

lemma reset_stream_calls:
  "hm_get (conns e) h = Some c \<Longrightarrow>
    hm_get (conns (reset_session_stream h conn (wh, sid) e)) h = Some (c\<lparr>q_calls := q_calls c @ gone_calls (q_side c) sid\<rparr>)"
  by (drule abort_calls [of _ _ _ sid])
    (simp add: reset_session_stream_def Let_def ep_push_event_def index_remove_def remove_stream_reservation_def upd_governor_def
      unpause_def upd_session_def split: option.split)

lemma reset_streams_calls:
  "hm_get (conns e) h = Some c \<Longrightarrow> hm_get (conns (fold (reset_session_stream h conn) ws e)) h
     = Some (c\<lparr>q_calls := q_calls c @ concat (map (\<lambda>(_, sid). gone_calls (q_side c) sid) ws)\<rparr>)"
  by (induction ws arbitrary: e c) (auto simp: reset_stream_calls)

lemma reset_streams_events:
  assumes "length (events (queue e)) \<le> MAX_PENDING_EVENTS"
  shows "events (queue (fold (reset_session_stream h conn) ws e))
    = take MAX_PENDING_EVENTS (events (queue e) @ map (\<lambda>(wh, _). StreamReset conn wh WT_SESSION_GONE) ws)"
  using assms
proof (induction ws arbitrary: e)
  case (Cons w ws)
  obtain wh sid where w: "w = (wh, sid)"
    by fastforce
  note r = reset_stream_events [OF Cons.prems, of h conn wh sid]
  show ?case
    using Cons.IH [of "reset_session_stream h conn w e"] r take_take_append [of MAX_PENDING_EVENTS "events (queue e) @ [StreamReset conn wh WT_SESSION_GONE]"]
    by (simp add: w)
qed simp

lemma reset_streams:
  shows "hm_get (stream_sessions (fold (reset_session_stream h conn) ws e)) wh
      = (if wh \<in> fst ` set ws then None else hm_get (stream_sessions e) wh)"
    and "set (stream_index (fold (reset_session_stream h conn) ws e)) = {x \<in> set (stream_index e). fst x \<notin> fst ` set ws}"
    and "hm_get (sessions (fold (reset_session_stream h conn) ws e)) h
      = map_option (fold (\<lambda>(_, sid). drop_stream_entry sid) ws) (hm_get (sessions e) h)"
proof -
  show "hm_get (stream_sessions (fold (reset_session_stream h conn) ws e)) wh
      = (if wh \<in> fst ` set ws then None else hm_get (stream_sessions e) wh)"
    by (induction ws arbitrary: e) (auto simp: reset_stream_frame)
  show "set (stream_index (fold (reset_session_stream h conn) ws e)) = {x \<in> set (stream_index e). fst x \<notin> fst ` set ws}"
    by (induction ws arbitrary: e) (auto simp: reset_stream_frame AList.delete_eq)
  show "hm_get (sessions (fold (reset_session_stream h conn) ws e)) h
      = map_option (fold (\<lambda>(_, sid). drop_stream_entry sid) ws) (hm_get (sessions e) h)"
    by (induction ws arbitrary: e) (auto simp: reset_stream_frame option.map_comp comp_def option.map_id)
qed

lemma live_drop_entries:
  "wt_session_live sid (fold (\<lambda>(_, sid). drop_stream_entry sid) ws s) = wt_session_live sid s"
  by (induction ws arbitrary: s) (auto simp: drop_stream_entry_def wt_session_live_def)

lemma end_dead_session:
  assumes "hm_get (sessions e) h = Some s" and "\<not> wt_session_live sid s"
  shows "queue (end_wt_session h sid code reason e) = queue e" and "conns (end_wt_session h sid code reason e) = conns e"
  using assms by (simp_all add: end_wt_session_def upd_session_def split: option.split)

lemma end_live_session:
  assumes "hm_get (handle_to_id e) h = Some conn" and "hm_get (sessions e) h = Some s" and "wt_session_live sid s"
    and "hm_get (conns e) h = Some c" and "length (events (queue e)) \<le> MAX_PENDING_EVENTS"
  shows "events (queue (end_wt_session h sid code reason e)) = take MAX_PENDING_EVENTS (events (queue e)
      @ map (\<lambda>(wh, _). StreamReset conn wh WT_SESSION_GONE) (session_streams h sid e) @ [SessionClosed conn sid code reason])"
    and "hm_get (conns (end_wt_session h sid code reason e)) h
      = Some (c\<lparr>q_calls := q_calls c @ concat (map (\<lambda>(_, x). gone_calls (q_side c) x) (session_streams h sid e))\<rparr>)"
    and "session_streams h sid (end_wt_session h sid code reason e) = []"
    and "\<exists>s'. hm_get (sessions (end_wt_session h sid code reason e)) h = Some s' \<and> \<not> wt_session_live sid s'"
proof -
  let ?e = "upd_session h (drop_wt_session sid) e" and ?ws = "session_streams h sid e"
  let ?r = "fold (reset_session_stream h conn) ?ws ?e"
  have same: "session_streams h sid ?e = ?ws" "events (queue ?e) = events (queue e)" "conns ?e = conns e"
      "stream_index ?e = stream_index e" "stream_sessions ?e = stream_sessions e"
    by (simp_all add: session_streams_def upd_session_def)
  have ev: "events (queue ?r) = take MAX_PENDING_EVENTS (events (queue e)
      @ map (\<lambda>(wh, _). StreamReset conn wh WT_SESSION_GONE) ?ws)"
    using reset_streams_events [of ?e h conn ?ws] assms(5) same(2) by simp
  have e': "end_wt_session h sid code reason e = push_session_closed conn sid code reason ?r"
    using assms same(1) by (simp add: end_wt_session_def reset_session_streams_def)
  show "events (queue (end_wt_session h sid code reason e)) = take MAX_PENDING_EVENTS (events (queue e)
      @ map (\<lambda>(wh, _). StreamReset conn wh WT_SESSION_GONE) ?ws @ [SessionClosed conn sid code reason])"
    using push_taken [of "?r\<lparr>session_closed_count := n\<rparr>" "SessionClosed conn sid code reason" for n] ev
      take_take_append [of MAX_PENDING_EVENTS "events (queue e) @ map (\<lambda>(wh, _). StreamReset conn wh WT_SESSION_GONE) ?ws"]
    by (simp add: e' push_session_closed_def)
  show "hm_get (conns (end_wt_session h sid code reason e)) h
      = Some (c\<lparr>q_calls := q_calls c @ concat (map (\<lambda>(_, x). gone_calls (q_side c) x) ?ws)\<rparr>)"
    using reset_streams_calls [of ?e h c conn ?ws] assms(4) same(3) by (simp add: e' push_session_closed_def ep_push_event_def)
  note r = reset_streams [of h conn ?ws ?e]
  have "False" if "(wh, h, x) \<in> set (stream_index ?r)" "hm_get (stream_sessions ?r) wh = Some sid" for wh x
  proof -
    have out: "wh \<notin> fst ` set ?ws" and "(wh, h, x) \<in> set (stream_index e)" and "hm_get (stream_sessions e) wh = Some sid"
      using that r(2) r(1) [of wh] same(4,5) by (auto split: if_splits)
    then have "(wh, x) \<in> set ?ws"
      by (force simp: session_streams_def)
    then show False
      using out by force
  qed
  then show "session_streams h sid (end_wt_session h sid code reason e) = []"
    by (auto simp: e' session_streams_def push_session_closed_def ep_push_event_def filter_empty_conv)
  show "\<exists>s'. hm_get (sessions (end_wt_session h sid code reason e)) h = Some s' \<and> \<not> wt_session_live sid s'"
    using r(3) assms(2)
    by (auto simp: e' push_session_closed_def ep_push_event_def hm_get_upd_session live_drop_entries not_live_after_drop)
qed

text \<open>
  C5. A session ends once. Ending one that is live tells quinn to reset and stop each of its streams with
  \<^verbatim>\<open>WT_SESSION_GONE\<close>, on the halves the stream has and on nothing else; queues an event for each and then
  one for the session, in that order, as far as the event queue has places; and leaves no stream of the
  session. Ending a dead one, in particular the same one again, calls nothing and queues nothing. The
  events without a place are dropped: on a full queue the host never hears of the end.
\<close>

theorem session_ends_once:
  assumes "hm_get (handle_to_id e) h = Some conn" and "hm_get (sessions e) h = Some s" and "hm_get (conns e) h = Some c"
    and "length (events (queue e)) \<le> MAX_PENDING_EVENTS"
  shows "events (queue (end_wt_session h sid code reason e)) =
      (if wt_session_live sid s then
         take MAX_PENDING_EVENTS (events (queue e) @
           map (\<lambda>(wh, _). StreamReset conn wh WT_SESSION_GONE) (session_streams h sid e) @ [SessionClosed conn sid code reason])
       else events (queue e)) \<and>
    hm_get (conns (end_wt_session h sid code reason e)) h = Some (c\<lparr>q_calls := q_calls c @
      (if wt_session_live sid s then concat (map (\<lambda>(_, x). gone_calls (q_side c) x) (session_streams h sid e)) else [])\<rparr>) \<and>
    (wt_session_live sid s \<longrightarrow> session_streams h sid (end_wt_session h sid code reason e) = []) \<and>
    queue (end_wt_session h sid code' reason' (end_wt_session h sid code reason e))
      = queue (end_wt_session h sid code reason e) \<and>
    conns (end_wt_session h sid code' reason' (end_wt_session h sid code reason e))
      = conns (end_wt_session h sid code reason e)"
proof (cases "wt_session_live sid s")
  case True
  note live = end_live_session [OF assms(1,2) True assms(3,4), of code reason]
  obtain s' where "hm_get (sessions (end_wt_session h sid code reason e)) h = Some s'" "\<not> wt_session_live sid s'"
    using live(4) by blast
  then show ?thesis
    using True live(1,2,3) end_dead_session by simp
next
  case False
  have "hm_get (sessions (end_wt_session h sid code reason e)) h = Some (drop_wt_session sid s)"
    using assms False by (simp add: end_wt_session_def hm_get_upd_session)
  then show ?thesis
    using False assms(3) end_dead_session [OF assms(2)] end_dead_session [OF _ not_live_after_drop] by simp
qed

section \<open>Capsules across payloads\<close>

lemma hm_insert_twice: "hm_insert k v' (hm_insert k v m) = hm_insert k v' m" "hm_remove k (hm_insert k v m) = hm_remove k m"
  by (induction m) auto

lemma draining_effects:
  assumes "set acts \<subseteq> {Session_Draining}"
  shows "fold (capsule_effect h sid) acts (upd_session h' g e) = upd_session h' g (fold (capsule_effect h sid) acts e)"
    and "sessions (fold (capsule_effect h sid) acts e) = sessions e"
proof -
  have step: "capsule_effect h sid Session_Draining (upd_session h' g e) = upd_session h' g (capsule_effect h sid Session_Draining e)"
    and keep: "sessions (capsule_effect h sid Session_Draining e) = sessions e" for e
    by (simp_all add: upd_session_def ep_push_event_def split: option.split)
  show "fold (capsule_effect h sid) acts (upd_session h' g e) = upd_session h' g (fold (capsule_effect h sid) acts e)"
    using assms by (induction acts arbitrary: e) (auto simp: step simp del: capsule_effect.simps)
  show "sessions (fold (capsule_effect h sid) acts e) = sessions e"
    using assms by (induction acts arbitrary: e) (auto simp: keep simp del: capsule_effect.simps)
qed

lemma feed_append:
  assumes "hm_get (sessions e) h = Some s" and "feed_session_capsules (hm_get (capsules s) sid) p = (acts, slot)"
  shows "ep_feed_session_capsules h sid (p @ q) e =
    (if slot = None then ep_feed_session_capsules h sid p e
     else ep_feed_session_capsules h sid q (ep_feed_session_capsules h sid p e))"
proof (cases slot)
  case None
  then show ?thesis
    using assms by (simp add: ep_feed_session_capsules_def feed_session_capsules_append)
next
  case (Some a)
  obtain acts' slot' where q: "feed_session_capsules (Some a) q = (acts', slot')"
    by fastforce
  let ?keep = "\<lambda>slot. upd_session h (\<lambda>s. s\<lparr>capsules :=
    (case slot of Some a \<Rightarrow> hm_insert sid a (capsules s) | None \<Rightarrow> hm_remove sid (capsules s))\<rparr>)"
  let ?run = "fold (capsule_effect h sid)"
  note d = draining_effects [OF feed_draining [OF assms(2) [unfolded Some]], of h sid]
  have first: "ep_feed_session_capsules h sid p e = ?keep (Some a) (?run acts e)"
    using assms Some d(1) by (simp add: ep_feed_session_capsules_def)
  have twice: "?keep slot' (?keep (Some a) e') = ?keep slot' e'" for e'
    by (cases slot') (simp_all add: upd_session_def hm_modify_def hm_insert_twice comp_def case_prod_beta cong: if_cong)
  have "hm_get (sessions (?keep (Some a) (?run acts e))) h = Some (s\<lparr>capsules := hm_insert sid a (capsules s)\<rparr>)"
    using assms(1) d(2) [of e] by (simp add: hm_get_upd_session)
  then have "ep_feed_session_capsules h sid q (?keep (Some a) (?run acts e)) = ?run acts' (?keep slot' (?run acts e))"
    using q twice [of "?run acts e"] by (simp add: ep_feed_session_capsules_def)
  moreover have "ep_feed_session_capsules h sid (p @ q) e = ?run acts' (?run acts (?keep slot' e))"
    using assms Some q by (simp add: ep_feed_session_capsules_def feed_session_capsules_append)
  ultimately show ?thesis
    using Some first d(1) by simp
qed

text \<open>
  C13. Reassembly does not depend on fragmentation, as long as the session goes on. However the capsule bytes
  of a session are cut into DATA-frame payloads, feeding them one after the other leaves the endpoint in
  the same state as feeding them in one payload, when no payload but the last completes a capsule that
  ends the session. Bytes that follow such a capsule in its own payload are ignored.
\<close>

theorem capsule_fragmentation_irrelevant:
  assumes "hm_get (sessions e) h = Some s" and "ps \<noteq> []"
    and "snd (feed_session_capsules (hm_get (capsules s) sid) (concat (butlast ps))) \<noteq> None"
  shows "fold (ep_feed_session_capsules h sid) ps e = ep_feed_session_capsules h sid (concat ps) e \<and>
    (snd (feed_session_capsules (hm_get (capsules s) sid) p) = None \<longrightarrow>
       ep_feed_session_capsules h sid (p @ after) e = ep_feed_session_capsules h sid p e)"
proof
  show "fold (ep_feed_session_capsules h sid) ps e = ep_feed_session_capsules h sid (concat ps) e"
    using assms
  proof (induction ps arbitrary: e s)
    case (Cons p ps)
    show ?case
    proof (cases "ps = []")
      case False
      obtain acts a where p: "feed_session_capsules (hm_get (capsules s) sid) p = (acts, Some a)"
        and rest: "snd (feed_session_capsules (Some a) (concat (butlast ps))) \<noteq> None"
        using Cons.prems(3) False feed_session_capsules_append [of "hm_get (capsules s) sid" p "concat (butlast ps)"]
        by (auto split: prod.splits option.splits)
      obtain s' where "hm_get (sessions (ep_feed_session_capsules h sid p e)) h = Some s'" "hm_get (capsules s') sid = Some a"
        using Cons.prems(1) p draining_effects(2) [OF feed_draining [OF p], of h sid]
        by (auto simp: ep_feed_session_capsules_def hm_get_upd_session)
      then show ?thesis
        using Cons.IH False rest feed_append [OF Cons.prems(1) p, of "concat ps"] by simp
    qed simp
  qed simp
  show "snd (feed_session_capsules (hm_get (capsules s) sid) p) = None \<longrightarrow>
      ep_feed_session_capsules h sid (p @ after) e = ep_feed_session_capsules h sid p e"
    using feed_append [OF assms(1)] by (cases "feed_session_capsules (hm_get (capsules s) sid) p") auto
qed

text \<open>
  Once it has ended, fragmentation matters: a closed primary session still counts as one, its next
  payload starts a new assembler, and a drain capsule in it is reported after the end.
\<close>

theorem closed_session_still_drains:
  assumes "hm_get (sessions e) h = Some s" and "hm_get (handle_to_id e) h = Some conn"
    and "connect_stream s = Some sid" and "connect_closed s" and "hm_get (capsules s) sid = None"
    and "is_buf st = hdr @ encode_drain" and "length (events (queue e)) < MAX_PENDING_EVENTS"
  shows "events (queue (server_connect_data h sid (length hdr) (length hdr + length encode_drain) frame_DATA st e))
    = events (queue e) @ [SessionDraining conn sid]"
proof -
  let ?d = "drain_in_buf h sid (length hdr + length encode_drain) e"
  obtain s' where s': "hm_get (sessions ?d) h = Some s'" "hm_get (capsules s') sid = None"
    using assms(1,5) by (auto simp: drain_in_buf_def hm_get_upd_session)
  have "assembler_next \<lparr>cap_buf = encode_drain\<rparr> = (\<lparr>cap_buf = []\<rparr>, Inr (Some Drain))"
    using parse_encode_drain [of "[]"] by (simp add: assembler_next.simps [of "\<lparr>cap_buf = encode_drain\<rparr>"])
  moreover have "assembler_next \<lparr>cap_buf = []\<rparr> = (\<lparr>cap_buf = []\<rparr>, Inr None)"
    by (simp add: assembler_next.simps [of "\<lparr>cap_buf = []\<rparr>"] parse_capsule_def varint_decode_def)
  ultimately have drained: "feed_session_capsules None encode_drain = ([Session_Draining], Some \<lparr>cap_buf = []\<rparr>)"
    by (simp add: feed_session_capsules_def assembler_push_def assembler_new_def capsule_loop_Drain capsule_loop_None)
  have id: "hm_get (handle_to_id (upd_session h g ?d)) h = Some conn" for g
    using assms(2) by (simp add: drain_in_buf_def upd_session_def)
  have "is_wt_connect sid s"
    using assms(3) by (simp add: is_wt_connect_def)
  then have "server_connect_data h sid (length hdr) (length hdr + length encode_drain) frame_DATA st e
      = ep_feed_session_capsules h sid encode_drain ?d"
    using assms(1,6) by (simp add: server_connect_data_def Let_def)
  also have "\<dots> = ep_push_event (SessionDraining conn sid)
      (upd_session h (\<lambda>s. s\<lparr>capsules := hm_insert sid \<lparr>cap_buf = []\<rparr> (capsules s)\<rparr>) ?d)"
    using s' drained id by (simp add: ep_feed_session_capsules_def)
  finally show ?thesis
    using queued_push [of _ "SessionDraining conn sid"] assms(7) by (simp add: queued_simps drain_in_buf_def)
qed

section \<open>What outlives a session\<close>

lemma stream_sessions_forget: "stream_sessions (fold forget_stream xs e) = stream_sessions e"
  by (induction xs arbitrary: e)
    (auto simp: forget_stream_def remove_stream_reservation_def upd_governor_def unpause_def case_prod_beta)

lemma stream_sessions_frame:
  "stream_sessions (remove_handshake h e) = stream_sessions e"
  "stream_sessions (remove_session_reservation h e) = stream_sessions e"
  "stream_sessions (flush_conn_transmits h e) = stream_sessions e"
  "stream_sessions (ep_push_event ev e) = stream_sessions e"
  "stream_sessions (call h c e) = stream_sessions e"
  by (simp_all add: remove_handshake_def remove_session_reservation_def upd_governor_def flush_conn_transmits_def
      ep_push_event_def call_def quinn_def split: option.split)

lemma stream_sessions_cleanup: "stream_sessions (cleanup_connection h now e) = stream_sessions e"
  by (simp add: cleanup_unregister stream_sessions_forget unregister_def stream_sessions_frame Let_def split: option.split)

lemma stream_sessions_close: "stream_sessions (close_conn conn code reason now e) = stream_sessions e"
  by (simp add: close_conn_def Let_def stream_sessions_cleanup stream_sessions_frame split: option.split)

text \<open>
  C39. The session of a stream is never forgotten with its connection: closing every connection leaves the
  map from stream handles to sessions as it was, for streams that no longer exist.
\<close>

theorem stream_sessions_leak: "stream_sessions (close_all code reason now e) = stream_sessions e"
proof -
  have "stream_sessions (fold (\<lambda>conn. close_conn conn code reason now) ids e) = stream_sessions e" for ids
    by (induction ids arbitrary: e) (simp_all add: stream_sessions_close)
  then show ?thesis
    by (simp add: close_all_def Let_def)
qed

text \<open>
  C40. Closing the primary session from the host once more tells the host once more: the session stays known
  by its CONNECT stream, the call succeeds, and a second \<^verbatim>\<open>SessionClosed\<close> is queued.
\<close>

theorem closed_session_reported_again:
  assumes "hm_get (id_to_handle e) conn = Some h" and "hm_get (sessions e) h = Some s"
    and "connect_stream s = Some sid" and "connect_closed s"
    and "length (events (queue e)) + length (session_streams h sid e) < MAX_PENDING_EVENTS"
  shows "\<exists>e' evs. close_wt_session conn sid code reason e = (e', True) \<and>
    events (queue e') = events (queue e) @ evs @ [SessionClosed conn sid code []]"
proof -
  let ?e = "upd_session h (\<lambda>s. (drop_wt_session sid s)\<lparr>pending_client_connects := hm_remove sid (pending_client_connects s)\<rparr>)
      (call h (Call_Stop sid (ucast code)) (call h (Call_Reset sid (ucast code)) e))"
  let ?ws = "session_streams h sid e"
  have same: "session_streams h sid ?e = ?ws" "events (queue ?e) = events (queue e)"
    by (simp_all add: session_streams_def upd_session_def call_def quinn_def)
  then have "events (queue (fold (reset_session_stream h conn) ?ws ?e))
      = events (queue e) @ map (\<lambda>(wh, _). StreamReset conn wh WT_SESSION_GONE) ?ws"
    using reset_streams_events [of ?e h conn ?ws] assms(5) by simp
  moreover have "close_wt_session conn sid code reason e
      = (push_session_closed conn sid code [] (fold (reset_session_stream h conn) ?ws ?e), True)"
    using assms same(1)
    by (simp add: close_wt_session_def resolve_wt_session_def all_connect_streams_def wt_session_live_def reset_session_streams_def)
  ultimately show ?thesis
    using assms(5)
    by (simp add: push_session_closed_def ep_push_event_def push_event_def try_push_event_def)
qed

end
