(* ===== verification/Endpoint_Streams.thy ===== *)
theory Endpoint_Streams
  imports Endpoint_Sessions
begin

text \<open>
  A stream from the side that opens it to the host of the other: the header written by
  \<^verbatim>\<open>open_stream\<close>, read byte by byte by the other endpoint's loop, opens the stream there for the
  same session, and what follows the header is delivered as its data.
\<close>

section \<open>Bytes that only move the parser\<close>

text \<open>While its header is incomplete a stream is read one byte at a time.\<close>

definition byte_limited :: "in_stream \<Rightarrow> bool" where
  "byte_limited st \<longleftrightarrow>
     (case is_kind st of
        None \<Rightarrow> True
      | Some k \<Rightarrow> (k = stream_type_WT_UNI \<or> k = frame_WT_BIDI) \<and> \<not> is_sid_read st)"

definition quiet :: "in_stream \<Rightarrow> byte \<Rightarrow> in_stream \<Rightarrow> bool" where
  "quiet st b st' \<longleftrightarrow> byte_limited st \<and>
     (\<forall>h sid now s e. route_in_stream h sid [b] False now s st e = (put_in_stream h sid st' e, None))"

primrec quiet_run :: "in_stream \<Rightarrow> bytes \<Rightarrow> in_stream \<Rightarrow> bool" where
  "quiet_run st [] st' \<longleftrightarrow> st' = st"
| "quiet_run st (b # bs) st' \<longleftrightarrow> (\<exists>st1. quiet st b st1 \<and> quiet_run st1 bs st')"

lemma quiet_run_append: "quiet_run st bs st1 \<Longrightarrow> quiet_run st1 cs st' \<Longrightarrow> quiet_run st (bs @ cs) st'"
  by (induction bs arbitrary: st) auto

abbreviation wt_kind :: "u64 \<Rightarrow> bool" where
  "wt_kind k \<equiv> k = stream_type_WT_UNI \<or> k = frame_WT_BIDI"

lemma wt_kind_class: "wt_kind k \<Longrightarrow> classify_peer_stream_kind k bidi = Class_WebTransport" "wt_kind k \<Longrightarrow> k \<noteq> frame_HEADERS"
    "wt_kind k \<Longrightarrow> varint_ok k"
  by (auto simp: classify_peer_stream_kind_def h3_consts stream_type_WT_UNI_def frame_WT_BIDI_def stream_type_QPACK_ENCODER_def stream_type_QPACK_DECODER_def varint_ok_def)

lemma quiet_kind_part:
  "is_kind st = None \<Longrightarrow> varint_decode (is_buf st @ [b]) = None \<Longrightarrow> quiet st b (st\<lparr>is_buf := is_buf st @ [b]\<rparr>)"
  by (simp add: quiet_def byte_limited_def route_in_stream_def decode_kind_def)

lemma quiet_kind_whole:
  assumes "is_kind st = None" and "varint_decode (is_buf st @ [b]) = Some (k, Suc (length (is_buf st)))"
    and "wt_kind k" and "\<not> is_sid_read st"
  shows "quiet st b (st\<lparr>is_kind := Some k, is_buf := []\<rparr>)"
  using assms wt_kind_class(1) [OF assms(3)] wt_kind_class(2) [OF assms(3)]
  by (simp add: quiet_def byte_limited_def route_in_stream_def decode_kind_def route_wt_def varint_decode_def)

lemma quiet_session_part:
  assumes "is_kind st = Some k" and "wt_kind k" and "\<not> is_sid_read st" and "varint_decode (is_buf st @ [b]) = None"
  shows "quiet st b (st\<lparr>is_buf := is_buf st @ [b]\<rparr>)"
  using assms wt_kind_class(1) [OF assms(2)]
  by (simp add: quiet_def byte_limited_def route_in_stream_def decode_kind_def route_wt_def)

text \<open>All bytes of a varint but the last.\<close>

lemma quiet_varint_part:
  assumes "varint_ok v" and "n < length (varint_bytes v)"
    and "\<And>st b. st\<lparr>is_buf := []\<rparr> = st0 \<Longrightarrow> varint_decode (is_buf st @ [b]) = None \<Longrightarrow> quiet st b (st\<lparr>is_buf := is_buf st @ [b]\<rparr>)"
    and "is_buf st0 = []"
  shows "quiet_run st0 (take n (varint_bytes v)) (st0\<lparr>is_buf := take n (varint_bytes v)\<rparr>)"
  using assms(2)
proof (induction n)
  case 0
  then show ?case
    using assms(4) by simp
next
  case (Suc n)
  let ?st = "st0\<lparr>is_buf := take n (varint_bytes v)\<rparr>" and ?b = "varint_bytes v ! n"
  have t: "take (Suc n) (varint_bytes v) = take n (varint_bytes v) @ [?b]"
    using Suc.prems by (simp add: take_Suc_conv_app_nth)
  have "varint_decode (take (Suc n) (varint_bytes v)) = None"
    by (rule varint.dec_proper_prefix [OF assms(1) Suc.prems])
  then have "quiet ?st ?b (?st\<lparr>is_buf := is_buf ?st @ [?b]\<rparr>)"
    using t assms(4) by (intro assms(3)) simp_all
  then have "quiet_run st0 (take n (varint_bytes v) @ [?b]) (st0\<lparr>is_buf := take n (varint_bytes v) @ [?b]\<rparr>)"
    using Suc by (intro quiet_run_append [of _ _ ?st]) simp_all
  then show ?case
    using t by simp
qed

lemma varint_last:
  assumes "varint_ok v"
  shows "varint_bytes v = butlast (varint_bytes v) @ [last (varint_bytes v)]"
    and "butlast (varint_bytes v) = take (length (varint_bytes v) - 1) (varint_bytes v)"
    and "varint_decode (butlast (varint_bytes v) @ [last (varint_bytes v)]) = Some (v, Suc (length (butlast (varint_bytes v))))"
  using varint.dec_enc_Nil [OF assms] by (simp, simp add: butlast_conv_take, simp)

lemma quiet_header:
  assumes "wt_kind k" and "varint_ok session_id"
  shows "quiet_run (new_in_stream d) (varint_bytes k @ butlast (varint_bytes session_id))
    ((new_in_stream d)\<lparr>is_kind := Some k, is_buf := butlast (varint_bytes session_id)\<rparr>)"
proof -
  let ?n = "new_in_stream d"
  let ?k = "?n\<lparr>is_kind := Some k\<rparr>"
  note last = varint_last [OF wt_kind_class(3) [OF assms(1)]]
  have "quiet_run ?n (butlast (varint_bytes k)) (?n\<lparr>is_buf := butlast (varint_bytes k)\<rparr>)"
    unfolding last(2)
  proof (rule quiet_varint_part [OF wt_kind_class(3) [OF assms(1)]])
    fix st b
    assume "st\<lparr>is_buf := []\<rparr> = ?n" and none: "varint_decode (is_buf st @ [b]) = None"
    then have "is_kind (st\<lparr>is_buf := []\<rparr>) = None"
      by (simp add: new_in_stream_def)
    then show "quiet st b (st\<lparr>is_buf := is_buf st @ [b]\<rparr>)"
      using none by (intro quiet_kind_part) simp_all
  qed (auto simp: new_in_stream_def)
  moreover have "quiet (?n\<lparr>is_buf := butlast (varint_bytes k)\<rparr>) (last (varint_bytes k)) ?k"
    using quiet_kind_whole [of "?n\<lparr>is_buf := butlast (varint_bytes k)\<rparr>" "last (varint_bytes k)" k] last(3) assms(1)
    by (simp add: new_in_stream_def)
  ultimately have "quiet_run ?n (butlast (varint_bytes k) @ [last (varint_bytes k)]) ?k"
    by (intro quiet_run_append) (assumption, simp only: quiet_run.simps, blast)
  then have 1: "quiet_run ?n (varint_bytes k) ?k"
    by simp
  have "quiet_run ?k (butlast (varint_bytes session_id)) (?k\<lparr>is_buf := butlast (varint_bytes session_id)\<rparr>)"
    unfolding varint_last(2) [OF assms(2)]
  proof (rule quiet_varint_part [OF assms(2)])
    fix st b
    assume "st\<lparr>is_buf := []\<rparr> = ?k" and none: "varint_decode (is_buf st @ [b]) = None"
    then have "is_kind (st\<lparr>is_buf := []\<rparr>) = Some k" "\<not> is_sid_read (st\<lparr>is_buf := []\<rparr>)"
      by (simp_all add: new_in_stream_def)
    then show "quiet st b (st\<lparr>is_buf := is_buf st @ [b]\<rparr>)"
      using none assms(1) by (intro quiet_session_part) simp_all
  qed (auto simp: new_in_stream_def)
  then show ?thesis
    using quiet_run_append [OF 1] by simp
qed

section \<open>The reading loop over a header\<close>

definition unread :: "bytes \<Rightarrow> read_answer list \<Rightarrow> read_answer list" where
  "unread bs rest = (if bs = [] then rest else Chunk bs # rest)"

lemma read_byte:
  assumes "reads_left h sid e = unread (b # bs) rest"
  obtains cs where "conn_read h sid 1 e = (e\<lparr>conns := cs\<rparr>, [b], Open)" "reads_left h sid (e\<lparr>conns := cs\<rparr>) = unread bs rest"
proof -
  have "read_chunks 0 [b] rest = ([b], Open, rest)"
    by (cases rest) simp_all
  moreover obtain c where "hm_get (conns e) h = Some c" "hm_get (q_reads c) sid = Some (Chunk (b # bs) # rest)"
    using assms by (auto simp: reads_left_def unread_def split: option.splits)
  ultimately show thesis
    using that [of "hm_modify h (\<lambda>c. c\<lparr>q_reads := hm_insert sid (unread bs rest) (q_reads c)\<rparr>) (conns e)"]
    by (auto simp: conn_read_def read_stream_def quinn_def reads_left_def unread_def)
qed

text \<open>An endpoint with other quinn connections and sessions.\<close>

definition swap_conns :: "(conn_handle, quinn_conn) hash_map \<Rightarrow> (conn_handle, session) hash_map \<Rightarrow> wt_endpoint \<Rightarrow> wt_endpoint" where
  "swap_conns cs ss e = e\<lparr>conns := cs, sessions := ss\<rparr>"

lemma swap_fields [simp]:
  "next_stream (swap_conns cs ss e) = next_stream e" "handle_to_id (swap_conns cs ss e) = handle_to_id e"
  "is_server (swap_conns cs ss e) = is_server e" "queue (swap_conns cs ss e) = queue e"
  "sessions (swap_conns cs ss e) = ss" "conns (swap_conns cs ss e) = cs"
  "stream_index (swap_conns cs ss e) = stream_index e" "stream_sessions (swap_conns cs ss e) = stream_sessions e"
  by (simp_all add: swap_conns_def)

text \<open>
  The endpoint while a header is read: it differs from \<open>e0\<close> in its quinn connections and in the
  session of the connection only, and there the live CONNECT streams stay as they are.
\<close>

definition reading ::
  "wasm_limits \<Rightarrow> conn_handle \<Rightarrow> stream_id \<Rightarrow> wt_endpoint \<Rightarrow> stream_id list \<Rightarrow> in_stream \<Rightarrow> read_answer list \<Rightarrow> wt_endpoint \<Rightarrow> bool" where
  "reading l h sid e0 connects st ans e \<longleftrightarrow> ep_ok l e \<and> reads_left h sid e = ans \<and>
     (\<exists>cs ss s. e = swap_conns cs ss e0 \<and> hm_get ss h = Some s \<and> hm_get (in_streams s) sid = Some st \<and>
        live_connect_streams s = connects)"

lemma readingD:
  assumes "reading l h sid e0 connects st ans e"
  shows "ep_ok l e" and "reads_left h sid e = ans" and "in_stream_of h sid e = Some st" and "queue e = queue e0"
  using assms by (auto simp: reading_def in_stream_of_def)

lemma reading_start:
  assumes "ep_ok l e" and "hm_get (sessions e) h = Some s" and "hm_get (in_streams s) sid = Some st"
  shows "reading l h sid e (live_connect_streams s) st (reads_left h sid e) e"
proof -
  have "e = swap_conns (conns e) (sessions e) e"
    by (simp add: swap_conns_def)
  then show ?thesis
    using assms unfolding reading_def by blast
qed

lemma byte_limit: "in_stream_of h sid e = Some st \<Longrightarrow> byte_limited st \<Longrightarrow> in_stream_read_limit h sid e = 1"
  by (auto simp: in_stream_read_limit_def byte_limited_def split: option.splits)

lemma batch_byte:
  assumes "reading l h sid e0 connects st (unread (b # bs) rest) e" and "byte_limited st" and "has_event_slot_capacity slots (queue e0)"
  obtains e1 where "in_stream_batches (Suc n) huff h sid slots now e
      = in_stream_batches n huff h sid slots now (process_in_stream huff h sid [b] False now e1)"
    and "reading l h sid e0 connects st (unread bs rest) e1"
proof -
  note r = readingD [OF assms(1)]
  obtain cs where cs: "conn_read h sid 1 e = (e\<lparr>conns := cs\<rparr>, [b], Open)" "reads_left h sid (e\<lparr>conns := cs\<rparr>) = unread bs rest"
    using read_byte [OF r(2)] by blast
  have ok: "ep_ok l (e\<lparr>conns := cs\<rparr>)"
    using ep_sound.stable_conn_read [OF TrueI r(1), of h sid 1] cs(1) by simp
  have swap: "swap_conns cs' ss e0\<lparr>conns := cs\<rparr> = swap_conns cs ss e0" for cs' ss
    by (simp add: swap_conns_def)
  have "reading l h sid e0 connects st (unread bs rest) (e\<lparr>conns := cs\<rparr>)"
    using assms(1) ok cs(2) swap unfolding reading_def by metis
  moreover have "in_stream_batches (Suc n) huff h sid slots now e
      = in_stream_batches n huff h sid slots now (process_in_stream huff h sid [b] False now (e\<lparr>conns := cs\<rparr>))"
    using cs(1) byte_limit [OF r(3) assms(2)] assms(3) r(4)
    by (simp add: should_wait_for_event_slots_def should_backpressure_zero_progress_read_def should_stop_read_batch_def)
  ultimately show thesis
    using that by blast
qed

lemma reading_quiet:
  assumes "reading l h sid e0 connects st ans e" and "quiet st b st'"
  shows "reading l h sid e0 connects st' ans (process_in_stream huff h sid [b] False now e)"
proof -
  obtain cs ss s where e: "e = swap_conns cs ss e0"
    and s: "hm_get ss h = Some s" "hm_get (in_streams s) sid = Some st" "live_connect_streams s = connects"
    using assms(1) by (auto simp: reading_def)
  have p: "process_in_stream huff h sid [b] False now e = put_in_stream h sid st' e"
    using e s assms(2) by (simp add: process_in_stream_def quiet_def)
  have ok: "ep_ok l (put_in_stream h sid st' e)"
    using ep_sound.stable_process [OF TrueI readingD(1) [OF assms(1)], of huff h sid "[b]" False now] by (simp add: p)
  have left: "reads_left h sid (put_in_stream h sid st' e) = ans"
    using readingD(2) [OF assms(1)] by simp
  let ?ss = "hm_modify h (\<lambda>s. s\<lparr>in_streams := hm_modify sid (\<lambda>_. st') (in_streams s)\<rparr>) ss"
  have "put_in_stream h sid st' e = swap_conns cs ?ss e0"
    by (simp add: e put_in_stream_def upd_session_def swap_conns_def)
  moreover have "\<exists>s'. hm_get ?ss h = Some s' \<and> hm_get (in_streams s') sid = Some st' \<and> live_connect_streams s' = connects"
    using s by (auto simp: live_connect_streams_def split: option.split)
  ultimately show ?thesis
    unfolding p reading_def using ok left by blast
qed

lemma batches_quiet:
  assumes "quiet_run st bs st'" and "reading l h sid e0 connects st (unread (bs @ cs) rest) e" and "has_event_slot_capacity slots (queue e0)"
  obtains e' where "in_stream_batches (length bs + n) huff h sid slots now e = in_stream_batches n huff h sid slots now e'"
    and "reading l h sid e0 connects st' (unread cs rest) e'"
  using assms(1,2)
proof (induction bs arbitrary: st e thesis)
  case (Cons b bs)
  obtain st1 where st1: "quiet st b st1" "quiet_run st1 bs st'"
    using Cons.prems(2) by auto
  obtain e1 where e1: "in_stream_batches (Suc (length bs + n)) huff h sid slots now e
      = in_stream_batches (length bs + n) huff h sid slots now (process_in_stream huff h sid [b] False now e1)"
    and "reading l h sid e0 connects st (unread (bs @ cs) rest) e1"
    using batch_byte [of l h sid e0 connects st b "bs @ cs" rest e slots "length bs + n" huff now] Cons.prems(3) assms(3) st1(1)
    by (auto simp: quiet_def)
  then have "reading l h sid e0 connects st1 (unread (bs @ cs) rest) (process_in_stream huff h sid [b] False now e1)"
    using reading_quiet [OF _ st1(1)] by blast
  then obtain e' where "in_stream_batches (length bs + n) huff h sid slots now (process_in_stream huff h sid [b] False now e1)
      = in_stream_batches n huff h sid slots now e'" and "reading l h sid e0 connects st' (unread cs rest) e'"
    using Cons.IH [OF _ st1(2)] by blast
  then show ?case
    using Cons.prems(1) e1 by simp
qed auto

section \<open>Opening the stream\<close>

text \<open>Opening looks at neither.\<close>

lemma rate_check_swap:
  "rate_check now conn d (swap_conns cs ss e) = (swap_conns cs ss (fst (rate_check now conn d e)), snd (rate_check now conn d e))"
  by (simp add: rate_check_def swap_conns_def split: prod.split sum.split check_error.split)

lemma reserve_swap:
  "reserve_stream_for conn wh k (swap_conns cs ss e)
     = (swap_conns cs ss (fst (reserve_stream_for conn wh k e)), snd (reserve_stream_for conn wh k e))"
  by (simp add: reserve_stream_for_def swap_conns_def split: prod.split)

lemma register_swap:
  "register_stream wh h sid session_id missing r (swap_conns cs ss e)
     = swap_conns cs ss (register_stream wh h sid session_id missing r e)"
  by (simp add: register_stream_def index_insert_def insert_stream_reservation_def upd_governor_def swap_conns_def)

lemma open_swap:
  "open_in_stream h sid now st (swap_conns cs ss e)
     = (swap_conns cs ss (fst (open_in_stream h sid now st e)), snd (open_in_stream h sid now st e))"
  by (simp add: open_in_stream_def Let_def rate_check_swap reserve_swap register_swap case_prod_beta
      split: option.split sum.split)

lemma rate_check_keeps:
  "handle_to_id (fst (rate_check now conn d e)) = handle_to_id e" "queue (fst (rate_check now conn d e)) = queue e"
  by (simp_all add: rate_check_def split: prod.split sum.split check_error.split)

lemma open_frame:
  assumes "open_in_stream h sid now st e = (e2, Inr (conn, session_id, wh, bidi))"
  shows "handle_to_id e2 = handle_to_id e" and "hm_get (handle_to_id e) h = Some conn"
    and "hm_get (stream_index e2) wh = Some (h, sid)" and "hm_get (stream_sessions e2) wh = Some session_id"
    and "events (queue e2) = events (queue e)" and "bidi = is_bidi st" and "is_wt_session_id st = Some x \<Longrightarrow> session_id = x"
proof -
  let ?e1 = "fst (if is_server e then rate_check now conn StreamOpen e else (e, None))"
  obtain r e1 where c: "hm_get (handle_to_id e) h = Some conn" "bidi = is_bidi st"
      "session_id = (case is_wt_session_id st of Some x \<Rightarrow> x | None \<Rightarrow> 0)"
      "e1 = fst (reserve_stream_for conn wh (stream_kind_of bidi) ?e1)"
      "e2 = register_stream wh h sid session_id (if bidi then 0 else HALF_SEND) r e1"
    using assms
    by (simp add: open_in_stream_def Let_def case_prod_beta split: if_splits option.splits sum.splits) fastforce+
  have "handle_to_id e1 = handle_to_id e" "events (queue e1) = events (queue e)"
    using queued_simps(11) [of conn wh "stream_kind_of bidi" ?e1]
    by (auto simp: c(4) reserve_stream_for_def rate_check_keeps case_prod_beta)
  then show "handle_to_id e2 = handle_to_id e" and "hm_get (handle_to_id e) h = Some conn"
    and "hm_get (stream_index e2) wh = Some (h, sid)" and "hm_get (stream_sessions e2) wh = Some session_id"
    and "events (queue e2) = events (queue e)" and "bidi = is_bidi st" and "is_wt_session_id st = Some x \<Longrightarrow> session_id = x"
    using c(1,2,3) by (simp_all add: c(5) register_stream_def index_insert_def insert_stream_reservation_def upd_governor_def)
qed

definition headed :: "dir \<Rightarrow> u64 \<Rightarrow> u64 \<Rightarrow> in_stream" where
  "headed d k session_id = (new_in_stream d)\<lparr>is_kind := Some k, is_sid_read := True, is_wt_session_id := Some session_id\<rparr>"

lemma process_last_byte:
  assumes "hm_get (sessions e) h = Some s" and "hm_get (in_streams s) sid
      = Some ((new_in_stream d)\<lparr>is_kind := Some k, is_buf := butlast (varint_bytes session_id)\<rparr>)"
    and "wt_kind k" and "varint_ok session_id" and "session_id \<in> set (live_connect_streams s)"
    and "open_in_stream h sid now (headed d k session_id) e = (e2, Inr (conn, session_id, wh, bidi))"
  shows "process_in_stream huff h sid [last (varint_bytes session_id)] False now e
    = ep_push_event (StreamOpened conn session_id wh bidi)
        (put_in_stream h sid ((headed d k session_id)\<lparr>is_handle := Some wh\<rparr>) e2)"
proof -
  let ?st = "(new_in_stream d)\<lparr>is_kind := Some k, is_buf := varint_bytes session_id\<rparr>"
  have "?st\<lparr>is_sid_read := True, is_wt_session_id := Some session_id, is_buf := []\<rparr> = headed d k session_id"
    by (simp add: headed_def new_in_stream_def)
  moreover have "is_handle (headed d k session_id) = None" "is_buf (headed d k session_id) = []"
    by (simp_all add: headed_def new_in_stream_def)
  ultimately have "route_wt h sid (live_connect_streams s) False now ?st e
      = (e2, (headed d k session_id)\<lparr>is_handle := Some wh\<rparr>, Some (Route_WtData wh [] (Some (conn, session_id, wh, bidi))))"
    using assms(5,6) varint.dec_enc_Nil [OF assms(4)]
    by (simp add: route_wt_def) (simp add: headed_def new_in_stream_def)
  moreover have "\<not> is_sid_read (new_in_stream d)"
    by (simp add: new_in_stream_def)
  ultimately show ?thesis
    using assms(1,2) wt_kind_class(1) [OF assms(3)]
    by (simp add: process_in_stream_def route_in_stream_def decode_kind_def should_emit_stream_payload_def)
qed

text \<open>The state the last byte of the header leaves.\<close>

lemma opened_state:
  assumes "reading l h sid e0 connects ((new_in_stream d)\<lparr>is_kind := Some k, is_buf := butlast (varint_bytes session_id)\<rparr>) ans e"
    and "wt_kind k" and "varint_ok session_id" and "session_id \<in> set connects"
    and "open_in_stream h sid now (headed d k session_id) e0 = (e2, Inr (conn, session_id, wh, bidi))"
    and "length (events (queue e0)) < MAX_PENDING_EVENTS"
    and e': "e' = process_in_stream huff h sid [last (varint_bytes session_id)] False now e"
  shows "ep_ok l e'" and "reads_left h sid e' = ans" and "hm_get (handle_to_id e') h = Some conn"
    and "\<exists>st. in_stream_of h sid e' = Some st \<and> opened_stream st wh"
    and "events (queue e') = events (queue e0) @ [StreamOpened conn session_id wh bidi]"
proof -
  obtain cs ss s where e: "e = swap_conns cs ss e0" and s: "hm_get ss h = Some s" "live_connect_streams s = connects"
    "hm_get (in_streams s) sid = Some ((new_in_stream d)\<lparr>is_kind := Some k, is_buf := butlast (varint_bytes session_id)\<rparr>)"
    using assms(1) unfolding reading_def by blast
  let ?st = "(headed d k session_id)\<lparr>is_handle := Some wh\<rparr>"
  have "open_in_stream h sid now (headed d k session_id) e = (swap_conns cs ss e2, Inr (conn, session_id, wh, bidi))"
    using assms(5) by (simp add: e open_swap)
  then have p: "e' = ep_push_event (StreamOpened conn session_id wh bidi) (put_in_stream h sid ?st (swap_conns cs ss e2))"
    unfolding e' using s assms(2,3,4) by (intro process_last_byte [where s = s]) (simp_all add: e)
  show "ep_ok l e'"
    using ep_sound.stable_process [OF TrueI readingD(1) [OF assms(1)]] by (simp add: e')
  have "conns e = cs"
    by (simp add: e)
  then show "reads_left h sid e' = ans"
    using readingD(2) [OF assms(1)] by (simp add: p items_push) (simp add: reads_left_def)
  show "hm_get (handle_to_id e') h = Some conn"
    using open_frame(1,2) [OF assms(5)] by (simp add: p items_push)
  have "opened_stream ?st wh"
    using wt_kind_class(1) [OF assms(2)] by (simp add: opened_stream_def headed_def new_in_stream_def)
  then show "\<exists>st. in_stream_of h sid e' = Some st \<and> opened_stream st wh"
    using s by (simp add: p in_stream_of_def put_in_stream_def upd_session_def ep_push_event_def)
  show "events (queue e') = events (queue e0) @ [StreamOpened conn session_id wh bidi]"
    using open_frame(5) [OF assms(5)] assms(6) queued_push [of "put_in_stream h sid ?st (swap_conns cs ss e2)"]
    by (simp add: p)
qed

text \<open>The loop gets to that state: a header has at most 16 bytes and the loop reads 64 times.\<close>

lemma read_header:
  assumes "ep_ok l e" and "hm_get (sessions e) h = Some s" and "hm_get (in_streams s) sid = Some (new_in_stream d)"
    and "varint_ok session_id" and "session_id \<in> set (live_connect_streams s)" and "wt_kind k"
    and "reads_left h sid e = unread (varint_bytes k @ varint_bytes session_id @ payload) rest"
    and "has_event_slot_capacity slots (queue e)" and "slots \<noteq> 0"
    and "open_in_stream h sid now (headed d k session_id) e = (e2, Inr (conn, session_id, wh, bidi))"
  obtains n e' st where "in_stream_batches MAX_READ_BATCHES_PER_PUMP huff h sid slots now e = in_stream_batches n huff h sid slots now e'"
    and "ep_ok l e'" and "reads_left h sid e' = unread payload rest" and "hm_get (handle_to_id e') h = Some conn"
    and "in_stream_of h sid e' = Some st" and "opened_stream st wh"
    and "events (queue e') = events (queue e) @ [StreamOpened conn session_id wh bidi]"
proof -
  let ?start = "varint_bytes k @ butlast (varint_bytes session_id)" and ?last = "last (varint_bytes session_id)"
  let ?st = "(new_in_stream d)\<lparr>is_kind := Some k, is_buf := butlast (varint_bytes session_id)\<rparr>"
  have "length ?start < 16"
    using varint_width_bounds(2) [of k] varint_width_bounds [of session_id] unfolding length_append length_butlast length_varint_bytes
    by linarith
  then have short: "MAX_READ_BATCHES_PER_PUMP = length ?start + Suc (63 - length ?start)"
    by (simp add: MAX_READ_BATCHES_PER_PUMP_def)
  have cut: "varint_bytes k @ varint_bytes session_id @ payload = ?start @ ?last # payload"
    using varint_last(1) [OF assms(4)] by (metis append.assoc append_Cons append_Nil)
  have "reading l h sid e (live_connect_streams s) (new_in_stream d) (unread (?start @ ?last # payload) rest) e"
    using reading_start [OF assms(1,2,3)] by (simp only: assms(7) cut)
  then obtain e1 where b1: "in_stream_batches MAX_READ_BATCHES_PER_PUMP huff h sid slots now e
        = in_stream_batches (Suc (63 - length ?start)) huff h sid slots now e1"
      and r1: "reading l h sid e (live_connect_streams s) ?st (unread (?last # payload) rest) e1"
    unfolding short by (rule batches_quiet [OF quiet_header [OF assms(6,4)] _ assms(8)])
  have "byte_limited ?st"
    using assms(6) by (simp add: byte_limited_def new_in_stream_def)
  then obtain e3 where b3: "in_stream_batches (Suc (63 - length ?start)) huff h sid slots now e1
        = in_stream_batches (63 - length ?start) huff h sid slots now (process_in_stream huff h sid [?last] False now e3)"
      and r3: "reading l h sid e (live_connect_streams s) ?st (unread payload rest) e3"
    by (rule batch_byte [OF r1 _ assms(8)])
  have "length (events (queue e)) < MAX_PENDING_EVENTS"
    using assms(8,9) by (auto simp: has_event_slot_capacity_def sat_add_def MAX_PENDING_EVENTS_def usize_MAX_def)
  note state = opened_state [OF r3 assms(6,4,5,10) this refl]
  obtain st where "in_stream_of h sid (process_in_stream huff h sid [?last] False now e3) = Some st" "opened_stream st wh"
    using state(4) by blast
  from that [OF trans [OF b1 b3] state(1,2,3) this state(5)] show thesis .
qed

text \<open>
  C3. A stream goes across. When the peer's first bytes on a stream are the header that \<^verbatim>\<open>open_stream\<close>
  writes for a session, and this endpoint has the session and admits the stream, then one read tells
  the host of the stream under that session before anything else of it, and what follows the header,
  no byte more or less, is queued for the host or still to be read, in order.
\<close>

theorem stream_reaches_peer:
  assumes "ep_reachable huff l e" and "max_queued_bytes_global l \<le> usize_MAX"
    and "hm_get (sessions e) h = Some s" and "hm_get (in_streams s) sid = Some (new_in_stream d)"
    and "\<not> is_wt_connect sid s" and "hm_get (pending_client_connects s) sid = None"
    and "unat session_id < 2 ^ 62" and "session_id \<in> set (live_connect_streams s)"
    and "reads_left h sid e = Chunk (stream_header bidi session_id @ payload) # rest" and "Closed_Stream \<notin> set rest"
    and "has_event_slot_capacity 2 (queue e)" and "k = (if bidi then frame_WT_BIDI else stream_type_WT_UNI)"
    and "open_in_stream h sid now (headed d k session_id) e = (e2, Inr (conn, session_id, wh, bidi))"
  shows "(\<exists>evs. events (queue (read_one huff h sid now e)) = events (queue e) @ StreamOpened conn session_id wh bidi # evs) \<and>
    queued_items conn wh (read_one huff h sid now e) @ incoming h sid (read_one huff h sid now e)
      = queued_items conn wh e @ map Some payload @ concat (map answer_items rest)"
proof -
  have sid_ok: "varint_ok session_id" and kind: "wt_kind k"
    using assms(7,12) by (simp_all add: varint_ok_def)
  define slots where "slots = required_event_slots_for_read h sid e"
  have slots: "slots \<noteq> 0" "has_event_slot_capacity slots (queue e)"
    using assms(3,4,11)
    by (auto simp: slots_def required_event_slots_for_read_def new_in_stream_def has_event_slot_capacity_def sat_add_def)
  have "reads_left h sid e = unread (varint_bytes k @ varint_bytes session_id @ payload) rest"
    using assms(9,12) by (simp add: stream_header_def wire_simps unread_def)
  from read_header [OF ep_ok_reachable [OF assms(1)] assms(3,4) sid_ok assms(8) kind this slots(2,1) assms(13)]
  obtain n e1 st where b: "in_stream_batches MAX_READ_BATCHES_PER_PUMP huff h sid slots now e = in_stream_batches n huff h sid slots now e1"
    and e1: "ep_ok l e1" "reads_left h sid e1 = unread payload rest" "hm_get (handle_to_id e1) h = Some conn"
      "in_stream_of h sid e1 = Some st" "opened_stream st wh"
    and ev: "events (queue e1) = events (queue e) @ [StreamOpened conn session_id wh bidi]"
    .
  obtain e' r where r: "in_stream_batches n huff h sid slots now e1 = (e', r)"
    by fastforce
  have "queued_items conn wh e' @ incoming h sid e' = queued_items conn wh e1 @ incoming h sid e1"
    using in_stream_data [OF e1(1) limits_valid [OF assms(1)] assms(2) _ e1(3,4,5) r slots(1)] assms(10) e1(2)
    by (auto simp: unread_def)
  then have items: "queued_items conn wh e' @ incoming h sid e' = queued_items conn wh e @ map Some payload @ concat (map answer_items rest)"
    using ev e1(2) by (simp add: queued_items_def incoming_def unread_def)
  note one = read_one_in_stream [OF assms(3,4,5,6) trans [OF b r, unfolded slots_def]]
  have "\<exists>xs. events (queue e') = events (queue e1) @ xs"
    using appended.stable_in_batches [OF TrueI, of e1 "events (queue e1)" n huff h sid slots now] r by simp
  then have "\<exists>xs. events (queue (read_one huff h sid now e)) = events (queue e1) @ xs"
    unfolding one by (auto intro!: appended.stable_retire appended.stable_emit_reset split: option.split read_outcome.split)
  then show ?thesis
    using items one by (auto simp: ev split: option.split read_outcome.split)
qed
end
