(* ===== verification/Endpoint_Refund.thy ===== *)
theory Endpoint_Refund
  imports Endpoint_Safety
begin

text \<open>
  The bytes of an event that the host does not take. A polled payload event carries a host token; the
  token stays outstanding whatever the wake-ups after the poll do, and when JavaScript gives it back the
  governor has the bytes again, before the waiting connections are woken.
\<close>

section \<open>Tokens between polls\<close>

abbreviation tokens :: "wt_endpoint \<Rightarrow> (nat, reservation_kind) hash_map" where
  "tokens e \<equiv> host_tokens (governor (queue e))"

lemma tokens_drop [simp]: "host_tokens (reservation_drop r g) = host_tokens g"
  by (simp add: reservation_drop_def release_effect split: option.split)

lemma tokens_release [simp]: "host_tokens (release_from k m g) = host_tokens g"
  by (simp add: release_from_def split: option.split)

lemma tokens_reserve: "host_tokens (fst (reserve_kind k g)) = host_tokens g"
  using reserve_kind_frame(1) [of k g] by (metis prod.collapse)

lemma tokens_simps:
  "tokens (set_last_error err e) = tokens e"
  "tokens (quinn h f e) = tokens e"
  "tokens (upd_session h g e) = tokens e"
  "tokens (enqueue_capacity_waiter h e) = tokens e"
  "tokens (remove_handshake h e) = tokens e"
  "tokens (remove_session_reservation h e) = tokens e"
  "tokens (remove_stream_reservation wh e) = tokens e"
  "tokens (index_remove wh e) = tokens e"
  "tokens (upd_governor (reservation_drop r) e) = tokens e"
  "tokens (register_stream wh h sid session_id missing r e) = tokens e"
  by (simp_all add: set_last_error_def quinn_def upd_session_def enqueue_capacity_waiter_def remove_handshake_def
      remove_session_reservation_def remove_stream_reservation_def index_remove_def upd_governor_def register_stream_def
      index_insert_def insert_stream_reservation_def Let_def split: option.split)

lemma tokens_reserve_stream: "tokens (fst (reserve_stream_for conn wh k e)) = tokens e"
  using tokens_reserve [of "RStream conn k" "governor (queue e)"] reserve_stream_id_irrelevant [of conn wh k "governor (queue e)"]
  by (simp add: reserve_stream_for_def case_prod_beta)

lemma tokens_push: "host_tokens (governor (fst (try_push_event ev q))) = host_tokens (governor q)"
proof -
  have "host_tokens (fst (event_reservation ev g)) = host_tokens g" for g
    using tokens_reserve [of "RQueuedBytes c s n" g for c s n]
    by (cases ev) (auto simp: case_prod_beta split: prod.split sum.split)
  then show ?thesis
    by (simp add: try_push_event_def case_prod_beta split: sum.split)
qed

lemma tokens_cleanup: "tokens (cleanup_connection h now e) = tokens e"
proof -
  have forget: "tokens (fold forget_stream xs e) = tokens e" for xs e
    by (induction xs arbitrary: e)
      (auto simp: forget_stream_def remove_stream_reservation_def upd_governor_def unpause_def case_prod_beta)
  show ?thesis
    by (simp add: cleanup_unregister forget unregister_def tokens_simps Let_def split: option.split)
qed

interpretation tokens_kept: endpoint_stable "\<lambda>e. tokens e = m" "\<lambda>_. True" for m
proof (unfold_locales, goal_cases)
  case (19 e conn wh k e' err)
  then show ?case
    using tokens_reserve_stream [of conn wh k e] by simp
next
  case (20 e conn wh k e' r)
  then show ?case
    using tokens_reserve_stream [of conn wh k e] by (simp add: tokens_simps)
next
  case (21 e h conn k e' r sid session_id missing)
  then show ?case
    using tokens_reserve_stream [of conn "next_stream e" k e] by (simp add: tokens_simps)
qed (simp_all add: tokens_simps tokens_push tokens_cleanup)

section \<open>A poll and a release\<close>

lemma polled_token:
  assumes "ep_ok l e" and "events (queue e) = ev # evs" and "event_kind ev = Some k"
    and "poll_event_encoded (queue e) = (q, Poll_Encoded bytes)"
  obtains t where "1 \<le> t" and "t \<le> 4294967295" and "hm_get (host_tokens (governor q)) t = Some k"
    and "bytes = encode_with_host_token ev (Some (word_of_nat t))"
proof -
  have ok: "queue_ok l (held e) (queue e)"
    using assms(1) by (simp add: ep_ok_def ep_bal_def)
  note h = queue_ok_head [OF ok assms(2)]
  have ceil: "host_token_ceiling (governor (queue e)) = 4294967295"
    using ok by (simp add: queue_ok_def gov_ok_def)
  obtain conn stream n where k: "k = RQueuedBytes conn stream n"
    using assms(3) by (cases ev) auto
  show thesis
  proof (cases rule: allocate_total [of "governor (queue e)"])
    case (fresh t f)
    let ?g = "(governor (queue e))\<lparr>next_host_token := f, host_tokens := hm_insert t k (host_tokens (governor (queue e)))\<rparr>"
    have "transfer_to_host (reservation_new k) (governor (queue e)) = Some (?g, Inr t)"
      using fresh k by (simp add: transfer_to_host_def reservation_new_def)
    then have "governor q = ?g" and "bytes = encode_with_host_token ev (Some (word_of_nat t))"
      using assms(2,3,4) h by (auto simp: poll_event_encoded_def)
    then show thesis
      using that [of t] fresh(2,3) ceil by simp
  next
    case (full err)
    then have "transfer_to_host (reservation_new k) (governor (queue e)) = Some (release_kind (governor (queue e)) k, Inl err)"
      using k by (simp add: transfer_to_host_def reservation_new_def)
    then show thesis
      using assms(2,3,4) h by (simp add: poll_event_encoded_def)
  qed
qed

lemma token_counted:
  assumes "ep_ok l e" and "hm_get (tokens e) t = Some k"
  shows "weight k c \<le> counter_value (governor (queue e)) c"
proof -
  let ?all = "outstanding (governor (queue e)) (held e + queued_kinds (events (queue e)))"
  have "governor_ledger.justified (governor (queue e)) ?all"
    using assms(1) by (simp add: ep_ok_def ep_bal_def queue_ok_def gov_ok_def)
  then have total: "counter_value (governor (queue e)) c = (\<Sum>k\<in>#?all. weight k c)"
    using governor_ledger.balancedD by (simp add: governor_ledger.justified_def)
  have "(t, k) \<in> set (tokens e)"
    by (rule map_of_SomeD [OF assms(2)])
  then have "k \<in> snd ` set (tokens e)"
    by (rule rev_image_eqI) simp
  then have "k \<in># ?all"
    by (simp add: outstanding_def)
  then obtain M where "?all = add_mset k M"
    by (rule mset_add)
  then show ?thesis
    by (simp add: total)
qed

lemma queue_release_outstanding:
  assumes "hm_get (host_tokens (governor q)) t = Some k" and "k = RQueuedBytes conn stream n"
  obtains q' where "queue_release_host_token t q = (q', True)" and "events q' = events q"
    and "governor q' = release_kind ((governor q)\<lparr>host_tokens := hm_remove t (host_tokens (governor q))\<rparr>) k"
  using assms
  by (auto simp: queue_release_host_token_def release_host_token_with_context_def split: prod.splits option.splits)

text \<open>
  C35. An event that JavaScript does not accept costs nothing. Let a payload event be at the head of the queue
  of a reachable endpoint, one that JavaScript can decode (the session id of a datagram is a safe integer,
  the data is no longer than \<^verbatim>\<open>usize\<close>), and let the poll find a free token. When the event's callback is
  missing or throws, the dispatch releases exactly the token the poll attached, and giving it to
  \<^verbatim>\<open>release_host_token\<close> returns the bytes of the event to every counter they were charged to, before
  waiting connections are woken to use them.
\<close>

theorem undelivered_event_refunded:
  assumes "ep_reachable huff l e" and "events (queue e) = ev # evs" and "event_kind ev = Some k" and "host_ok ev"
    and "ep_poll_event_encoded 1 huff now e = (e', Some (Some bytes))" and "cb \<noteq> Returns"
  shows "\<exists>t q. released (dispatchDecodedWasmEvent cb (decodeWasmEvent bytes)) = [t] \<and>
    ep_release_host_token huff now' t e' = (resume_waiting_after_capacity_change huff now' (e'\<lparr>queue := q\<rparr>), True) \<and>
    events q = events (queue e') \<and>
    (\<forall>c. counter_value (governor (queue e')) c = counter_value (governor q) c + weight k c)"
proof -
  have ok: "ep_ok l e"
    by (rule ep_ok_reachable [OF assms(1)])
  then have ok': "ep_ok l e'"
    using ep_sound.stable_poll_encoded [of l e 1 huff now] assms(5) by simp
  obtain q where poll: "poll_event_encoded (queue e) = (q, Poll_Encoded bytes)"
    and e': "e' = resume_waiting_after_capacity_change huff now (e\<lparr>queue := q\<rparr>)"
    using assms(5) by (auto simp: poll_encoded_round_def Let_def split: prod.splits poll_outcome.splits round.splits)
  obtain t where t: "1 \<le> t" "t \<le> 4294967295" and kept: "hm_get (host_tokens (governor q)) t = Some k"
    and bytes: "bytes = encode_with_host_token ev (Some (word_of_nat t))"
    by (rule polled_token [OF ok assms(2,3) poll])
  have here: "hm_get (tokens e') t = Some k"
    using tokens_kept.stable_wakes [of "e\<lparr>queue := q\<rparr>" "host_tokens (governor q)" huff now] kept by (simp add: e')
  have "released (dispatchDecodedWasmEvent cb (decodeWasmEvent bytes)) = [t]"
    using event_decodes [OF assms(4)] event_token_host_view [OF assms(3) t] assms(6) by (simp add: bytes dispatch_token)
  moreover obtain conn stream n where "k = RQueuedBytes conn stream n"
    using assms(3) by (cases ev) auto
  then obtain q' where q': "queue_release_host_token t (queue e') = (q', True)" "events q' = events (queue e')"
    "governor q' = release_kind ((governor (queue e'))\<lparr>host_tokens := hm_remove t (tokens e')\<rparr>) k"
    by (rule queue_release_outstanding [OF here])
  moreover have "counter_value (g\<lparr>host_tokens := m\<rparr>) c = counter_value g c" for g m c
    by (cases c) simp_all
  ultimately show ?thesis
    using token_counted [OF ok' here]
    by (intro exI [of _ t] exI [of _ q']) (simp add: ep_release_host_token_def release_effect)
qed

end
