(* ===== verification/Endpoint_Sample.thy ===== *)
theory Endpoint_Sample
  imports Endpoint_Streams Endpoint_Refund
begin

text \<open>
  A client's run, computed: it connects, opens its CONNECT stream, accepts a unidirectional stream of
  the peer and opens a bidirectional one. The results of the other theories are applied to it.
\<close>

section \<open>Connecting\<close>

definition no_huffman :: "bytes \<Rightarrow> bytes option" where
  "no_huffman _ = None"

definition sample_conn :: quinn_conn where
  "sample_conn = \<lparr>q_side = Side_Client, q_events = [Quic_Connected], q_accept = (\<lambda>d. if d = Dir_Uni then [3] else []),
     q_open = (\<lambda>d. if d = Dir_Bi then [0] else []), q_reads = [], q_datagrams = [], q_writes = [], q_sends = [],
     q_max_size = None, q_transmits = [], q_timeout = None, q_calls = []\<rparr>"

lemma default_limits:
  "max_sessions wasm_limits_default = 2000" "max_handshakes_in_flight wasm_limits_default = 200"
  "idle_timeout_ms wasm_limits_default = 60000" "Wasm_Limits.handshake_timeout_ms wasm_limits_default = 10000"
  "max_queued_bytes_global wasm_limits_default = 536870912" "max_queued_bytes_per_session wasm_limits_default = 2097152"
  "max_queued_bytes_per_stream wasm_limits_default = 262144" "max_streams_global wasm_limits_default = 50000"
  "max_streams_per_session_uni wasm_limits_default = 200" "max_streams_per_session_bidi wasm_limits_default = 200"
  by (simp_all add: wasm_limits_default_def)

definition sample_limiter :: peer_rate_limiter where
  "sample_limiter = (case peer_rate_limiter_new wasm_rate_limits_default wasm_limits_default of Inr s \<Rightarrow> s)"

definition sample_governor :: governor_inner where
  "sample_governor = (case governor_new wasm_limits_default of Inr g \<Rightarrow> g)"

lemma sample_governor: "governor_new wasm_limits_default = Inr sample_governor"
  "limits sample_governor = wasm_limits_default" "handshakes_in_flight sample_governor = 0" "sessions_active sample_governor = 0"
  "streams_active_global sample_governor = 0" "streams_bidi_per_session sample_governor = []"
  "streams_uni_per_session sample_governor = []" "queued_bytes_global sample_governor = 0"
  "queued_bytes_per_session sample_governor = []" "queued_bytes_per_stream sample_governor = []"
  "host_tokens sample_governor = []"
  by (simp_all add: sample_governor_def governor_new_def wasm_limits_default_valid)

definition sample_built :: wt_endpoint where
  "sample_built =
     \<lparr>is_server = False, conns = [], sessions = [], handle_to_id = [], id_to_handle = [], next_id = 1, stream_index = [],
      rev_index = [], stream_sessions = [], paused = [], half_done = [], next_stream = 1,
      queue = \<lparr>events = [], event_reservations = [], governor = sample_governor, last_error = None\<rparr>,
      endpoint_tx = [], rate_limiter = sample_limiter, handshake_reservations = [], session_reservations = [],
      stream_reservations = [], capacity_waiters = \<lparr>wait_order = [], wait_present = []\<rparr>, handshake_timeout_ms = 10000,
      wt_max_sessions = WT_MAX_SESSIONS_DEFAULT, enable_0rtt = False, nst_flush_remaining = [], session_closed_count = 0,
      qpack_settings = Endpoint_Host.qpack_local_settings_disabled, panicked = False\<rparr>"

lemma sample_build: "build False wasm_limits_default wasm_rate_limits_default False (Inr ()) = Inr sample_built"
  by (simp add: sample_built_def build_def wasm_limits_default_valid wasm_rate_limits_default_valid sample_governor
      default_limits VarInt_MAX_def sample_limiter_def peer_rate_limiter_new_def)

lemma sample_name: "tls_server_name_from_authority (str_lit ''a'') = Some (str_lit ''a'')"
  by code_simp

definition sample_connecting :: wt_endpoint where
  "sample_connecting = fst (connect (str_lit ''a'') (\<lambda>_. Some (0, sample_conn)) 0 sample_built)"

definition fresh_session :: session where
  "fresh_session = (session_default Endpoint_Host.qpack_local_settings_disabled)
     \<lparr>authority := str_lit ''a'', connect_deadline := Some (10000 * millis)\<rparr>"

lemmas connect_eval = connect_def admit_new_connection_def reserve_handshake_def reserve_session_def sample_name register_def
  add_connection_def insert_session_reservation_def insert_handshake_def upd_governor_def checked_add_word_def release_from_def
  sample_governor default_limits fresh_session_def

lemma sample_connecting_state:
  "sample_connecting = sample_built\<lparr>conns := [(0, sample_conn)], sessions := [(0, fresh_session)],
     handle_to_id := [(0, 1)], id_to_handle := [(1, 0)], next_id := 2,
     queue := (queue sample_built)\<lparr>governor := sample_governor\<lparr>sessions_active := 1, handshakes_in_flight := 1\<rparr>\<rparr>,
     handshake_reservations := [(0, reservation_new RHandshake)], session_reservations := [(0, reservation_new (RSession 0))]\<rparr>"
  by (simp add: sample_connecting_def sample_built_def connect_eval)

section \<open>The connection is up\<close>

lemma hm_modify_comp: "hm_modify k f (hm_modify k g m) = hm_modify k (f \<circ> g) m"
  by (auto simp: hm_modify_def)

lemma log_call_fun: "log_call c = (\<lambda>q. q\<lparr>q_calls := q_calls q @ [c]\<rparr>)"
  by (simp add: log_call_def fun_eq_iff)

text \<open>The request itself stays abstract: it is written to the connection and changes the QPACK state.\<close>

lemma send_request_frame:
  assumes "hm_get (sessions e) h = Some s"
  obtains q cs where "send_connect_request h sid auth e =
    e\<lparr>conns := hm_modify h (\<lambda>c. c\<lparr>q_calls := q_calls c @ cs\<rparr>) (conns e),
      sessions := hm_modify h (\<lambda>s. s\<lparr>qpack := q\<rparr>) (sessions e)\<rparr>"
proof -
  obtain q0 hdrs where f: "encode_request_for_session auth (qpack s) = (q0, hdrs)"
    by fastforce
  let ?cs = "(if eh_encoder_stream hdrs \<noteq> [] then
        (case qpack_encoder_send s of Some x \<Rightarrow> [Call_Write x (eh_encoder_stream hdrs)] | None \<Rightarrow> []) else [])
     @ [Call_Write sid (eh_headers_frame hdrs)]"
  let ?q = "if eh_ric hdrs > 0 then q0\<lparr>qs_pending_section_ric := (qs_pending_section_ric q0)(sid \<mapsto> eh_ric hdrs)\<rparr> else q0"
  have "send_connect_request h sid auth e = e\<lparr>conns := hm_modify h (\<lambda>c. c\<lparr>q_calls := q_calls c @ ?cs\<rparr>) (conns e),
      sessions := hm_modify h (\<lambda>s. s\<lparr>qpack := ?q\<rparr>) (sessions e)\<rparr>"
    using assms f
    by (auto simp: send_connect_request_def with_qpack_def write_encoded_headers_def call_def quinn_def upd_session_def
        log_call_fun hm_modify_comp comp_def Let_def split: option.split)
  then show thesis
    by (rule that)
qed

lemma once: "(\<lambda>d. if d = x then xs else [])(x := []) = (\<lambda>_. [])" "(\<lambda>_. [])(x := []) = (\<lambda>_. [])"
  by auto

lemma batches_Suc: "MAX_READ_BATCHES_PER_PUMP = Suc 63"
  by (simp add: MAX_READ_BATCHES_PER_PUMP_def)

definition sample_session :: "qpack_session \<Rightarrow> session" where
  "sample_session q = fresh_session\<lparr>connect_stream := Some 0, connect_self_opened := True, qpack := q,
     in_streams := [(3, new_in_stream Dir_Uni)]\<rparr>"

definition sample_quinn :: "quinn_call list \<Rightarrow> quinn_conn" where
  "sample_quinn cs = \<lparr>q_side = Side_Client, q_events = [], q_accept = (\<lambda>_. []), q_open = (\<lambda>_. []), q_reads = [(3, []), (0, [])],
     q_datagrams = [], q_writes = [], q_sends = [], q_max_size = None, q_transmits = [], q_timeout = None, q_calls = cs\<rparr>"

text \<open>The state with what the connection and the session are.\<close>

definition sample_up :: "quinn_conn \<Rightarrow> session \<Rightarrow> wt_endpoint" where
  "sample_up c s = sample_connecting\<lparr>conns := [(0, c)], sessions := [(0, s)],
     queue := (queue sample_connecting)\<lparr>events := [Connected 1], event_reservations := [None]\<rparr>\<rparr>"

lemmas sample_eval = sample_up_def sample_connecting_state sample_built_def sample_quinn_def sample_session_def fresh_session_def
  session_default_def quinn_def upd_session_def hm_modify_def

lemma accepting_sample:
  "accept_streams 0 Dir_Bi (accept_streams 0 Dir_Uni
     (sample_up ((sample_quinn cs)\<lparr>q_accept := (\<lambda>d. if d = Dir_Uni then [3] else []), q_reads := []\<rparr>)
        ((sample_session q)\<lparr>in_streams := []\<rparr>)))
   = sample_up ((sample_quinn cs)\<lparr>q_reads := []\<rparr>) (sample_session q)"
  by (simp add: accept_streams_def sample_eval hm_or_insert_def once)

lemma draining_sample: "q_datagrams c = [] \<Longrightarrow> drain_datagrams 0 0 (sample_up c s) = sample_up c s"
  by (simp add: drain_datagrams_def drain_datagrams_loop.simps sample_eval has_event_slot_capacity_def sat_add_def usize_MAX_def
      MAX_PENDING_EVENTS_def available_event_bytes_def sample_governor default_limits)

lemma reading_sample_stream:
  "read_one no_huffman 0 3 0 (sample_up ((sample_quinn cs)\<lparr>q_reads := []\<rparr>) (sample_session q))
   = sample_up ((sample_quinn cs)\<lparr>q_reads := [(3, [])]\<rparr>) (sample_session q)"
  unfolding read_one_def read_in_stream_def batches_Suc in_stream_batches.simps
  by (simp add: sample_eval new_in_stream_def
      required_event_slots_for_read_def should_wait_for_event_slots_def has_event_slot_capacity_def sat_add_def usize_MAX_def
      MAX_PENDING_EVENTS_def in_stream_read_limit_def in_stream_of_def conn_read_def read_stream_def
      should_backpressure_zero_progress_read_def should_stop_read_batch_def process_in_stream_def route_in_stream_def
      decode_kind_def put_in_stream_def varint_decode_def is_wt_connect_def)

lemma reading_sample_connect:
  "read_one no_huffman 0 0 0 (sample_up ((sample_quinn cs)\<lparr>q_reads := [(3, [])]\<rparr>) (sample_session q))
   = sample_up (sample_quinn cs) (sample_session q)"
  unfolding read_one_def read_primary_connect_def batches_Suc protocol_batches.simps
  by (simp add: sample_eval conn_read_def read_stream_def
      should_stop_read_batch_def)

lemma reading_sample:
  "read_streams no_huffman 0 0 (sample_up ((sample_quinn cs)\<lparr>q_reads := []\<rparr>) (sample_session q))
   = sample_up (sample_quinn cs) (sample_session q)"
proof -
  have s: "hm_get (sessions (sample_up c s)) 0 = Some s" "paused (sample_up c s) = []" for c s
    by (simp_all add: sample_eval)
  have "readable_streams (sample_session q) [] @ remdups (all_connect_streams (sample_session q)) = [3, 0]"
    by (simp add: readable_streams_def sample_session_def fresh_session_def session_default_def all_connect_streams_def new_in_stream_def)
  then show ?thesis
    using reading_sample_stream [of cs q] reading_sample_connect [of cs q] by (simp add: read_streams_def s)
qed

definition sample_connected :: wt_endpoint where
  "sample_connected = recv no_huffman 0 \<lparr>sa_ip = IpV4 0, sa_port = 0\<rparr> (Packet_Event 0 sample_conn) sample_connecting"

lemma sample_connected_state:
  obtains q cs where "sample_connected = sample_up (sample_quinn cs) (sample_session q)"
proof -
  let ?x = "quinn 0 (new_answers Call_Handle_Event sample_conn) sample_connecting"
  let ?e = "ep_push_event (Connected 1) (quinn 0 (\<lambda>c. c\<lparr>q_events := [], q_open := (\<lambda>d. if d = Dir_Bi then [0] else [])(Dir_Bi := [])\<rparr>) ?x)"
  note eval = sample_eval sample_conn_def new_answers_def ep_push_event_def push_event_def try_push_event_def MAX_PENDING_EVENTS_def
  have "\<exists>s. hm_get (sessions ?e) 0 = Some s"
    by (simp add: eval)
  then obtain q cs where r: "send_connect_request 0 0 (str_lit ''a'') ?e =
      ?e\<lparr>conns := hm_modify 0 (\<lambda>c. c\<lparr>q_calls := q_calls c @ cs\<rparr>) (conns ?e),
      sessions := hm_modify 0 (\<lambda>s. s\<lparr>qpack := q\<rparr>) (sessions ?e)\<rparr>"
    using send_request_frame [of ?e 0 _ 0 "str_lit ''a''"] by blast
  let ?cs = "[Call_Handle_Event] @ cs"
  let ?d = "sample_up ((sample_quinn ?cs)\<lparr>q_accept := (\<lambda>d. if d = Dir_Uni then [3] else []), q_reads := []\<rparr>)
      ((sample_session q)\<lparr>in_streams := []\<rparr>)"
  have on: "on_connected 0 (ep_push_event (Connected 1) (quinn 0 (\<lambda>c. c\<lparr>q_events := []\<rparr>) ?x)) = ?d"
    using r by (simp add: eval on_connected_def open_protocol_stream_def quinn_open_def once)
  have c: "hm_get (conns ?x) 0 \<noteq> None" "hm_get (handle_to_id (quinn 0 (\<lambda>c. c\<lparr>q_events := []\<rparr>) ?x)) 0 = Some 1" "\<not> enable_0rtt ?d"
      "hm_get (conns ?d) 0 \<noteq> None"
    by (simp_all add: eval)
  then have loop: "drive_loop no_huffman 0 0 [Quic_Connected] ?x = (?d, True)"
    using on by simp
  have events: "(case hm_get (conns ?x) 0 of None \<Rightarrow> [] | Some c \<Rightarrow> q_events c) = [Quic_Connected]"
    by (simp add: eval)
  have "sample_connected = drive no_huffman 0 0 ?x"
    by (simp add: sample_connected_def recv_def sample_connecting_state)
  also have "\<dots> = sample_up (sample_quinn ?cs) (sample_session q)"
    using c(1) events loop accepting_sample [of ?cs q] draining_sample [of "(sample_quinn ?cs)\<lparr>q_reads := []\<rparr>"] reading_sample [of ?cs q]
    by (auto simp: drive_def sample_quinn_def)
  finally show thesis
    by (rule that)
qed

lemma sample_connected_fields:
  "id_to_handle sample_connected = [(1, 0)]" "handle_to_id sample_connected = [(0, 1)]" "sessions sample_connected \<noteq> []"
  "events (queue sample_connected) = [Connected 1]" "handshakes_in_flight (governor (queue sample_connected)) = 1"
proof -
  obtain q cs where up: "sample_connected = sample_up (sample_quinn cs) (sample_session q)"
    by (rule sample_connected_state)
  show "id_to_handle sample_connected = [(1, 0)]" "handle_to_id sample_connected = [(0, 1)]" "sessions sample_connected \<noteq> []"
    "events (queue sample_connected) = [Connected 1]" "handshakes_in_flight (governor (queue sample_connected)) = 1"
    unfolding up by (simp_all add: sample_eval)
qed

section \<open>What the run can reach\<close>

lemma sample_connecting_reachable: "ep_reachable no_huffman wasm_limits_default sample_connecting"
proof -
  have "fresh_handles (\<lambda>_. Some (0, sample_conn)) sample_built"
    by (simp add: fresh_handles_def sample_built_def)
  from ep_reachable.Step [OF ep_reachable.Build [OF sample_build] ep_step.Connect [OF this]] show ?thesis
    unfolding sample_connecting_def .
qed

lemma sample_connected_reachable: "ep_reachable no_huffman wasm_limits_default sample_connected"
proof -
  have "fresh_packet (Packet_Event 0 sample_conn) sample_connecting"
    by (simp add: fresh_packet_def)
  from ep_reachable.Step [OF sample_connecting_reachable ep_step.Recv [OF this]] show ?thesis
    unfolding sample_connected_def .
qed

text \<open>The same with quinn's next answers for one stream, and with a second connection.\<close>

definition answering :: "stream_id \<Rightarrow> read_answer list \<Rightarrow> wt_endpoint \<Rightarrow> wt_endpoint" where
  "answering sid ans = quinn 0 (\<lambda>c. c\<lparr>q_reads := [(sid, ans)]\<rparr>)"

lemma answering_reachable: "ep_reachable huff l e \<Longrightarrow> ep_reachable huff l (answering sid ans e)"
  unfolding answering_def by (rule ep_reachable.Step [OF _ ep_step.Answers])

definition sample_pair :: wt_endpoint where
  "sample_pair = fst (connect (str_lit ''a'') (\<lambda>_. Some (1, sample_conn)) 0 sample_connecting)"

lemma sample_pair_state: "hm_get (conns sample_pair) 0 = Some sample_conn" "hm_get (conns sample_pair) 1 = Some sample_conn"
    "hm_get (sessions sample_pair) 1 = Some fresh_session"
  by (simp_all add: sample_pair_def sample_connecting_state sample_built_def connect_eval)

lemma sample_pair_reachable: "ep_reachable no_huffman wasm_limits_default sample_pair"
proof -
  have "fresh_handles (\<lambda>_. Some (1, sample_conn)) sample_connecting"
    by (simp add: fresh_handles_def sample_connecting_state)
  from ep_reachable.Step [OF sample_connecting_reachable ep_step.Connect [OF this]] show ?thesis
    unfolding sample_pair_def .
qed

text \<open>A stream of this side, opened by the host.\<close>

definition sample_opened :: wt_endpoint where
  "sample_opened = fst (open_stream 1 0 True (quinn 0 (\<lambda>c. c\<lparr>q_open := (\<lambda>_. [4])\<rparr>) sample_connected))"

lemma sample_opened_reachable: "ep_reachable no_huffman wasm_limits_default sample_opened"
  unfolding sample_opened_def
  by (intro ep_reachable.Step [OF ep_reachable.Step [OF sample_connected_reachable ep_step.Answers] ep_step.Open_Stream])

lemma sample_opened_state:
  obtains c s where "hm_get (conns sample_opened) 0 = Some c" and "hm_get (sessions sample_opened) 0 = Some s"
    and "self_bidi s = [(4, 1)]" and "in_streams s = [(3, new_in_stream Dir_Uni)]" and "connect_stream s = Some 0"
    and "extra_sessions s = []" and "pending_client_connects s = []" and "\<not> connect_closed s" and "connect_self_opened s"
    and "capsules s = []" and "handle_to_id sample_opened = [(0, 1)]" and "stream_index sample_opened = [(1, 0, 4)]"
    and "stream_sessions sample_opened = [(1, 0)]" and "events (queue sample_opened) = [Connected 1]"
    and "event_reservations (queue sample_opened) = [None]" and "tokens sample_opened = []" and "paused sample_opened = []"
    and "wait_order (capacity_waiters sample_opened) = []"
    and "available_event_bytes 1 (Some 1) (governor (queue sample_opened)) = 262144"
proof -
  obtain q cs where up: "sample_connected = sample_up (sample_quinn cs) (sample_session q)"
    by (rule sample_connected_state)
  let ?o = "fst (open_stream 1 0 True (quinn 0 (\<lambda>c. c\<lparr>q_open := (\<lambda>_. [4])\<rparr>) (sample_up (sample_quinn cs) (sample_session q))))"
  have "\<exists>c s. hm_get (conns ?o) 0 = Some c \<and> hm_get (sessions ?o) 0 = Some s \<and>
      self_bidi s = [(4, 1)] \<and> in_streams s = [(3, new_in_stream Dir_Uni)] \<and> connect_stream s = Some 0 \<and>
      extra_sessions s = [] \<and> pending_client_connects s = [] \<and> \<not> connect_closed s \<and> connect_self_opened s \<and> capsules s = [] \<and>
      handle_to_id ?o = [(0, 1)] \<and> stream_index ?o = [(1, 0, 4)] \<and> stream_sessions ?o = [(1, 0)] \<and> events (queue ?o) = [Connected 1] \<and>
      event_reservations (queue ?o) = [None] \<and> tokens ?o = [] \<and> paused ?o = [] \<and>
      wait_order (capacity_waiters ?o) = [] \<and> available_event_bytes 1 (Some 1) (governor (queue ?o)) = 262144"
    by (simp add: available_event_bytes_def release_from_def hm_count_def open_stream_def sample_eval resolve_wt_session_def all_connect_streams_def checked_add_word_def
        reserve_stream_for_def reserve_stream_def quinn_open_def sample_governor default_limits stream_kind_of_def call_def
        register_stream_def index_insert_def insert_stream_reservation_def upd_governor_def log_call_fun)
  then show thesis
    using that unfolding sample_opened_def up by blast
qed

text \<open>The host takes the first event, and then the reply half of its stream delivers a byte.\<close>

definition sample_paused :: wt_endpoint where
  "sample_paused = answering 4 [Chunk [65]] (stream_pause 1 (fst (ep_poll_event no_huffman 0 sample_opened)))"

definition sample_delivered :: wt_endpoint where
  "sample_delivered = stream_resume no_huffman 0 1 sample_paused"

lemma sample_paused_reachable: "ep_reachable no_huffman wasm_limits_default sample_paused"
  unfolding sample_paused_def
  by (intro answering_reachable ep_reachable.Step [OF ep_reachable.Step [OF sample_opened_reachable ep_step.Poll] ep_step.Pause])

lemma sample_delivered_reachable: "ep_reachable no_huffman wasm_limits_default sample_delivered"
  unfolding sample_delivered_def by (rule ep_reachable.Step [OF sample_paused_reachable ep_step.Resume])

lemma read_idle_stream:
  assumes "hm_get (sessions e) h = Some s" and "in_streams s = [(sid, new_in_stream Dir_Uni)]" and "hm_get (handle_to_id e) h = Some conn"
    and "hm_get (conns e) h = Some c" and "hm_get (q_reads c) sid = None" and "hm_get (pending_client_connects s) sid = None"
    and "\<not> is_wt_connect sid s" and "events (queue e) = []"
  shows "read_one huff h sid now e
    = put_in_stream h sid (new_in_stream Dir_Uni) (quinn h (\<lambda>c. c\<lparr>q_reads := hm_insert sid [] (q_reads c)\<rparr>) e)"
proof -
  let ?e = "quinn h (\<lambda>c. c\<lparr>q_reads := hm_insert sid [] (q_reads c)\<rparr>) e"
  have st: "in_stream_of h sid e = Some (new_in_stream Dir_Uni)" "in_stream_of h sid ?e = Some (new_in_stream Dir_Uni)"
    using assms(1,2) by (simp_all add: in_stream_of_def quinn_def)
  have limit: "in_stream_read_limit h sid e = 1"
    using st by (simp add: in_stream_read_limit_def new_in_stream_def)
  have read: "conn_read h sid 1 e = (?e, [], Open)"
    using assms(4,5) by (simp add: conn_read_def read_stream_def)
  have "process_in_stream huff h sid [] False now ?e = put_in_stream h sid (new_in_stream Dir_Uni) ?e"
    using st assms(1,2,3)
    by (simp add: process_in_stream_def route_in_stream_def decode_kind_def new_in_stream_def varint_decode_def quinn_def
        put_in_stream_def upd_session_def)
  then have "in_stream_batches (Suc n) huff h sid slots now e = (put_in_stream h sid (new_in_stream Dir_Uni) ?e, Some Open)"
    if "has_event_slot_capacity slots (queue e)" for n slots
    using that read limit
    by (simp add: should_wait_for_event_slots_def should_backpressure_zero_progress_read_def should_stop_read_batch_def)
  moreover have "has_event_slot_capacity (required_event_slots_for_read h sid e) (queue e)"
    using assms(1,2,8) by (simp add: required_event_slots_for_read_def has_event_slot_capacity_def sat_add_def new_in_stream_def
        usize_MAX_def MAX_PENDING_EVENTS_def)
  ultimately have "in_stream_batches MAX_READ_BATCHES_PER_PUMP huff h sid (required_event_slots_for_read h sid e) now e
      = (put_in_stream h sid (new_in_stream Dir_Uni) ?e, Some Open)"
    unfolding batches_Suc by blast
  from read_one_in_stream [OF assms(1) _ assms(7,6) this, of "new_in_stream Dir_Uni"] show ?thesis
    using assms(2) by simp
qed

lemma read_chunk:
  assumes "ep_ok l e" and "wasm_limits_validate l = Inr ()" and "max_queued_bytes_global l \<le> usize_MAX"
    and "hm_get (handle_to_id e) h = Some conn" and "hm_get (sessions e) h = Some s"
    and "\<not> is_wt_connect sid s" and "hm_get (pending_client_connects s) sid = None" and "hm_get (in_streams s) sid = None"
    and "hm_get (self_bidi s) sid = Some wh" and "reads_left h sid e = [Chunk c]" and "c \<noteq> []"
    and "length c \<le> available_event_bytes conn (Some wh) (governor (queue e))" and "has_event_slot_capacity 1 (queue e)"
  shows "\<exists>xs. events (queue (read_one huff h sid now e)) = events (queue e) @ [StreamData conn wh False c] @ xs"
proof -
  let ?limit = "available_event_bytes conn (Some wh) (governor (queue e))"
  have "read_stream ?limit (reads_left h sid e) = (c, Open, [])"
    using assms(10-12) by (cases c) (auto simp: read_stream_def)
  then obtain e1 where read: "conn_read h sid ?limit e = (e1, c, Open)" and same: "queue e1 = queue e"
    using assms(10) by (auto simp: conn_read_def reads_left_def quinn_def split: option.splits)
  have ok1: "ep_ok l e1"
    using ep_sound.stable_conn_read [OF TrueI assms(1), of h sid ?limit] read by simp
  let ?e2 = "ep_push_event (StreamData conn wh False c) e1" and ?pre = "events (queue e) @ [StreamData conn wh False c]"
  have "\<exists>xs. events (queue ?e2) = ?pre @ xs"
    using read_data_fits [OF ok1 assms(2,3), of 1 c conn wh False] same assms(11-13) by simp
  from appended.stable_bidi_batches [OF TrueI this, of 63 h sid wh conn]
  obtain e' r where rest: "self_bidi_batches 63 h sid wh conn ?e2 = (e', r)" and grown: "\<exists>xs. events (queue e') = ?pre @ xs"
    by (metis prod.collapse)
  have "self_bidi_batches (Suc n) h sid wh conn e = self_bidi_batches n h sid wh conn ?e2" for n
    using read assms(11,13)
    by (simp add: Let_def should_emit_self_bidi_chunk_def should_backpressure_zero_progress_read_def should_stop_read_batch_def)
  from this [of 63] have "self_bidi_batches MAX_READ_BATCHES_PER_PUMP h sid wh conn e = (e', r)"
    unfolding batches_Suc rest .
  then have "read_one huff h sid now e = (case r of None \<Rightarrow> e' | Some oc \<Rightarrow> on_self_bidi_read_outcome h sid wh conn oc e')"
    using assms(4-9) by (simp add: read_one_def is_wt_connect_def read_self_bidi_def split: option.split)
  moreover have "\<exists>xs. events (queue (case r of None \<Rightarrow> e' | Some oc \<Rightarrow> on_self_bidi_read_outcome h sid wh conn oc e')) = ?pre @ xs"
    using grown appended.stable_push [OF grown]
    by (simp add: reported_bidi report_reset_def split: option.split read_outcome.split)
  ultimately show ?thesis
    by simp
qed

lemma sample_delivered_state:
  obtains evs where "events (queue sample_delivered) = StreamData 1 1 False [65] # evs" and "tokens sample_delivered = []"
proof (rule sample_opened_state)
  fix c s
  assume a: "hm_get (conns sample_opened) 0 = Some c" "hm_get (sessions sample_opened) 0 = Some s" "self_bidi s = [(4, 1)]"
    "in_streams s = [(3, new_in_stream Dir_Uni)]" "connect_stream s = Some 0" "extra_sessions s = []"
    "pending_client_connects s = []" "handle_to_id sample_opened = [(0, 1)]" "stream_index sample_opened = [(1, 0, 4)]"
    "events (queue sample_opened) = [Connected 1]" "event_reservations (queue sample_opened) = [None]" "tokens sample_opened = []"
    "paused sample_opened = []" "wait_order (capacity_waiters sample_opened) = []"
    "available_event_bytes 1 (Some 1) (governor (queue sample_opened)) = 262144"
  let ?e = "unpause 1 sample_paused"
  have p: "sample_paused = answering 4 [Chunk [65]] (sample_opened\<lparr>queue := (queue sample_opened)\<lparr>events := [], event_reservations := []\<rparr>,
      paused := [1]\<rparr>)"
    using a by (simp add: sample_paused_def ep_poll_event_def poll_event_def pop_reservation_def stream_pause_def hs_insert_def
        resume_waiting_after_capacity_change_def)
  have e: "hm_get (sessions ?e) 0 = Some s" "hm_get (handle_to_id ?e) 0 = Some 1" "events (queue ?e) = []" "paused ?e = []"
      "hm_get (conns ?e) 0 = Some (c\<lparr>q_reads := [(4, [Chunk [65]])]\<rparr>)" "tokens ?e = []"
      "available_event_bytes 1 (Some 1) (governor (queue ?e)) = 262144" "paused sample_paused = [1]" "hm_get (stream_index sample_paused) 1 = Some (0, 4)"
    using a by (simp_all add: p unpause_def answering_def quinn_def hs_remove_def)
  let ?i = "read_one no_huffman 0 3 0 ?e"
  have i: "?i = put_in_stream 0 3 (new_in_stream Dir_Uni) (quinn 0 (\<lambda>c. c\<lparr>q_reads := hm_insert 3 [] (q_reads c)\<rparr>) ?e)"
    by (rule read_idle_stream [OF e(1) a(4) e(2) e(5)]) (use a(5-7) e(3) in \<open>simp_all add: is_wt_connect_def\<close>)
  have "\<exists>s'. hm_get (sessions ?i) 0 = Some s' \<and> self_bidi s' = [(4, 1)] \<and> in_streams s' = [(3, new_in_stream Dir_Uni)] \<and>
      connect_stream s' = Some 0 \<and> extra_sessions s' = [] \<and> pending_client_connects s' = []"
    using e(1) a(3-7) unfolding i by (simp add: put_in_stream_def hm_get_upd_session quinn_def hm_modify_def)
  then obtain s' where s': "hm_get (sessions ?i) 0 = Some s'" "self_bidi s' = [(4, 1)]" "in_streams s' = [(3, new_in_stream Dir_Uni)]"
      "connect_stream s' = Some 0" "extra_sessions s' = []" "pending_client_connects s' = []"
    by blast
  have ok: "ep_ok wasm_limits_default ?i"
    using ep_sound.stable_read_one [OF TrueI ep_sound.stable_unpause [OF ep_ok_reachable [OF sample_paused_reachable]]] .
  have left: "reads_left 0 4 ?i = [Chunk [65]]" "queue ?i = queue ?e" "hm_get (handle_to_id ?i) 0 = Some 1"
    using e(2,5) unfolding i by (simp_all add: reads_left_def put_in_stream_def upd_session_def quinn_def)
  let ?d = "read_one no_huffman 0 4 0 ?i"
  have "\<exists>xs. events (queue ?d) = [StreamData 1 1 False [65]] @ xs"
    using read_chunk [OF ok limits_valid [OF sample_paused_reachable] _ left(3) s'(1), of 4 1 "[65]" no_huffman 0] s' left e(3,7)
    by (simp add: default_limits usize_MAX_def is_wt_connect_def has_event_slot_capacity_def sat_add_def MAX_PENDING_EVENTS_def)
  then have "\<exists>xs. events (queue (read_one no_huffman 0 0 0 ?d)) = [StreamData 1 1 False [65]] @ xs"
    by (rule appended.stable_read_one [OF TrueI])
  moreover have "sample_delivered = read_streams no_huffman 0 0 ?e"
    using e(8,9) by (simp add: sample_delivered_def stream_resume_def)
  moreover have "read_streams no_huffman 0 0 ?e = read_one no_huffman 0 0 0 ?d"
    using e(1,4) a(3-7) by (simp add: read_streams_def readable_streams_def all_connect_streams_def new_in_stream_def)
  moreover have "tokens (read_streams no_huffman 0 0 ?e) = []"
    by (rule tokens_kept.stable_read_streams [OF TrueI e(6)])
  ultimately show thesis
    using that by auto
qed

section \<open>The results on this run\<close>

theorem endpoint_conserves_witness:
  "counter_value (governor (queue sample_connected)) Handshakes
     = (\<Sum>k\<in>#held sample_connected + queued_kinds (events (queue sample_connected))
          + mset (map snd (host_tokens (governor (queue sample_connected)))). weight k Handshakes) \<and>
   counter_value (governor (queue sample_connected)) Handshakes = 1"
  using endpoint_conserves [OF sample_connected_reachable, of Handshakes] by (simp add: sample_connected_fields)

theorem endpoint_well_formed_witness:
  "hm_get (id_to_handle sample_connected) 1 = Some 0 \<and> hm_get (handle_to_id sample_connected) 0 = Some 1 \<and>
   hm_get (sessions sample_connected) 0 \<noteq> None"
  using endpoint_well_formed [OF sample_connected_reachable, of 1 0] by (simp add: sample_connected_fields)

theorem endpoint_drains_witness:
  "sessions sample_connected \<noteq> [] \<and> sessions (close_all 0 [] 0 sample_connected) = []"
  using endpoint_drains [OF sample_connected_reachable] sample_connected_fields(3) by blast

theorem connection_isolation_witness:
  "hm_get (sessions (recv no_huffman 0 \<lparr>sa_ip = IpV4 0, sa_port = 0\<rparr> (Packet_Event 0 sample_conn) sample_pair)) 1
     = Some fresh_session"
  using connection_isolation [OF sample_pair_reachable, of 0 1] sample_pair_state by simp

theorem poll_encoded_returns_witness:
  "events (queue sample_connected) \<noteq> [] \<and>
   (\<exists>e r. ep_poll_event_encoded (MAX_PENDING_EVENTS + 1) no_huffman 0 sample_connected = (e, Some r))"
  using poll_encoded_returns [OF sample_connected_reachable] by (simp add: sample_connected_fields)

theorem stream_delivery_witness:
  "incoming_trace 0 4 (answering 4 [Chunk [1, 2], End_Of_Stream] sample_opened) = [Byte_Item 1, Byte_Item 2, End_Item] \<and>
   (let e = read_one no_huffman 0 4 0 (answering 4 [Chunk [1, 2], End_Of_Stream] sample_opened)
    in queued_trace 1 1 e @ incoming_trace 0 4 e = [Byte_Item 1, Byte_Item 2, End_Item])"
proof (rule sample_opened_state)
  fix c s
  assume a: "hm_get (conns sample_opened) 0 = Some c" "hm_get (sessions sample_opened) 0 = Some s" "self_bidi s = [(4, 1)]"
    "in_streams s = [(3, new_in_stream Dir_Uni)]" "connect_stream s = Some 0" "extra_sessions s = []"
    "pending_client_connects s = []" "handle_to_id sample_opened = [(0, 1)]" "events (queue sample_opened) = [Connected 1]"
  let ?e = "answering 4 [Chunk [1, 2], End_Of_Stream] sample_opened"
  have left: "reads_left 0 4 ?e = [Chunk [1, 2], End_Of_Stream]"
    using a by (simp add: answering_def reads_left_def quinn_def)
  have same: "handle_to_id ?e = handle_to_id sample_opened" "sessions ?e = sessions sample_opened" "queue ?e = queue sample_opened"
    by (simp_all add: answering_def quinn_def)
  have trace: "queued_trace 1 1 ?e @ incoming_trace 0 4 ?e = [Byte_Item 1, Byte_Item 2, End_Item]"
    and inc: "incoming_trace 0 4 ?e = [Byte_Item 1, Byte_Item 2, End_Item]"
    using a left same by (simp_all add: queued_trace_def incoming_trace_def)
  have "\<exists>lost. queued_trace 1 1 (read_one no_huffman 0 4 0 ?e) @ lost @ incoming_trace 0 4 (read_one no_huffman 0 4 0 ?e)
      = queued_trace 1 1 ?e @ incoming_trace 0 4 ?e \<and> (lost = [] \<or> (\<exists>code. lost = [Reset_Item code])
        \<and> length (events (queue (read_one no_huffman 0 4 0 ?e))) = MAX_PENDING_EVENTS)"
    by (rule stream_delivery [OF answering_reachable [OF sample_opened_reachable], where s = s])
      (use a left same in \<open>simp_all add: default_limits usize_MAX_def is_wt_connect_def\<close>)
  then obtain lost where l: "queued_trace 1 1 (read_one no_huffman 0 4 0 ?e) @ lost @ incoming_trace 0 4 (read_one no_huffman 0 4 0 ?e)
      = [Byte_Item 1, Byte_Item 2, End_Item]" and "lost = [] \<or> (\<exists>code. lost = [Reset_Item code])"
    unfolding trace by blast
  moreover have "set lost \<subseteq> {Byte_Item 1, Byte_Item 2, End_Item}"
    using arg_cong [OF l, of set] by auto
  ultimately have "lost = []"
    by auto
  then show ?thesis
    using l inc by (simp add: Let_def)
qed

theorem session_cap_witness:
  "\<exists>s. hm_get (sessions (server_request 0 1 8 [(str_lit '':method'', str_lit ''CONNECT''),
       (str_lit '':protocol'', str_lit ''webtransport'')] sample_connected)) 0 = Some s \<and> is_wt_connect 8 s"
proof -
  obtain q cs where up: "sample_connected = sample_up (sample_quinn cs) (sample_session q)"
    by (rule sample_connected_state)
  have s: "hm_get (sessions sample_connected) 0 = Some (sample_session q)"
    unfolding up by (simp add: sample_eval)
  have "active_wt_count (sample_session q) < wt_max_sessions sample_connected"
    unfolding up by (simp add: sample_eval active_wt_count_def primary_wt_session_live_def WT_MAX_SESSIONS_DEFAULT_def)
  then show ?thesis
    using session_cap [OF s, of 1 8 "[(str_lit '':method'', str_lit ''CONNECT''), (str_lit '':protocol'', str_lit ''webtransport'')]"]
    by (auto simp: headers_are_webtransport_connect_def)
qed

text \<open>The session of \<open>sample_opened\<close>, once it is established, ends with its stream.\<close>

definition sample_live :: wt_endpoint where
  "sample_live = upd_session 0 (\<lambda>s. s\<lparr>established := True\<rparr>) sample_opened"

theorem session_ends_once_witness:
  "events (queue (end_wt_session 0 0 7 [] sample_live))
     = [Connected 1, StreamReset 1 1 WT_SESSION_GONE, SessionClosed 1 0 7 []] \<and>
   (\<exists>c. hm_get (conns sample_live) 0 = Some c \<and> hm_get (conns (end_wt_session 0 0 7 [] sample_live)) 0
     = Some (c\<lparr>q_calls := q_calls c @ [Call_Reset 4 (ucast WT_SESSION_GONE), Call_Stop 4 (ucast WT_SESSION_GONE)]\<rparr>)) \<and>
   queue (end_wt_session 0 0 8 [] (end_wt_session 0 0 7 [] sample_live)) = queue (end_wt_session 0 0 7 [] sample_live)"
proof (rule sample_opened_state)
  fix c s
  assume a: "hm_get (conns sample_opened) 0 = Some c" "hm_get (sessions sample_opened) 0 = Some s" "connect_stream s = Some 0"
    "\<not> connect_closed s" "handle_to_id sample_opened = [(0, 1)]" "stream_index sample_opened = [(1, 0, 4)]"
    "stream_sessions sample_opened = [(1, 0)]" "events (queue sample_opened) = [Connected 1]"
  let ?s = "s\<lparr>established := True\<rparr>"
  have id: "hm_get (handle_to_id sample_live) 0 = Some 1" and s: "hm_get (sessions sample_live) 0 = Some ?s"
    and c: "hm_get (conns sample_live) 0 = Some c"
    and streams: "session_streams 0 0 sample_live = [(1, 4)]" and ev: "events (queue sample_live) = [Connected 1]"
    using a by (simp_all add: sample_live_def upd_session_def session_streams_def)
  have both: "gone_calls me 4 = [Call_Reset 4 (ucast WT_SESSION_GONE), Call_Stop 4 (ucast WT_SESSION_GONE)]" for me
    by (simp add: gone_calls_def sid_dir_def)
  have "wt_session_live 0 ?s"
    using a by (simp add: wt_session_live_def)
  then show ?thesis
    using session_ends_once [OF id s c, of 0 7 "[]" 8 "[]"] c by (simp add: streams ev both MAX_PENDING_EVENTS_def)
qed

theorem capsule_fragmentation_irrelevant_witness:
  "fold (ep_feed_session_capsules 0 0) [[0x68], [0x43, 4, 0, 0, 0, 7]] sample_live
     = ep_feed_session_capsules 0 0 [0x68, 0x43, 4, 0, 0, 0, 7] sample_live"
proof (rule sample_opened_state)
  fix c s
  assume a: "hm_get (sessions sample_opened) 0 = Some s" "capsules s = []"
  have s: "hm_get (sessions sample_live) 0 = Some (s\<lparr>established := True\<rparr>)"
    using a by (simp add: sample_live_def upd_session_def)
  have "parse_capsule [0x68] = Incomplete"
    by code_simp
  then have "assembler_next \<lparr>cap_buf = [0x68]\<rparr> = (\<lparr>cap_buf = [0x68]\<rparr>, Inr None)"
    by (simp add: assembler_next.simps [of "\<lparr>cap_buf = [0x68]\<rparr>"])
  then have "snd (feed_session_capsules None [0x68]) \<noteq> None"
    by (simp add: feed_session_capsules_def assembler_push_def assembler_new_def capsule_loop_None)
  then show ?thesis
    using capsule_fragmentation_irrelevant [OF s, of "[[0x68], [0x43, 4, 0, 0, 0, 7]]" 0 "[]" "[]"] a(2) by simp
qed

theorem undelivered_event_refunded_witness:
  "\<exists>e bytes t q. ep_poll_event_encoded 1 no_huffman 0 sample_delivered = (e, Some (Some bytes)) \<and>
     released (dispatchDecodedWasmEvent Throws (decodeWasmEvent bytes)) = [t] \<and>
     ep_release_host_token no_huffman 0 t e = (resume_waiting_after_capacity_change no_huffman 0 (e\<lparr>queue := q\<rparr>), True) \<and>
     counter_value (governor (queue e)) Bytes = counter_value (governor q) Bytes + 1"
proof (rule sample_delivered_state)
  fix evs
  assume ev: "events (queue sample_delivered) = StreamData 1 1 False [65] # evs" and none: "tokens sample_delivered = []"
  let ?k = "RQueuedBytes 1 (Some 1) 1"
  have k: "event_kind (StreamData 1 1 False [65]) = Some ?k" and h: "host_ok (StreamData 1 1 False [65])"
    by (simp_all add: stream_event_charge_def usize_MAX_def)
  have "queue_ok wasm_limits_default (held sample_delivered) (queue sample_delivered)"
    using ep_ok_reachable [OF sample_delivered_reachable] by (simp add: ep_ok_def ep_bal_def)
  note head = queue_ok_head [OF this ev]
  obtain t f where "allocate_host_token (governor (queue sample_delivered))
      = Some ((governor (queue sample_delivered))\<lparr>next_host_token := f\<rparr>, Inr t)"
    using none by (cases rule: allocate_total [of "governor (queue sample_delivered)"]) (auto simp: subset_iff)
  then obtain q bytes where "poll_event_encoded (queue sample_delivered) = (q, Poll_Encoded bytes)"
    using head(1) ev k by (simp add: poll_event_encoded_def transfer_to_host_def reservation_new_def)
  then obtain e where poll: "ep_poll_event_encoded 1 no_huffman 0 sample_delivered = (e, Some (Some bytes))"
    by (simp add: poll_encoded_round_def)
  from undelivered_event_refunded [OF sample_delivered_reachable ev k h poll, of Throws 0] obtain t q
    where t: "released (dispatchDecodedWasmEvent Throws (decodeWasmEvent bytes)) = [t]"
      "ep_release_host_token no_huffman 0 t e = (resume_waiting_after_capacity_change no_huffman 0 (e\<lparr>queue := q\<rparr>), True)"
      and all: "\<forall>c. counter_value (governor (queue e)) c = counter_value (governor q) c + weight ?k c"
    by auto
  have "counter_value (governor (queue e)) Bytes = counter_value (governor q) Bytes + 1"
    using spec [OF all, of Bytes] by (simp add: weight_def)
  then show ?thesis
    using poll t by blast
qed

theorem stream_reaches_peer_witness:
  "\<exists>evs. events (queue (read_one no_huffman 0 3 0 (answering 3 [Chunk (stream_header False 0 @ [9, 8])] sample_connected)))
     = [Connected 1, StreamOpened 1 0 1 False] @ evs"
proof -
  obtain q cs where up: "sample_connected = sample_up (sample_quinn cs) (sample_session q)"
    by (rule sample_connected_state)
  let ?e = "answering 3 [Chunk (stream_header False 0 @ [9, 8])] sample_connected"
  obtain e2 where opens: "open_in_stream 0 3 0 (headed Dir_Uni stream_type_WT_UNI 0) ?e = (e2, Inr (1, 0, 1, False))"
    unfolding up
    by (simp add: open_in_stream_def answering_def sample_eval checked_add_word_def headed_def new_in_stream_def stream_kind_of_def
        reserve_stream_for_def reserve_stream_def sample_governor default_limits)
  have s: "hm_get (sessions ?e) 0 = Some (sample_session q)" and left: "reads_left 0 3 ?e = [Chunk (stream_header False 0 @ [9, 8])]"
    and ev: "events (queue ?e) = [Connected 1]"
    unfolding up by (simp_all add: answering_def sample_eval reads_left_def)
  have "\<exists>evs. events (queue (read_one no_huffman 0 3 0 ?e)) = events (queue ?e) @ StreamOpened 1 0 1 False # evs"
    by (rule stream_reaches_peer [OF answering_reachable [OF sample_connected_reachable] _ s _ _ _ _ _ left _ _ _ opens, THEN conjunct1])
      (simp_all add: default_limits usize_MAX_def ev has_event_slot_capacity_def sat_add_def MAX_PENDING_EVENTS_def sample_session_def
        fresh_session_def session_default_def is_wt_connect_def live_connect_streams_def)
  then show ?thesis
    using ev by simp
qed

text \<open>The same session, already closed.\<close>

definition sample_closed :: wt_endpoint where
  "sample_closed = upd_session 0 (\<lambda>s. s\<lparr>connect_closed := True\<rparr>) sample_connected"

theorem closed_session_reported_again_witness:
  "\<exists>e evs. close_wt_session 1 0 5 [] sample_closed = (e, True) \<and> events (queue e) = [Connected 1] @ evs @ [SessionClosed 1 0 5 []]"
proof -
  obtain q cs where up: "sample_connected = sample_up (sample_quinn cs) (sample_session q)"
    by (rule sample_connected_state)
  have "hm_get (id_to_handle sample_closed) 1 = Some 0"
    and "hm_get (sessions sample_closed) 0 = Some ((sample_session q)\<lparr>connect_closed := True\<rparr>)"
    and "session_streams 0 0 sample_closed = []" and ev: "events (queue sample_closed) = [Connected 1]"
    unfolding sample_closed_def up by (simp_all add: sample_eval session_streams_def)
  then show ?thesis
    using closed_session_reported_again [of sample_closed 1 0 "(sample_session q)\<lparr>connect_closed := True\<rparr>" 0 5 "[]"]
    by (simp add: sample_session_def MAX_PENDING_EVENTS_def)
qed

end
