(* ===== verification/Spec2Isabelle.thy ===== *)
theory Spec2Isabelle
  imports Wt_Error Capsule Qpack_Section Rate_Limiter_Book Event_Queue Ticket_Store Endpoint_Sample
begin

text \<open>
  Verification of the WebAssembly transport of \<^verbatim>\<open>webtransport-bun\<close>: the sans-IO WebTransport endpoint
  of \<^verbatim>\<open>crates/wasm/src\<close> with everything it is made of, and the JavaScript code that takes its events
  (\<^verbatim>\<open>packages/webtransport/src/backend-wasm.ts\<close>).

  \<^bold>\<open>The program.\<close> \<^verbatim>\<open>WtEndpoint\<close> (\<^verbatim>\<open>endpoint.rs\<close>) drives quinn connections. It speaks HTTP/3 on them
  (\<^verbatim>\<open>h3.rs\<close>, \<^verbatim>\<open>varint.rs\<close>), sets WebTransport sessions up with extended CONNECT, carries their
  streams, datagrams and capsules (\<^verbatim>\<open>capsule.rs\<close>, \<^verbatim>\<open>wt_error.rs\<close>), and hands what happens to the host
  as events (\<^verbatim>\<open>event.rs\<close>). Every handshake, session, stream and queued byte is reserved with the
  governor, and a server limits its peers' rates (\<^verbatim>\<open>governor.rs\<close>). Resumption tickets are kept in
  \<^verbatim>\<open>ticket_store.rs\<close>.

  \<^bold>\<open>Theories.\<close> Each opens with what it holds.
  \<^item> Prelude and interfaces. \<open>Wt_Prelude\<close>: machine types, checked and saturating arithmetic, byte
    strings, UTF-8. \<open>Hash_Map\<close>: Rust's maps and sets as lists. \<open>Wire_Codec\<close>: the locales \<open>prefix_codec\<close>
    (self-delimiting items) and \<open>incremental\<close> (parsers over fragments). \<open>Ledger\<close>: the locales \<open>ledger\<close>
    and \<open>keyed_ledger\<close> (reservations against counters).
  \<^item> The wire. \<open>Varint\<close>, \<open>Wt_Error\<close> (also \<^verbatim>\<open>handle.rs\<close>), \<open>Capsule\<close>, \<open>H3_Frames\<close>, \<open>Qpack_Int\<close>,
    \<open>Qpack_Table\<close>, \<open>Qpack_Static\<close>, \<open>Qpack_Stream\<close>, \<open>Qpack_Section\<close>. Shown: what one side encodes the
    other decodes, however the network cuts it; both dynamic tables stay equal and within their
    capacity; requests and responses arrive as they were sent. Varints and QPACK primitives interpret
    \<open>prefix_codec\<close>, capsules and instruction streams \<open>incremental\<close>.
  \<^item> Limits. \<open>Wasm_Limits\<close>, \<open>Rate_Limiter\<close> (the buckets and their operations), \<open>Rate_Limiter_Safety\<close>
    (the number of requests admitted in any interval), \<open>Rate_Limiter_Book\<close> (owner counts, capacity, no
    panic), \<open>Governor\<close> (interprets \<open>keyed_ledger\<close>: counters are what is outstanding, and drain to zero).
  \<^item> Events. \<open>Event\<close> (the datatype and its wire form), \<open>Event_Host\<close> (decoding and dispatch in
    JavaScript, with its numbers and its \<^verbatim>\<open>TextDecoder\<close>), \<open>Event_Queue\<close> (the queue with its
    reservations: the part of polling and releasing that works on the queue).
  \<^item> Tickets. \<open>Ticket_Store\<close> (locale \<open>single_use_store\<close>, interpreted for server sessions and for the
    blobs of the vault), \<open>Authority\<close> (the server name of an authority).
  \<^item> The endpoint. \<open>Endpoint_State\<close>: the records of \<^verbatim>\<open>WtEndpoint\<close>, \<^verbatim>\<open>Session\<close> and \<^verbatim>\<open>InStream\<close>, quinn's
    answers and the pure helper functions. \<open>Endpoint_Teardown\<close>: everything that takes entries out of the
    registry, from a finished stream half to \<^verbatim>\<open>close_all\<close>. \<open>Endpoint_Connect\<close>: CONNECT requests and
    responses, session capsules, the QPACK streams. \<open>Endpoint_Read\<close>: classification of streams, the reading
    loops with their backpressure, datagrams. \<open>Endpoint_Host\<close>: construction, \<^verbatim>\<open>connect\<close>, \<^verbatim>\<open>recv\<close>, the
    driver, timers, polling and the operations on sessions and streams.
  \<^item> What the endpoint promises. \<open>Endpoint_Stable\<close>: the locales \<open>endpoint_stable\<close>, the elementary changes
    all operations are made of and the proof that a property they keep is kept by every operation, and
    \<open>endpoint_invariant\<close>, which adds calls from outside; the step relation \<open>ep_step\<close> and its reachable
    states. \<open>Endpoint_Accounting\<close>: the invariant \<open>ep_ok\<close>, by interpretation. \<open>Endpoint_Safety\<close>:
    conservation, a well-formed registry, shutdown, isolation of connections, polling that returns.
    \<open>Endpoint_Delivery\<close>: stream data arrives whole, in order and once, and when a reset is lost.
    \<open>Endpoint_Sessions\<close>: the session cap, the end of a session with what quinn and the host are told,
    capsules cut into payloads. \<open>Endpoint_Refund\<close>: an event the host does not take gives its bytes
    back. \<open>Endpoint_Streams\<close>: a stream from the side that opens it to the host of the
    other. \<open>Endpoint_Sample\<close>: a computed run to which the results are applied.

  \<^bold>\<open>How state and effects are modelled.\<close> A struct is a \<^theory_text>\<open>record\<close>, a method takes it and returns it updated.
  A \<^verbatim>\<open>HashMap\<close> is an association list, so that iteration has an order, which is arbitrary; no theorem
  depends on it. Errors are values of a sum type with the source's message, panics included. Values that
  travel or wrap are words; counters are naturals with the source's checked or saturating operations
  written out; an \<^verbatim>\<open>Instant\<close> is a number of nanoseconds and an argument. Reservations are released where
  Rust drops them.

  \<^bold>\<open>Code outside the repository.\<close> quinn is a record of answers per connection (events, accepted and opened
  stream ids, reads, writes, datagrams) that the endpoint consumes, and a log of the calls it makes. A
  packet, a timer or the step \<open>Answers\<close> brings new answers, so the theorems hold for every behaviour of
  quinn; connection handles are new when quinn announces them (\<open>fresh_handles\<close>, \<open>fresh_packet\<close>). The
  Huffman decoder, the random ticket tokens, the parser of server names and the acceptance of a TLS
  configuration are parameters.

  \<^bold>\<open>Loops and bounds.\<close> The parsing loops are total, by the number of buffered bytes. The reading loops make
  at most \<^verbatim>\<open>MAX_READ_BATCHES_PER_PUMP\<close> rounds, as in the source. Polling encoded events runs on fuel, and
  65537 rounds are proved to be enough (\<open>poll_encoded_returns\<close>). \<^verbatim>\<open>usize\<close> has 32 bits, as on
  the WebAssembly target; limits are assumed to fit it where that matters.

  \<^bold>\<open>Findings.\<close> Properties that hold of the code and should not are proved like the others:
  \<open>encoder_stream_panic\<close>, \<open>encoder_stream_stalls\<close>, \<open>required_insert_count_rejects_blocked\<close>,
  \<open>connect_request_evicts_own_entry\<close>, \<open>idle_eviction_refills\<close>, \<open>unsafe_session_datagram_dropped\<close>,
  \<open>stream_sessions_leak\<close>, \<open>closed_session_reported_again\<close>, \<open>stream_reset_lost\<close>,
  \<open>closed_session_still_drains\<close>; \<open>session_ends_once\<close> also says which events a full queue drops.

  \<^bold>\<open>Not modelled.\<close> Of the endpoint: its JSON reports, the update of certificates at run time and the TLS
  configuration of its constructors, which are calls into rustls. \<^verbatim>\<open>bridge.rs\<close> and \<^verbatim>\<open>lib.rs\<close> marshal
  arguments for the modelled operations; \<^verbatim>\<open>verify.rs\<close>, \<^verbatim>\<open>server_tls.rs\<close> and \<^verbatim>\<open>cert.rs\<close> call rustls, webpki
  and ring. The native addon (\<^verbatim>\<open>crates/native\<close>) is threads, sockets and callbacks over tokio, with
  the shared-memory ring of \<^verbatim>\<open>stream_sink.rs\<close> as an optional path; the rest of the JavaScript package is promises around either transport. The vendored fork of \<^verbatim>\<open>wtransport\<close>, the
  reference clients and the tools are not part of the library.
\<close>

end
